(* ===== verification/Knodex_Prelude.thy ===== *)
theory Knodex_Prelude
  imports Main "HOL-Library.Sublist" "HOL-Library.Word" "HOL-Library.AList"
begin

text \<open>
  Shared vocabulary of the development: Go strings as byte lists, the functions of Go's
  \<open>strings\<close> package that the server uses, Go error values, and the generic lemmas that the
  component theories share.

  A Go string is a sequence of bytes, so it is a \<open>char list\<close> here and \<open>length\<close> is Go's
  \<open>len\<close>. An \<open>error\<close> is \<open>None\<close> for \<open>nil\<close>; a pair \<open>(T, error)\<close> whose first component is
  meaningless on error is \<open>gerror + 'a\<close>.
\<close>

named_theorems go_simps \<open>evaluation rules for the string functions\<close>
named_theorems frame_simps \<open>what an operation leaves unchanged\<close>

subsection \<open>Errors\<close>

text \<open>
  \<open>Err\<close> is an error made by \<open>errors.New\<close> or \<open>fmt.Errorf\<close> without \<open>%w\<close>, identified by its
  fixed text; \<open>Wrap\<close> is \<open>fmt.Errorf\<close> with \<open>%w\<close>. Interpolated values are left out of the
  texts.
\<close>

datatype gerror = Err string | Wrap string gerror

fun errors_is :: "gerror \<Rightarrow> gerror \<Rightarrow> bool" where
  "errors_is (Wrap m e) t \<longleftrightarrow> Wrap m e = t \<or> errors_is e t"
| "errors_is (Err m) t \<longleftrightarrow> Err m = t"

text \<open>\<open>if err != nil { return fmt.Errorf("ctx: %w", err) }\<close>\<close>

definition wrap_err :: "string \<Rightarrow> gerror option \<Rightarrow> gerror option" where
  "wrap_err ctx r = map_option (Wrap ctx) r"

lemma wrap_err_simps [simp]:
  "wrap_err m None = None"
  "wrap_err m (Some e) = Some (Wrap m e)"
  "wrap_err m r = None \<longleftrightarrow> r = None"
  by (simp_all add: wrap_err_def)

text \<open>
  A sequence of checks where the first error is returned: \<open>first_err e1 e2\<close> is
  \<open>if err := e1; err != nil { return err }; return e2\<close>.
\<close>

definition first_err :: "gerror option \<Rightarrow> gerror option \<Rightarrow> gerror option" where
  "first_err a b = (case a of Some e \<Rightarrow> Some e | None \<Rightarrow> b)"

lemma first_err_simps [simp]:
  "first_err None b = b"
  "first_err (Some e) b = Some e"
  "first_err a b = None \<longleftrightarrow> a = None \<and> b = None"
  by (auto simp: first_err_def split: option.splits)

text \<open>A \<open>for i, x := range xs\<close> loop that returns at the first error.\<close>

fun range_err :: "('a \<Rightarrow> gerror option) \<Rightarrow> 'a list \<Rightarrow> gerror option" where
  "range_err f [] = None"
| "range_err f (x # xs) = first_err (f x) (range_err f xs)"

lemma range_err_None [simp]: "range_err f xs = None \<longleftrightarrow> (\<forall>x \<in> set xs. f x = None)"
  by (induction xs) auto

subsection \<open>Searching: \<open>HasPrefix\<close>, \<open>HasSuffix\<close>, \<open>Index\<close>, \<open>Contains\<close>\<close>

abbreviation has_prefix :: "string \<Rightarrow> string \<Rightarrow> bool" where
  "has_prefix s p \<equiv> prefix p s"

abbreviation has_suffix :: "string \<Rightarrow> string \<Rightarrow> bool" where
  "has_suffix s p \<equiv> suffix p s"

fun str_index :: "string \<Rightarrow> string \<Rightarrow> nat option" where
  "str_index [] sub = (if sub = [] then Some 0 else None)"
| "str_index (c # cs) sub =
     (if prefix sub (c # cs) then Some 0 else map_option Suc (str_index cs sub))"

definition contains :: "string \<Rightarrow> string \<Rightarrow> bool" where
  "contains s sub \<longleftrightarrow> str_index s sub \<noteq> None"

definition contains_any :: "string \<Rightarrow> char list \<Rightarrow> bool" where
  "contains_any s cs \<longleftrightarrow> (\<exists>c \<in> set s. c \<in> set cs)"

lemma str_index_Some:
  "str_index s sub = Some i \<Longrightarrow> i + length sub \<le> length s \<and> prefix sub (drop i s)"
proof (induction s arbitrary: i)
  case Nil
  then show ?case by (auto split: if_splits)
next
  case (Cons c cs)
  then show ?case by (fastforce split: if_splits dest: prefix_length_le)
qed

lemma str_index_least:
  "str_index s sub = Some i \<Longrightarrow> j < i \<Longrightarrow> \<not> prefix sub (drop j s)"
proof (induction s arbitrary: i j)
  case Nil
  then show ?case by (auto split: if_splits)
next
  case (Cons c cs)
  then show ?case by (cases j) (auto split: if_splits)
qed

lemma str_index_None: "str_index s sub = None \<Longrightarrow> \<not> prefix sub (drop j s)"
proof (induction s arbitrary: j)
  case Nil
  then show ?case by (auto split: if_splits)
next
  case (Cons c cs)
  then show ?case by (cases j) (auto split: if_splits)
qed

lemma contains_iff: "contains s sub \<longleftrightarrow> (\<exists>j. prefix sub (drop j s))"
proof
  assume "contains s sub"
  then show "\<exists>j. prefix sub (drop j s)"
    unfolding contains_def using str_index_Some by blast
next
  assume "\<exists>j. prefix sub (drop j s)"
  then show "contains s sub"
    unfolding contains_def using str_index_None by blast
qed

lemma contains_single [simp]: "contains s [c] \<longleftrightarrow> c \<in> set s"
proof (induction s)
  case Nil
  then show ?case by (simp add: contains_def)
next
  case (Cons d ds)
  then show ?case by (auto simp: contains_def)
qed

subsection \<open>\<open>Split\<close>, \<open>SplitN\<close> and \<open>Join\<close>\<close>

fun split_on :: "char \<Rightarrow> string \<Rightarrow> string list" where
  "split_on c [] = [[]]"
| "split_on c (x # xs) =
     (if x = c then [] # split_on c xs
      else (case split_on c xs of [] \<Rightarrow> [[x]] | y # ys \<Rightarrow> (x # y) # ys))"

fun split_n :: "nat \<Rightarrow> char \<Rightarrow> string \<Rightarrow> string list" where
  "split_n 0 c s = []"
| "split_n (Suc 0) c s = [s]"
| "split_n (Suc (Suc n)) c s =
     (if c \<in> set s
      then takeWhile (\<lambda>x. x \<noteq> c) s # split_n (Suc n) c (tl (dropWhile (\<lambda>x. x \<noteq> c) s))
      else [s])"

fun join_on :: "string \<Rightarrow> string list \<Rightarrow> string" where
  "join_on sep [] = []"
| "join_on sep [x] = x"
| "join_on sep (x # y # ys) = x @ sep @ join_on sep (y # ys)"

lemma split_on_nonempty [simp]: "split_on c s \<noteq> []"
  by (cases s) (auto split: list.splits)

lemma split_on_Cons:
  "x \<noteq> c \<Longrightarrow> split_on c (x # xs) = (x # hd (split_on c xs)) # tl (split_on c xs)"
  using split_on_nonempty [of c xs] by (auto split: list.splits)

lemma split_on_no_sep: "c \<notin> set s \<Longrightarrow> split_on c s = [s]"
  by (induction s) auto

lemma split_on_append: "c \<notin> set a \<Longrightarrow> split_on c (a @ c # s) = a # split_on c s"
  by (induction a) auto

lemma length_split_on: "length (split_on c s) = Suc (count_list s c)"
proof (induction s)
  case Nil
  then show ?case by simp
next
  case (Cons x xs)
  then show ?case by (auto split: list.splits)
qed

lemma split_on_parts: "p \<in> set (split_on c s) \<Longrightarrow> c \<notin> set p"
proof (induction s arbitrary: p)
  case Nil
  then show ?case by simp
next
  case (Cons x xs)
  show ?case
  proof (cases "x = c")
    case True
    with Cons show ?thesis by auto
  next
    case False
    have "hd (split_on c xs) \<in> set (split_on c xs)" by simp
    moreover have "set (tl (split_on c xs)) \<subseteq> set (split_on c xs)"
      by (cases "split_on c xs") auto
    ultimately show ?thesis using Cons False by (auto simp: split_on_Cons simp del: split_on.simps(2))
  qed
qed

lemma join_on_Cons: "xs \<noteq> [] \<Longrightarrow> join_on sep (x # xs) = x @ sep @ join_on sep xs"
  by (cases xs) auto

lemma join_split_on [simp]: "join_on [c] (split_on c s) = s"
proof (induction s)
  case Nil
  then show ?case by simp
next
  case (Cons x xs)
  obtain y ys where y: "split_on c xs = y # ys"
    using split_on_nonempty by (cases "split_on c xs") auto
  show ?case
  proof (cases "x = c")
    case True
    then show ?thesis using Cons y by (simp add: join_on_Cons)
  next
    case False
    then show ?thesis using Cons y by (cases ys) auto
  qed
qed

lemma split_join_on:
  "xs \<noteq> [] \<Longrightarrow> (\<And>x. x \<in> set xs \<Longrightarrow> c \<notin> set x) \<Longrightarrow> split_on c (join_on [c] xs) = xs"
proof (induction xs)
  case Nil
  then show ?case by simp
next
  case (Cons x xs)
  show ?case
  proof (cases xs)
    case Nil
    then show ?thesis using Cons.prems by (simp add: split_on_no_sep)
  next
    case (Cons y ys)
    then show ?thesis using Cons.IH Cons.prems
      by (simp add: split_on_append)
  qed
qed

lemma split_n_no_sep: "c \<notin> set s \<Longrightarrow> split_n (Suc n) c s = [s]"
  by (cases n) auto

lemma split_n_append:
  "c \<notin> set a \<Longrightarrow> split_n (Suc (Suc n)) c (a @ c # s) = a # split_n (Suc n) c s"
  by (simp add: takeWhile_tail dropWhile_append)

lemma length_split_n: "length (split_n n c s) \<le> n"
  by (induction n c s rule: split_n.induct) auto

lemma split_n_nonempty: "split_n (Suc n) c s \<noteq> []"
  by (cases n) auto

subsection \<open>Replacing\<close>

function replace_all :: "string \<Rightarrow> string \<Rightarrow> string \<Rightarrow> string" where
  "replace_all old new s =
     (if old = [] then s
      else if prefix old s then new @ replace_all old new (drop (length old) s)
      else case s of [] \<Rightarrow> [] | c # cs \<Rightarrow> c # replace_all old new cs)"
  by pat_completeness auto
termination
proof (relation "measure (\<lambda>(old, new, s). length s)")
  show "wf (measure (\<lambda>(old, new, s :: string). length s))" by simp
next
  fix old new s :: string
  assume "old \<noteq> []" "prefix old s"
  then show "((old, new, drop (length old) s), old, new, s) \<in> measure (\<lambda>(old, new, s). length s)"
    by (auto simp: prefix_def)
qed simp

declare replace_all.simps [simp del]

subsection \<open>\<open>TrimSpace\<close>, \<open>TrimPrefix\<close>, \<open>TrimSuffix\<close>, \<open>TrimRight\<close>\<close>

text \<open>
  The white space of \<open>unicode.IsSpace\<close>, as UTF-8 byte sequences. UTF-8 is self-synchronising,
  so a byte sequence at either end of the string is one of these exactly when the rune there is.
\<close>

definition space_runes :: "string list" where
  "space_runes =
     [[CHR 0x09], [CHR 0x0A], [CHR 0x0B], [CHR 0x0C], [CHR 0x0D], [CHR 0x20],
      [CHR 0xC2, CHR 0x85], [CHR 0xC2, CHR 0xA0], [CHR 0xE1, CHR 0x9A, CHR 0x80],
      [CHR 0xE2, CHR 0x80, CHR 0x80], [CHR 0xE2, CHR 0x80, CHR 0x81], [CHR 0xE2, CHR 0x80, CHR 0x82],
      [CHR 0xE2, CHR 0x80, CHR 0x83], [CHR 0xE2, CHR 0x80, CHR 0x84], [CHR 0xE2, CHR 0x80, CHR 0x85],
      [CHR 0xE2, CHR 0x80, CHR 0x86], [CHR 0xE2, CHR 0x80, CHR 0x87], [CHR 0xE2, CHR 0x80, CHR 0x88],
      [CHR 0xE2, CHR 0x80, CHR 0x89], [CHR 0xE2, CHR 0x80, CHR 0x8A], [CHR 0xE2, CHR 0x80, CHR 0xA8],
      [CHR 0xE2, CHR 0x80, CHR 0xA9], [CHR 0xE2, CHR 0x80, CHR 0xAF], [CHR 0xE2, CHR 0x81, CHR 0x9F],
      [CHR 0xE3, CHR 0x80, CHR 0x80]]"

fun strip_one :: "string list \<Rightarrow> string \<Rightarrow> string option" where
  "strip_one [] s = None"
| "strip_one (w # ws) s =
     (if w \<noteq> [] \<and> prefix w s then Some (drop (length w) s) else strip_one ws s)"

lemma strip_one_shorter: "strip_one ws s = Some r \<Longrightarrow> length r < length s"
proof (induction ws)
  case Nil
  then show ?case by simp
next
  case (Cons w ws)
  then show ?case
    by (cases "w \<noteq> [] \<and> prefix w s") (auto simp: prefix_def)
qed

function trim_left :: "string list \<Rightarrow> string \<Rightarrow> string" where
  "trim_left ws s = (case strip_one ws s of None \<Rightarrow> s | Some r \<Rightarrow> trim_left ws r)"
  by pat_completeness auto
termination
  by (relation "measure (\<lambda>(ws, s). length s)") (auto dest: strip_one_shorter)

declare trim_left.simps [simp del]

definition trim_space :: "string \<Rightarrow> string" where
  "trim_space s = rev (trim_left (map rev space_runes) (rev (trim_left space_runes s)))"

definition trim_prefix :: "string \<Rightarrow> string \<Rightarrow> string" where
  "trim_prefix s p = (if prefix p s then drop (length p) s else s)"

definition trim_suffix :: "string \<Rightarrow> string \<Rightarrow> string" where
  "trim_suffix s p = (if suffix p s then take (length s - length p) s else s)"

definition trim_right_char :: "char \<Rightarrow> string \<Rightarrow> string" where
  "trim_right_char c s = rev (dropWhile (\<lambda>x. x = c) (rev s))"

definition trim_char :: "char \<Rightarrow> string \<Rightarrow> string" where
  "trim_char c s = trim_right_char c (dropWhile (\<lambda>x. x = c) s)"

lemma strip_one_None: "(\<And>w. w \<in> set ws \<Longrightarrow> w \<noteq> [] \<Longrightarrow> \<not> prefix w s) \<Longrightarrow> strip_one ws s = None"
  by (induction ws) auto

lemma strip_one_suffix: "strip_one ws s = Some r \<Longrightarrow> suffix r s"
  by (induction ws) (auto split: if_splits intro: suffix_drop)

lemma trim_left_suffix: "suffix (trim_left ws s) s"
proof (induction ws s rule: trim_left.induct)
  case (1 ws s)
  show ?case
  proof (cases "strip_one ws s")
    case None
    then show ?thesis by (simp add: trim_left.simps)
  next
    case (Some r)
    then show ?thesis
      using 1 strip_one_suffix suffix_order.trans by (fastforce simp: trim_left.simps [of ws s])
  qed
qed

lemma suffix_set: "suffix a b \<Longrightarrow> set a \<subseteq> set b"
  by (auto simp: suffix_def)

lemma trim_space_set: "set (trim_space s) \<subseteq> set s"
proof -
  have "set (trim_left (map rev space_runes) (rev (trim_left space_runes s)))
          \<subseteq> set (trim_left space_runes s)"
    using suffix_set [OF trim_left_suffix] by fastforce
  also have "\<dots> \<subseteq> set s"
    using suffix_set [OF trim_left_suffix] .
  finally show ?thesis by (simp add: trim_space_def)
qed

text \<open>
  A byte that begins or ends one of the space runes; a string that has none at either end is
  its own trimming.
\<close>

definition space_lead :: "char set" where
  "space_lead = {CHR 0x09, CHR 0x0A, CHR 0x0B, CHR 0x0C, CHR 0x0D, CHR 0x20,
                 CHR 0xC2, CHR 0xE1, CHR 0xE2, CHR 0xE3}"

definition space_trail :: "char set" where
  "space_trail = {CHR 0x09, CHR 0x0A, CHR 0x0B, CHR 0x0C, CHR 0x0D, CHR 0x20,
     CHR 0x80, CHR 0x81, CHR 0x82, CHR 0x83, CHR 0x84, CHR 0x85, CHR 0x86, CHR 0x87, CHR 0x88,
     CHR 0x89, CHR 0x8A, CHR 0x9F, CHR 0xA0, CHR 0xA8, CHR 0xA9, CHR 0xAF}"

lemma strip_lead: "c \<notin> space_lead \<Longrightarrow> strip_one space_runes (c # s) = None"
  by (rule strip_one_None) (auto simp: space_runes_def space_lead_def)

lemma strip_trail: "c \<notin> space_trail \<Longrightarrow> strip_one (map rev space_runes) (c # s) = None"
  by (rule strip_one_None) (auto simp: space_runes_def space_trail_def)

lemma strip_Nil [simp]: "strip_one ws [] = None"
  by (induction ws) auto

lemma trim_space_id:
  assumes "s = [] \<or> hd s \<notin> space_lead \<and> last s \<notin> space_trail"
  shows "trim_space s = s"
proof (cases s rule: rev_cases)
  case Nil
  then show ?thesis by (simp add: trim_space_def trim_left.simps)
next
  case (snoc ys y)
  have "strip_one space_runes s = None"
    using assms snoc strip_lead [of "hd s" "tl s"] by simp
  moreover have "strip_one (map rev space_runes) (rev s) = None"
    using assms snoc by (auto simp: strip_trail)
  ultimately show ?thesis by (simp add: trim_space_def trim_left.simps)
qed

subsection \<open>\<open>ToLower\<close>\<close>

text \<open>
  \<open>strings.ToLower\<close>: ASCII letters, and the two other code points whose lower case is an ASCII
  letter (U+0130 to \<open>i\<close>, the Kelvin sign U+212A to \<open>k\<close>). The remaining non-ASCII letters stay as
  they are; their lower cases are not ASCII either, so every comparison with an ASCII text comes
  out as in Go.
\<close>

definition lower_char :: "char \<Rightarrow> char" where
  "lower_char c =
     (if 65 \<le> (of_char c :: nat) \<and> (of_char c :: nat) \<le> 90
      then char_of ((of_char c :: nat) + 32) else c)"

fun to_lower :: "string \<Rightarrow> string" where
  "to_lower [] = []"
| "to_lower (c # cs) =
     (if c = CHR 0xC4 \<and> prefix [CHR 0xB0] cs then CHR ''i'' # to_lower (drop 1 cs)
      else if c = CHR 0xE2 \<and> prefix [CHR 0x84, CHR 0xAA] cs then CHR ''k'' # to_lower (drop 2 cs)
      else lower_char c # to_lower cs)"

definition is_lower :: "char \<Rightarrow> bool" where
  "is_lower c \<longleftrightarrow> 97 \<le> (of_char c :: nat) \<and> (of_char c :: nat) \<le> 122"

definition is_upper :: "char \<Rightarrow> bool" where
  "is_upper c \<longleftrightarrow> 65 \<le> (of_char c :: nat) \<and> (of_char c :: nat) \<le> 90"

definition is_digit :: "char \<Rightarrow> bool" where
  "is_digit c \<longleftrightarrow> 48 \<le> (of_char c :: nat) \<and> (of_char c :: nat) \<le> 57"

text \<open>For evaluation: the same on the bits of a character.\<close>

lemma is_lower_code [code]:
  "is_lower (Char b0 b1 b2 b3 b4 b5 b6 b7) \<longleftrightarrow>
     \<not> b7 \<and> b6 \<and> b5 \<and> (b4 \<or> b3 \<or> b2 \<or> b1 \<or> b0) \<and> \<not> (b4 \<and> b3 \<and> (b2 \<or> b1 \<and> b0))"
  unfolding is_lower_def of_char_Char
  by (cases b7; cases b6; cases b5; cases b4; cases b3; cases b2; cases b1; cases b0) simp_all

lemma is_upper_code [code]:
  "is_upper (Char b0 b1 b2 b3 b4 b5 b6 b7) \<longleftrightarrow>
     \<not> b7 \<and> b6 \<and> \<not> b5 \<and> (b4 \<or> b3 \<or> b2 \<or> b1 \<or> b0) \<and> \<not> (b4 \<and> b3 \<and> (b2 \<or> b1 \<and> b0))"
  unfolding is_upper_def of_char_Char
  by (cases b7; cases b6; cases b5; cases b4; cases b3; cases b2; cases b1; cases b0) simp_all

lemma is_digit_code [code]:
  "is_digit (Char b0 b1 b2 b3 b4 b5 b6 b7) \<longleftrightarrow> \<not> b7 \<and> \<not> b6 \<and> b5 \<and> b4 \<and> \<not> (b3 \<and> (b2 \<or> b1))"
  unfolding is_digit_def of_char_Char
  by (cases b7; cases b6; cases b5; cases b4; cases b3; cases b2; cases b1; cases b0) simp_all

lemma lower_char_code [code]:
  "lower_char c = (if is_upper c then Char (digit0 c) (digit1 c) (digit2 c) (digit3 c) (digit4 c) True (digit6 c) (digit7 c) else c)"
proof (cases c)
  case (Char b0 b1 b2 b3 b4 b5 b6 b7)
  show ?thesis unfolding Char lower_char_def is_upper_def of_char_Char
    by (cases b7; cases b6; cases b5; cases b4; cases b3; cases b2; cases b1; cases b0) (simp_all add: char_of_def bit_Suc_0_iff)
qed

text \<open>\<open>strings.EqualFold(s, t)\<close> for an ASCII \<open>t\<close> without \<open>k\<close> and \<open>s\<close>: Unicode folding adds nothing there.\<close>

definition equal_fold :: "string \<Rightarrow> string \<Rightarrow> bool" where
  "equal_fold s t \<longleftrightarrow> map lower_char s = map lower_char t"

subsection \<open>Lists as Go slices and sets of strings\<close>

text \<open>The \<open>seen\<close> loops: keep the first occurrence of each element.\<close>

fun dedup_from :: "'a list \<Rightarrow> 'a list \<Rightarrow> 'a list" where
  "dedup_from seen [] = []"
| "dedup_from seen (x # xs) =
     (if x \<in> set seen then dedup_from seen xs else x # dedup_from (x # seen) xs)"

lemma set_dedup_from: "set (dedup_from seen xs) = set xs - set seen"
  by (induction xs arbitrary: seen) auto

lemma distinct_dedup_from: "distinct (dedup_from seen xs)"
  by (induction xs arbitrary: seen) (auto simp: set_dedup_from)

lemma prefix_appendD: "prefix (a @ b) s \<Longrightarrow> prefix a s"
  by (auto simp: prefix_def)

lemma not_prefix_diff:
  "length a = length b \<Longrightarrow> a \<noteq> b \<Longrightarrow> prefix a s \<Longrightarrow> \<not> prefix b s"
  by (auto simp: prefix_def append_eq_append_conv)

subsection \<open>State and errors\<close>

text \<open>
  A step that changes a state and may fail returns \<open>(err, s')\<close>; the state is what the step left
  behind, on an error too. \<open>seq_st\<close> is \<open>if err := a; err != nil { return err }; return f\<close>, \<open>each_st\<close>
  a loop that returns at the first error, \<open>wrap_st\<close> the wrapping of a returned error.
\<close>

fun seq_st :: "gerror option \<times> 's \<Rightarrow> ('s \<Rightarrow> gerror option \<times> 's) \<Rightarrow> gerror option \<times> 's" where
  "seq_st (Some e, s) f = (Some e, s)"
| "seq_st (None, s) f = f s"

fun each_st :: "('a \<Rightarrow> 's \<Rightarrow> gerror option \<times> 's) \<Rightarrow> 'a list \<Rightarrow> 's \<Rightarrow> gerror option \<times> 's" where
  "each_st f [] s = (None, s)"
| "each_st f (x # xs) s = seq_st (f x s) (each_st f xs)"

fun wrap_st :: "string \<Rightarrow> gerror option \<times> 's \<Rightarrow> gerror option \<times> 's" where
  "wrap_st ctx (e, s) = (wrap_err ctx e, s)"

text \<open>The pair of an added-or-removed flag or an error, and a state, read as such a step.\<close>

fun err_st :: "(gerror + 'b) \<times> 's \<Rightarrow> gerror option \<times> 's" where
  "err_st (Inl e, s) = (Some e, s)"
| "err_st (Inr _, s) = (None, s)"

lemma seq_st_None: "seq_st r f = (None, t) \<longleftrightarrow> (\<exists>s. r = (None, s) \<and> f s = (None, t))"
  by (cases r; cases "fst r") auto

lemma seq_st_cases:
  obtains (ok) s where "r = (None, s)" "seq_st r f = f s"
  | (fail) e s where "r = (Some e, s)" "seq_st r f = (Some e, s)"
  by (cases r; cases "fst r") auto

lemma wrap_st_simps [simp]:
  "snd (wrap_st c r) = snd r"
  "fst (wrap_st c r) = None \<longleftrightarrow> fst r = None"
  by (cases r, simp)+

end
