(* ===== verification/Subject_Format.thy ===== *)
theory Subject_Format
  imports Knodex_Prelude
begin

text \<open>
  The security validation and formatting functions of \<open>rbac/casbin.go\<close> (lines 245 to 514), the
  constants they use, and the parts of \<open>util/sanitize/sanitize.go\<close> they call. The lemmas say which
  identifiers are accepted and that the names built from accepted identifiers can be taken apart
  again: no two project roles share a name, and no role of one project carries the role prefix of
  another. Everything the policy loader promises about tenant isolation rests on this.
\<close>

subsection \<open>Constants\<close>

definition MaxResourceNameLength :: nat where "MaxResourceNameLength = 256"
definition MaxSubjectIDLength :: nat where "MaxSubjectIDLength = 256"
definition MaxProjectNameLength :: nat where "MaxProjectNameLength = 128"
definition MaxRoleNameLength :: nat where "MaxRoleNameLength = 64"
definition MaxWildcards :: nat where "MaxWildcards = 10"
definition MaxPatternLength :: nat where "MaxPatternLength = 500"

abbreviation EffectAllow :: string where "EffectAllow \<equiv> ''allow''"
abbreviation EffectDeny :: string where "EffectDeny \<equiv> ''deny''"
abbreviation CasbinRoleServerAdmin :: string where "CasbinRoleServerAdmin \<equiv> ''role:serveradmin''"
abbreviation DefaultRGDCategory :: string where "DefaultRGDCategory \<equiv> ''uncategorized''"

subsection \<open>Sanitizing\<close>

text \<open>\<open>globReplacer\<close>: a backslash before each glob character.\<close>

definition glob_chars :: "char list" where
  "glob_chars = ''*?[]{}''"

definition GlobCharacters :: "string \<Rightarrow> string" where
  "GlobCharacters s = concat (map (\<lambda>c. if c \<in> set glob_chars then [CHR 0x5C, c] else [c]) s)"

definition lower_alnum :: "char \<Rightarrow> bool" where
  "lower_alnum c \<longleftrightarrow> is_lower c \<or> is_digit c"

text \<open>The regular expression \<open>^[a-z0-9]([-a-z0-9]*[a-z0-9])?$\<close>.\<close>

definition dns_label_regex :: "string \<Rightarrow> bool" where
  "dns_label_regex s \<longleftrightarrow>
     s \<noteq> [] \<and> lower_alnum (hd s) \<and> lower_alnum (last s) \<and>
     list_all (\<lambda>c. lower_alnum c \<or> c = CHR ''-'') s"

definition IsValidDNS1123Label :: "string \<Rightarrow> bool" where
  "IsValidDNS1123Label s \<longleftrightarrow> 0 < length s \<and> length s \<le> 63 \<and> dns_label_regex s"

subsection \<open>Validation\<close>

definition reserved_prefixes :: "string list" where
  "reserved_prefixes = [''role:'', ''user:'', ''group:'', ''proj:'']"

definition ValidateSubjectIdentifier :: "string \<Rightarrow> gerror option" where
  "ValidateSubjectIdentifier ident =
     (if ident = [] then Some (Err ''identifier cannot be empty'')
      else if length ident > MaxSubjectIDLength
        then Some (Err ''identifier exceeds maximum length'')
      else if contains_any ident [CHR '':'', CHR 0x0A, CHR 0x0D, CHR 0x09, CHR '' '']
        then Some (Err ''identifier contains invalid characters'')
      else range_err
             (\<lambda>p. if has_prefix (to_lower ident) p
                  then Some (Err ''identifier cannot start with reserved prefix'') else None)
             reserved_prefixes)"

text \<open>\<open>strings.Contains(pattern, "**")\<close> and \<open>"??"\<close> are substring tests.\<close>

definition ValidateGlobPattern :: "string \<Rightarrow> gerror option" where
  "ValidateGlobPattern pattern =
     (if pattern = [] then None
      else if length pattern > MaxPatternLength then Some (Err ''pattern too long'')
      else if count_list pattern (CHR ''*'') + count_list pattern (CHR ''?'') > MaxWildcards
        then Some (Err ''pattern has too many wildcards'')
      else if contains pattern ''**'' \<or> contains pattern ''??''
        then Some (Err ''nested or consecutive wildcards not allowed'')
      else None)"

definition ValidateEffect :: "string \<Rightarrow> gerror option" where
  "ValidateEffect eft =
     (if eft \<noteq> EffectAllow \<and> eft \<noteq> EffectDeny then Some (Err ''invalid effect'') else None)"

subsection \<open>Formatting\<close>

definition FormatObject :: "string \<Rightarrow> string \<Rightarrow> gerror + string" where
  "FormatObject resourceType resourceName =
     (if resourceName = [] \<or> resourceName = ''*'' then Inr (resourceType @ ''/*'')
      else if length resourceName > MaxResourceNameLength
        then Inl (Err ''resource name exceeds maximum length'')
      else Inr (resourceType @ ''/'' @ GlobCharacters resourceName))"

definition FormatObjectUnsafe :: "string \<Rightarrow> string \<Rightarrow> string" where
  "FormatObjectUnsafe resourceType resourceName =
     (if resourceName = [] \<or> resourceName = ''*'' then resourceType @ ''/*''
      else resourceType @ ''/'' @ resourceName)"

definition sanitizeCategory :: "string \<Rightarrow> string" where
  "sanitizeCategory c = map (\<lambda>x. if x = CHR ''/'' then CHR ''-'' else x) (GlobCharacters c)"

definition FormatRGDObject :: "string \<Rightarrow> string \<Rightarrow> gerror + string" where
  "FormatRGDObject category0 name =
     (let category = (if category0 = [] then DefaultRGDCategory else category0)
      in if length category > MaxResourceNameLength
           then Inl (Err ''category exceeds maximum length'')
         else if name = [] \<or> name = ''*''
           then Inr (''rgds'' @ ''/'' @ sanitizeCategory category @ ''/*'')
         else if length name > MaxResourceNameLength
           then Inl (Err ''resource name exceeds maximum length'')
         else Inr (''rgds'' @ ''/'' @ sanitizeCategory category @ ''/'' @ GlobCharacters name))"

definition FormatRGDObjectUnsafe :: "string \<Rightarrow> string \<Rightarrow> string" where
  "FormatRGDObjectUnsafe category0 name =
     (let category = (if category0 = [] then DefaultRGDCategory else category0)
      in if name = [] \<or> name = ''*'' then ''rgds'' @ ''/'' @ category @ ''/*''
         else ''rgds'' @ ''/'' @ category @ ''/'' @ name)"

definition FormatProjectRole :: "string \<Rightarrow> string \<Rightarrow> gerror + string" where
  "FormatProjectRole projectName roleName =
     (if length projectName > MaxProjectNameLength
        then Inl (Err ''project name exceeds maximum length'')
      else if length roleName > MaxRoleNameLength
        then Inl (Err ''role name exceeds maximum length'')
      else (case ValidateSubjectIdentifier projectName of
              Some e \<Rightarrow> Inl (Wrap ''invalid project name'' e)
            | None \<Rightarrow>
                (case ValidateSubjectIdentifier roleName of
                   Some e \<Rightarrow> Inl (Wrap ''invalid role name'' e)
                 | None \<Rightarrow> Inr (''proj:'' @ projectName @ '':'' @ roleName))))"

definition FormatUserSubject :: "string \<Rightarrow> gerror + string" where
  "FormatUserSubject userID =
     (case ValidateSubjectIdentifier userID of
        Some e \<Rightarrow> Inl (Wrap ''invalid user ID'' e)
      | None \<Rightarrow> Inr (''user:'' @ userID))"

definition FormatGroupSubject :: "string \<Rightarrow> gerror + string" where
  "FormatGroupSubject groupName =
     (case ValidateSubjectIdentifier groupName of
        Some e \<Rightarrow> Inl (Wrap ''invalid group name'' e)
      | None \<Rightarrow> Inr (''group:'' @ groupName))"

subsection \<open>Which identifiers are valid\<close>

definition bad_ident_chars :: "char set" where
  "bad_ident_chars = {CHR '':'', CHR 0x0A, CHR 0x0D, CHR 0x09, CHR '' ''}"

definition valid_ident :: "string \<Rightarrow> bool" where
  "valid_ident s \<longleftrightarrow> s \<noteq> [] \<and> length s \<le> 256 \<and> set s \<inter> bad_ident_chars = {}"

lemma lower_char_colon: "lower_char c = CHR '':'' \<Longrightarrow> c = CHR '':''"
proof -
  assume a: "lower_char c = CHR '':''"
  show "c = CHR '':''"
  proof (cases "65 \<le> (of_char c :: nat) \<and> (of_char c :: nat) \<le> 90")
    case True
    then have "lower_char c = char_of ((of_char c :: nat) + 32)" by (simp add: lower_char_def)
    with a have "of_char (char_of ((of_char c :: nat) + 32)) = (of_char (CHR '':'') :: nat)" by simp
    then have "((of_char c :: nat) + 32) mod 256 = 58" by simp
    with True show ?thesis by auto
  next
    case False
    then show ?thesis using a by (auto simp: lower_char_def)
  qed
qed

lemma to_lower_colon: "CHR '':'' \<notin> set s \<Longrightarrow> CHR '':'' \<notin> set (to_lower s)"
proof (induction s rule: to_lower.induct)
  case 1
  then show ?case by simp
next
  case (2 c cs)
  have d: "CHR '':'' \<notin> set (drop 1 cs)" "CHR '':'' \<notin> set (drop 2 cs)" "CHR '':'' \<notin> set cs"
    using 2(4) set_drop_subset [of 1 cs] set_drop_subset [of 2 cs] by auto
  have l: "lower_char c \<noteq> CHR '':''" using 2(4) lower_char_colon [of c] by auto
  show ?case
  proof (cases "c = CHR 0xC4 \<and> prefix [CHR 0xB0] cs")
    case True
    with 2(1) d show ?thesis by simp
  next
    case F: False
    show ?thesis
    proof (cases "c = CHR 0xE2 \<and> prefix [CHR 0x84, CHR 0xAA] cs")
      case True
      with F 2(2) d show ?thesis by simp
    next
      case False
      with F 2(3) d l show ?thesis by auto
    qed
  qed
qed

lemma no_reserved_prefix:
  assumes "CHR '':'' \<notin> set s" "p \<in> set reserved_prefixes"
  shows "\<not> prefix p (to_lower s)"
proof
  assume "prefix p (to_lower s)"
  then have "set p \<subseteq> set (to_lower s)" by (auto simp: prefix_def)
  moreover have "CHR '':'' \<in> set p" using assms(2) by (auto simp: reserved_prefixes_def)
  ultimately show False using to_lower_colon [OF assms(1)] by blast
qed

lemma ValidateSubjectIdentifier_None [simp]:
  "ValidateSubjectIdentifier s = None \<longleftrightarrow> valid_ident s"
proof -
  have c: "contains_any s [CHR '':'', CHR 0x0A, CHR 0x0D, CHR 0x09, CHR '' '']
           \<longleftrightarrow> set s \<inter> bad_ident_chars \<noteq> {}"
    by (auto simp: contains_any_def bad_ident_chars_def)
  show ?thesis
  proof (cases "set s \<inter> bad_ident_chars = {}")
    case True
    then have "CHR '':'' \<notin> set s" by (auto simp: bad_ident_chars_def)
    with True c show ?thesis
      using no_reserved_prefix
      by (auto simp: ValidateSubjectIdentifier_def valid_ident_def MaxSubjectIDLength_def)
  next
    case False
    with c show ?thesis
      by (auto simp: ValidateSubjectIdentifier_def valid_ident_def)
  qed
qed

lemma valid_ident_no_colon: "valid_ident s \<Longrightarrow> CHR '':'' \<notin> set s"
  by (auto simp: valid_ident_def bad_ident_chars_def)

lemma ValidateEffect_None [simp]:
  "ValidateEffect e = None \<longleftrightarrow> e = EffectAllow \<or> e = EffectDeny"
  by (auto simp: ValidateEffect_def)

subsection \<open>Formatted names can be taken apart\<close>

definition role_prefix :: "string \<Rightarrow> string" where
  "role_prefix projectName = ''proj:'' @ projectName @ '':''"

lemma FormatProjectRole_Inr:
  "FormatProjectRole p r = Inr x \<longleftrightarrow>
     length p \<le> MaxProjectNameLength \<and> length r \<le> MaxRoleNameLength \<and>
     valid_ident p \<and> valid_ident r \<and> x = role_prefix p @ r"
  by (auto simp: FormatProjectRole_def role_prefix_def split: option.splits)
     (metis ValidateSubjectIdentifier_None option.distinct(1))+

lemma FormatGroupSubject_Inr:
  "FormatGroupSubject g = Inr x \<longleftrightarrow> valid_ident g \<and> x = ''group:'' @ g"
  by (auto simp: FormatGroupSubject_def split: option.splits)
     (metis ValidateSubjectIdentifier_None option.distinct(1))+

lemma FormatGroupSubject_Inl: "FormatGroupSubject g = Inl e \<Longrightarrow> \<not> valid_ident g"
  using FormatGroupSubject_Inr [of g "''group:'' @ g"] by auto

lemma FormatUserSubject_Inr:
  "FormatUserSubject u = Inr x \<longleftrightarrow> valid_ident u \<and> x = ''user:'' @ u"
  by (auto simp: FormatUserSubject_def split: option.splits)
     (metis ValidateSubjectIdentifier_None option.distinct(1))+

lemma sep_unique:
  assumes "a @ c # x = b @ c # y" "c \<notin> set a" "c \<notin> set b"
  shows "a = b \<and> x = y"
  using assms
proof (induction a arbitrary: b)
  case Nil
  then show ?case by (cases b) auto
next
  case (Cons d ds)
  then show ?case by (cases b) auto
qed

lemma prefix_sep_unique:
  assumes "prefix (b @ [c]) (a @ c # x)" "c \<notin> set a" "c \<notin> set b"
  shows "a = b"
proof -
  obtain y where "a @ c # x = b @ c # y" using assms(1) by (auto simp: prefix_def)
  then show ?thesis using sep_unique assms(2,3) by metis
qed

lemma role_prefix_prefix:
  assumes "CHR '':'' \<notin> set p" "CHR '':'' \<notin> set q"
  shows "prefix (role_prefix q) (role_prefix p @ r) \<longleftrightarrow> p = q"
proof
  assume "prefix (role_prefix q) (role_prefix p @ r)"
  then have "prefix (q @ [CHR '':'']) (p @ CHR '':'' # r)" by (simp add: role_prefix_def)
  then show "p = q" using assms by (rule prefix_sep_unique)
qed (simp add: role_prefix_def)

lemma role_prefix_not_group: "\<not> prefix ''group:'' (role_prefix p @ r)"
  by (simp add: role_prefix_def)

lemma set_GlobCharacters: "set (GlobCharacters s) \<subseteq> insert (CHR 0x5C) (set s)"
  by (auto simp: GlobCharacters_def split: if_splits)

lemma GlobCharacters_slash: "CHR ''/'' \<in> set (GlobCharacters s) \<longleftrightarrow> CHR ''/'' \<in> set s"
  by (auto simp: GlobCharacters_def glob_chars_def split: if_splits)

lemma sanitizeCategory_no_slash: "CHR ''/'' \<notin> set (sanitizeCategory c)"
  by (auto simp: sanitizeCategory_def split: if_splits)

subsection \<open>Properties\<close>

text \<open>
  \<open>ValidateSubjectIdentifier\<close> accepts an identifier exactly when it is non-empty, at most 256
  bytes long and free of colons, spaces, tabs and line breaks. The loop over the reserved prefixes
  that follows those checks never rejects anything, since every reserved prefix ends in a colon.
\<close>

theorem subject_identifier_accepts_exactly:
  "ValidateSubjectIdentifier s = None \<longleftrightarrow>
     s \<noteq> [] \<and> length s \<le> 256 \<and>
     set s \<inter> {CHR '':'', CHR '' '', CHR 0x09, CHR 0x0A, CHR 0x0D} = {}"
  by (auto simp: valid_ident_def bad_ident_chars_def)

text \<open>
  Project role names are unambiguous. If two calls of \<open>FormatProjectRole\<close> succeed with the
  same name, they were given the same project and the same role; and a name formatted for project
  \<open>p\<close> starts with the role prefix \<open>proj:q:\<close> of a well-formed project name \<open>q\<close> only if \<open>p = q\<close>.
\<close>

theorem project_role_names_unambiguous:
  assumes "FormatProjectRole p r = Inr x"
  shows "((FormatProjectRole q t = Inr x) = (p = q \<and> r = t)) \<and>
         (valid_ident q \<longrightarrow> has_prefix x (role_prefix q) = (p = q))"
proof (intro conjI impI)
  have p: "CHR '':'' \<notin> set p" and x: "x = role_prefix p @ r"
    using assms valid_ident_no_colon by (auto simp: FormatProjectRole_Inr)
  show "(FormatProjectRole q t = Inr x) = (p = q \<and> r = t)"
  proof
    assume a: "FormatProjectRole q t = Inr x"
    then have q: "CHR '':'' \<notin> set q" and "x = role_prefix q @ t"
      using valid_ident_no_colon by (auto simp: FormatProjectRole_Inr)
    then have "p @ CHR '':'' # r = q @ CHR '':'' # t" using x by (simp add: role_prefix_def)
    then show "p = q \<and> r = t" using sep_unique p q by metis
  next
    assume "p = q \<and> r = t"
    then show "FormatProjectRole q t = Inr x" using assms by simp
  qed
  assume "valid_ident q"
  then show "has_prefix x (role_prefix q) = (p = q)"
    using role_prefix_prefix [OF p valid_ident_no_colon] x by simp
qed

theorem project_role_names_unambiguous_witness:
  "(FormatProjectRole ''alpha'' ''dev'' = Inr ''proj:alpha:dev'') \<and>
   has_prefix ''proj:alpha:dev'' (role_prefix ''alph'') = False"
proof -
  have f: "FormatProjectRole ''alpha'' ''dev'' = Inr ''proj:alpha:dev''"
    by (simp add: FormatProjectRole_Inr valid_ident_def bad_ident_chars_def
        MaxProjectNameLength_def MaxRoleNameLength_def role_prefix_def)
  have v: "valid_ident ''alph''" by (simp add: valid_ident_def bad_ident_chars_def)
  show ?thesis using f v project_role_names_unambiguous [OF f, of "''alph''"] by simp
qed

text \<open>
  The object that \<open>FormatRGDObject\<close> builds has the segments \<open>rgds\<close>, a category segment in
  which every slash was replaced, and then the segments of the escaped name: three segments in all
  exactly when the name has no slash of its own. A category can therefore never add a segment.
\<close>

theorem rgd_object_segments:
  assumes "FormatRGDObject category name = Inr obj"
  shows "length (split_on (CHR ''/'') obj)
           = 3 + (if name = [] then 0 else count_list (GlobCharacters name) (CHR ''/'')) \<and>
         split_on (CHR ''/'') obj ! 0 = ''rgds'' \<and>
         split_on (CHR ''/'') obj ! 1
           = sanitizeCategory (if category = [] then DefaultRGDCategory else category)"
proof (intro conjI)
  define cat where "cat = sanitizeCategory (if category = [] then DefaultRGDCategory else category)"
  have cat: "CHR ''/'' \<notin> set cat" by (simp add: cat_def sanitizeCategory_no_slash)
  obtain rest where obj: "obj = ''rgds'' @ CHR ''/'' # cat @ CHR ''/'' # rest"
    and rest: "rest = (if name = [] \<or> name = ''*'' then ''*'' else GlobCharacters name)"
    using assms by (auto simp: FormatRGDObject_def Let_def cat_def split: if_splits)
  have split: "split_on (CHR ''/'') obj = ''rgds'' # cat # split_on (CHR ''/'') rest"
    using cat by (simp add: obj split_on_append)
  have "count_list rest (CHR ''/'') = (if name = [] then 0 else count_list (GlobCharacters name) (CHR ''/''))"
    by (auto simp: rest GlobCharacters_def glob_chars_def)
  then show "length (split_on (CHR ''/'') obj)
      = 3 + (if name = [] then 0 else count_list (GlobCharacters name) (CHR ''/''))"
    by (simp add: split length_split_on)
  show "split_on (CHR ''/'') obj ! 0 = ''rgds''" by (simp add: split)
  show "split_on (CHR ''/'') obj ! 1 = sanitizeCategory (if category = [] then DefaultRGDCategory else category)"
    by (simp add: split cat_def)
qed

theorem rgd_object_segments_witness:
  "split_on (CHR ''/'') ''rgds/infra-net/my-rgd'' ! 1 = sanitizeCategory ''infra/net''"
proof -
  have f: "FormatRGDObject ''infra/net'' ''my-rgd'' = Inr ''rgds/infra-net/my-rgd''"
    by code_simp
  show ?thesis using rgd_object_segments [OF f] by simp
qed

end
