(* ===== verification/Casbin_Enforcer.thy ===== *)
theory Casbin_Enforcer
  imports Subject_Format
begin

text \<open>
  \<open>rbac/casbin.go\<close> and the model file \<open>rbac/casbin_model.conf\<close>. Casbin itself is a third-party
  package, so its operations are a record of functions, \<open>casbin_lib\<close>, over an engine state the
  server never looks into; the documented behaviour of those operations is the locale
  \<open>casbin_engine\<close>, stated over an abstraction of the engine state to its policy rules and its two
  grouping relations. The decision it must compute is the one the model file writes down.
  \<open>mem_lib\<close> is a concrete engine that satisfies the locale. The \<open>sync.RWMutex\<close> of
  \<open>CasbinEnforcer\<close> makes each method atomic; a method is one function on the state here.
\<close>

subsection \<open>The decision of \<open>casbin_model.conf\<close>\<close>

text \<open>
  Line 45: \<open>m = (g(r.sub, p.sub) || g2(r.sub, p.sub)) && keyMatch(r.obj, p.obj) && keyMatch(r.act, p.act)\<close>
\<close>

fun model_match ::
  "(string \<Rightarrow> string \<Rightarrow> bool) \<Rightarrow> (string \<Rightarrow> string \<Rightarrow> bool) \<Rightarrow> (string \<Rightarrow> string \<Rightarrow> bool) \<Rightarrow>
   string \<Rightarrow> string \<Rightarrow> string \<Rightarrow> string list \<Rightarrow> bool" where
  "model_match km g g2 sub obj act [psub, pobj, pact, peft] \<longleftrightarrow>
     (g sub psub \<or> g2 sub psub) \<and> km obj pobj \<and> km act pact"
| "model_match km g g2 sub obj act p \<longleftrightarrow> False"

text \<open>Line 26: \<open>e = some(where (p.eft == allow)) && !some(where (p.eft == deny))\<close>\<close>

definition model_effect :: "(string list \<Rightarrow> bool) \<Rightarrow> string list set \<Rightarrow> bool" where
  "model_effect matches P \<longleftrightarrow>
     (\<exists>p \<in> P. matches p \<and> p ! 3 = EffectAllow) \<and> \<not> (\<exists>p \<in> P. matches p \<and> p ! 3 = EffectDeny)"

lemma model_match_rule:
  "model_match km g g2 sub obj act p \<longleftrightarrow>
     (\<exists>ps po pa pe. p = [ps, po, pa, pe] \<and> (g sub ps \<or> g2 sub ps) \<and> km obj po \<and> km act pa)"
  by (induction km g g2 sub obj act p rule: model_match.induct) auto

lemma rules_with_effect:
  "(\<exists>p \<in> P. model_match km g g2 sub obj act p \<and> p ! 3 = e) \<longleftrightarrow>
     (\<exists>ps po pa. [ps, po, pa, e] \<in> P \<and> (g sub ps \<or> g2 sub ps) \<and> km obj po \<and> km act pa)"
proof
  assume "\<exists>p \<in> P. model_match km g g2 sub obj act p \<and> p ! 3 = e"
  then obtain p where p: "p \<in> P" "model_match km g g2 sub obj act p" "p ! 3 = e" by blast
  then obtain ps po pa pe where "p = [ps, po, pa, pe]" "g sub ps \<or> g2 sub ps" "km obj po" "km act pa"
    unfolding model_match_rule by blast
  then show "\<exists>ps po pa. [ps, po, pa, e] \<in> P \<and> (g sub ps \<or> g2 sub ps) \<and> km obj po \<and> km act pa"
    using p(1,3) by auto
next
  assume "\<exists>ps po pa. [ps, po, pa, e] \<in> P \<and> (g sub ps \<or> g2 sub ps) \<and> km obj po \<and> km act pa"
  then obtain ps po pa where "[ps, po, pa, e] \<in> P" "g sub ps \<or> g2 sub ps" "km obj po" "km act pa"
    by blast
  then show "\<exists>p \<in> P. model_match km g g2 sub obj act p \<and> p ! 3 = e"
    by (intro bexI [of _ "[ps, po, pa, e]"]) auto
qed

subsection \<open>The engine's interface\<close>

record 's casbin_lib =
  lib_Enforce :: "'s \<Rightarrow> string \<Rightarrow> string \<Rightarrow> string \<Rightarrow> gerror + bool"
  lib_AddPolicy :: "'s \<Rightarrow> string list \<Rightarrow> (gerror + bool) \<times> 's"
  lib_RemovePolicy :: "'s \<Rightarrow> string list \<Rightarrow> (gerror + bool) \<times> 's"
  lib_AddGroupingPolicy :: "'s \<Rightarrow> string \<Rightarrow> string \<Rightarrow> (gerror + bool) \<times> 's"
  lib_RemoveGroupingPolicy :: "'s \<Rightarrow> string \<Rightarrow> string \<Rightarrow> (gerror + bool) \<times> 's"
  lib_AddNamedGroupingPolicy :: "'s \<Rightarrow> string \<Rightarrow> string \<Rightarrow> string \<Rightarrow> (gerror + bool) \<times> 's"
  lib_RemoveNamedGroupingPolicy :: "'s \<Rightarrow> string \<Rightarrow> string \<Rightarrow> string \<Rightarrow> (gerror + bool) \<times> 's"
  lib_GetRolesForUser :: "'s \<Rightarrow> string \<Rightarrow> gerror + string list"
  lib_GetUsersForRole :: "'s \<Rightarrow> string \<Rightarrow> gerror + string list"
  lib_GetFilteredPolicy :: "'s \<Rightarrow> nat \<Rightarrow> string \<Rightarrow> gerror + string list list"
  lib_GetPolicy :: "'s \<Rightarrow> gerror + string list list"
  lib_GetAllRoles :: "'s \<Rightarrow> gerror + string list"
  lib_HasPolicy :: "'s \<Rightarrow> string list \<Rightarrow> gerror + bool"
  lib_HasGroupingPolicy :: "'s \<Rightarrow> string \<Rightarrow> string \<Rightarrow> gerror + bool"
  lib_ClearPolicy :: "'s \<Rightarrow> 's"
  lib_GetImplicitRolesForUser :: "'s \<Rightarrow> string \<Rightarrow> gerror + string list"

text \<open>
  The documented behaviour. \<open>pol\<close>, \<open>grp\<close> and \<open>grp2\<close> read the rules of the sections \<open>p\<close>, \<open>g\<close> and
  \<open>g2\<close> off the engine state; \<open>hl\<close> and \<open>hl2\<close> are the role managers' link tests, of which only
  reflexivity, direct links, soundness and locality (the links of \<open>v\<close> depend on the rules reachable
  from \<open>v\<close>) are used, since Casbin bounds the depth of a chain, and \<open>km\<close>
  is \<open>keyMatch\<close>: a pattern without a star matches itself, one with a star everything that starts
  with the text before its first star.
\<close>

locale casbin_engine =
  fixes lib :: "'s casbin_lib"
    and pol :: "'s \<Rightarrow> string list set"
    and grp :: "'s \<Rightarrow> (string \<times> string) set"
    and grp2 :: "'s \<Rightarrow> (string \<times> string) set"
    and hl :: "'s \<Rightarrow> string \<Rightarrow> string \<Rightarrow> bool"
    and hl2 :: "'s \<Rightarrow> string \<Rightarrow> string \<Rightarrow> bool"
    and km :: "string \<Rightarrow> string \<Rightarrow> bool"
  assumes Enforce: "lib_Enforce lib s sub obj act
        = Inr (model_effect (model_match km (hl s) (hl2 s) sub obj act) (pol s))"
    and AddPolicy: "\<exists>s'. lib_AddPolicy lib s p = (Inr (p \<notin> pol s), s') \<and>
        pol s' = insert p (pol s) \<and> grp s' = grp s \<and> grp2 s' = grp2 s"
    and RemovePolicy: "\<exists>s'. lib_RemovePolicy lib s p = (Inr (p \<in> pol s), s') \<and>
        pol s' = pol s - {p} \<and> grp s' = grp s \<and> grp2 s' = grp2 s"
    and AddGroupingPolicy: "\<exists>s'. lib_AddGroupingPolicy lib s u r = (Inr ((u, r) \<notin> grp s), s') \<and>
        pol s' = pol s \<and> grp s' = insert (u, r) (grp s) \<and> grp2 s' = grp2 s"
    and RemoveGroupingPolicy: "\<exists>s'. lib_RemoveGroupingPolicy lib s u r = (Inr ((u, r) \<in> grp s), s') \<and>
        pol s' = pol s \<and> grp s' = grp s - {(u, r)} \<and> grp2 s' = grp2 s"
    and GetRolesForUser: "\<exists>rs. lib_GetRolesForUser lib s u = Inr rs \<and> set rs = {r. (u, r) \<in> grp s}"
    and GetUsersForRole: "\<exists>us. lib_GetUsersForRole lib s r = Inr us \<and> set us = {u. (u, r) \<in> grp s}"
    and GetPolicy: "\<exists>ps. lib_GetPolicy lib s = Inr ps \<and> set ps = pol s"
    and GetFilteredPolicy: "\<exists>ps. lib_GetFilteredPolicy lib s 0 v = Inr ps \<and>
        set ps = {p \<in> pol s. p \<noteq> [] \<and> hd p = v}"
    and GetAllRoles: "\<exists>rs. lib_GetAllRoles lib s = Inr rs \<and> snd ` grp s \<subseteq> set rs"
    and HasPolicy: "lib_HasPolicy lib s p = Inr (p \<in> pol s)"
    and HasGroupingPolicy: "lib_HasGroupingPolicy lib s u r = Inr ((u, r) \<in> grp s)"
    and ClearPolicy: "pol (lib_ClearPolicy lib s) = {}" "grp (lib_ClearPolicy lib s) = {}"
        "grp2 (lib_ClearPolicy lib s) = {}"
    and GetImplicitRolesForUser: "\<exists>rs. lib_GetImplicitRolesForUser lib s u = Inr rs \<and>
        {r. (u, r) \<in> grp s} \<subseteq> set rs \<and> set rs \<subseteq> {r. (u, r) \<in> (grp s \<union> grp2 s)\<^sup>+}"
    and hl_refl: "hl s a a"
    and hl_direct: "(a, b) \<in> grp s \<Longrightarrow> hl s a b"
    and hl_sound: "hl s a b \<Longrightarrow> (a, b) \<in> (grp s)\<^sup>*"
    and hl_cong: "grp s = grp s' \<Longrightarrow> hl s = hl s'"
    and hl_local: "(v, u) \<notin> (grp s)\<^sup>* \<Longrightarrow> (\<And>x y. x \<noteq> u \<Longrightarrow> (x, y) \<in> grp s \<longleftrightarrow> (x, y) \<in> grp s') \<Longrightarrow>
        hl s v b = hl s' v b"
    and hl2_sound: "hl2 s a b \<Longrightarrow> (a, b) \<in> (grp2 s)\<^sup>*"
    and hl2_cong: "grp2 s = grp2 s' \<Longrightarrow> hl2 s = hl2 s'"
    and km_exact: "CHR ''*'' \<notin> set pat \<Longrightarrow> km k pat = (k = pat)"
    and km_star: "CHR ''*'' \<notin> set pat \<Longrightarrow> km k (pat @ ''*'' @ rest) = prefix pat k"

subsection \<open>A concrete engine\<close>

record mem_store =
  mem_p :: "string list list"
  mem_g :: "(string \<times> string) list"
  mem_g2 :: "(string \<times> string) list"

fun mem_reach :: "nat \<Rightarrow> (string \<times> string) list \<Rightarrow> string \<Rightarrow> string \<Rightarrow> bool" where
  "mem_reach 0 E a b \<longleftrightarrow> a = b"
| "mem_reach (Suc n) E a b \<longleftrightarrow> a = b \<or> list_ex (\<lambda>(x, y). x = a \<and> mem_reach n E y b) E"

fun mem_roles :: "(string \<times> string) list \<Rightarrow> string \<Rightarrow> string list" where
  "mem_roles E u = map snd (filter (\<lambda>(x, y). x = u) E)"

fun mem_implicit :: "nat \<Rightarrow> (string \<times> string) list \<Rightarrow> string \<Rightarrow> string list" where
  "mem_implicit 0 E u = []"
| "mem_implicit (Suc n) E u = concat (map (\<lambda>r. r # mem_implicit n E r) (mem_roles E u))"

definition mem_keyMatch :: "string \<Rightarrow> string \<Rightarrow> bool" where
  "mem_keyMatch k p =
     (case str_index p ''*'' of None \<Rightarrow> k = p | Some i \<Rightarrow> prefix (take i p) k)"

definition mem_lib :: "mem_store casbin_lib" where
  "mem_lib =
     \<lparr>lib_Enforce = (\<lambda>s sub obj act. Inr (model_effect
        (model_match mem_keyMatch (mem_reach 10 (mem_g s)) (mem_reach 10 (mem_g2 s)) sub obj act)
        (set (mem_p s)))),
      lib_AddPolicy = (\<lambda>s p. (Inr (p \<notin> set (mem_p s)), s\<lparr>mem_p := List.insert p (mem_p s)\<rparr>)),
      lib_RemovePolicy = (\<lambda>s p. (Inr (p \<in> set (mem_p s)), s\<lparr>mem_p := removeAll p (mem_p s)\<rparr>)),
      lib_AddGroupingPolicy = (\<lambda>s u r.
        (Inr ((u, r) \<notin> set (mem_g s)), s\<lparr>mem_g := List.insert (u, r) (mem_g s)\<rparr>)),
      lib_RemoveGroupingPolicy = (\<lambda>s u r.
        (Inr ((u, r) \<in> set (mem_g s)), s\<lparr>mem_g := removeAll (u, r) (mem_g s)\<rparr>)),
      lib_AddNamedGroupingPolicy = (\<lambda>s t u r.
        (Inr ((u, r) \<notin> set (mem_g2 s)), s\<lparr>mem_g2 := List.insert (u, r) (mem_g2 s)\<rparr>)),
      lib_RemoveNamedGroupingPolicy = (\<lambda>s t u r.
        (Inr ((u, r) \<in> set (mem_g2 s)), s\<lparr>mem_g2 := removeAll (u, r) (mem_g2 s)\<rparr>)),
      lib_GetRolesForUser = (\<lambda>s u. Inr (mem_roles (mem_g s) u)),
      lib_GetUsersForRole = (\<lambda>s r. Inr (map fst (filter (\<lambda>(x, y). y = r) (mem_g s)))),
      lib_GetFilteredPolicy = (\<lambda>s i v.
        Inr (filter (\<lambda>p. i < length p \<and> p ! i = v) (mem_p s))),
      lib_GetPolicy = (\<lambda>s. Inr (mem_p s)),
      lib_GetAllRoles = (\<lambda>s. Inr (remdups (map snd (mem_g s @ mem_g2 s)))),
      lib_HasPolicy = (\<lambda>s p. Inr (p \<in> set (mem_p s))),
      lib_HasGroupingPolicy = (\<lambda>s u r. Inr ((u, r) \<in> set (mem_g s))),
      lib_ClearPolicy = (\<lambda>s. \<lparr>mem_p = [], mem_g = [], mem_g2 = []\<rparr>),
      lib_GetImplicitRolesForUser = (\<lambda>s u. Inr (remdups (mem_implicit 10 (mem_g s) u)))\<rparr>"

definition mem_init :: mem_store where
  "mem_init = \<lparr>mem_p = [], mem_g = [], mem_g2 = []\<rparr>"

abbreviation mem_pol :: "mem_store \<Rightarrow> string list set" where "mem_pol s \<equiv> set (mem_p s)"
abbreviation mem_grp :: "mem_store \<Rightarrow> (string \<times> string) set" where "mem_grp s \<equiv> set (mem_g s)"
abbreviation mem_grp2 :: "mem_store \<Rightarrow> (string \<times> string) set" where "mem_grp2 s \<equiv> set (mem_g2 s)"
abbreviation mem_hl where "mem_hl s \<equiv> mem_reach 10 (mem_g s)"
abbreviation mem_hl2 where "mem_hl2 s \<equiv> mem_reach 10 (mem_g2 s)"

lemma mem_reach_refl: "mem_reach n E a a"
  by (cases n) auto

lemma mem_reach_direct: "(a, b) \<in> set E \<Longrightarrow> mem_reach (Suc n) E a b"
  by (force simp: list_ex_iff mem_reach_refl)

lemma set_mem_roles: "set (mem_roles E u) = {r. (u, r) \<in> set E}"
  by force

lemma set_mem_users: "set (map fst (filter (\<lambda>(x, y). y = r) E)) = {u. (u, r) \<in> set E}"
  by force

lemma mem_reach_sound: "mem_reach n E a b \<Longrightarrow> (a, b) \<in> (set E)\<^sup>*"
  by (induction n arbitrary: a) (auto simp: list_ex_iff intro: converse_rtrancl_into_rtrancl)

lemma mem_reach_cong: "set E = set F \<Longrightarrow> mem_reach n E = mem_reach n F"
proof (induction n)
  case 0
  then show ?case by (auto simp: fun_eq_iff)
next
  case (Suc n)
  then show ?case by (auto simp: fun_eq_iff list_ex_iff)
qed

lemma mem_reach_local:
  "(v, u) \<notin> (set E)\<^sup>* \<Longrightarrow> (\<And>x y. x \<noteq> u \<Longrightarrow> (x, y) \<in> set E \<longleftrightarrow> (x, y) \<in> set F) \<Longrightarrow>
   mem_reach n E v b = mem_reach n F v b"
proof (induction n arbitrary: v)
  case 0
  then show ?case by simp
next
  case (Suc n)
  have vu: "v \<noteq> u" using Suc.prems(1) by auto
  have step: "mem_reach n E y b = mem_reach n F y b" if "(v, y) \<in> set E" for y
    using Suc.IH [of y] Suc.prems that converse_rtrancl_into_rtrancl by metis
  show ?case using step Suc.prems(2) [OF vu] by (auto simp: list_ex_iff)
qed

lemma mem_implicit_sound: "r \<in> set (mem_implicit n E u) \<Longrightarrow> (u, r) \<in> (set E)\<^sup>+"
proof (induction n arbitrary: u)
  case 0
  then show ?case by simp
next
  case (Suc n)
  then show ?case by (force intro: trancl_into_trancl2)
qed

lemma mem_implicit_direct: "(u, r) \<in> set E \<Longrightarrow> r \<in> set (mem_implicit (Suc n) E u)"
  by force

lemma mem_keyMatch_exact: "CHR ''*'' \<notin> set p \<Longrightarrow> mem_keyMatch k p = (k = p)"
  by (cases "str_index p ''*''")
     (use contains_single [of p "CHR ''*''"] in \<open>auto simp: mem_keyMatch_def contains_def\<close>)

lemma str_index_star: "CHR ''*'' \<notin> set p \<Longrightarrow> str_index (p @ CHR ''*'' # rest) ''*'' = Some (length p)"
  by (induction p) auto

lemma mem_keyMatch_star: "CHR ''*'' \<notin> set p \<Longrightarrow> mem_keyMatch k (p @ CHR ''*'' # rest) = prefix p k"
  by (simp add: mem_keyMatch_def str_index_star)

interpretation mem: casbin_engine mem_lib mem_pol mem_grp mem_grp2 mem_hl mem_hl2 mem_keyMatch
proof (unfold_locales, goal_cases)
  case (6 s u)
  show ?case by (simp add: mem_lib_def set_mem_roles del: mem_roles.simps)
next
  case (7 s r)
  show ?case using set_mem_users [of r "mem_g s"] by (simp add: mem_lib_def)
next
  case (16 s u)
  have "{r. (u, r) \<in> mem_grp s} \<subseteq> set (mem_implicit 10 (mem_g s) u)"
    using mem_implicit_direct [of u _ "mem_g s" 9] by (auto simp: eval_nat_numeral)
  moreover have "set (mem_implicit 10 (mem_g s) u) \<subseteq> {r. (u, r) \<in> (mem_grp s \<union> mem_grp2 s)\<^sup>+}"
    using mem_implicit_sound trancl_mono [of _ "mem_grp s"] by fastforce
  ultimately show ?case by (simp add: mem_lib_def)
next
  case (18 a b s)
  then show ?case using mem_reach_direct [of a b "mem_g s" 9] by (simp add: eval_nat_numeral)
next
  case (21 v u s s' b)
  then show ?case by (intro mem_reach_local [of v u "mem_g s" "mem_g s'"])
qed (auto simp: mem_lib_def mem_reach_refl mem_keyMatch_exact mem_keyMatch_star hd_conv_nth
       dest: mem_reach_sound intro: mem_reach_cong)

subsection \<open>\<open>CasbinEnforcer\<close>\<close>

definition ce_Enforce :: "'s casbin_lib \<Rightarrow> 's \<Rightarrow> string \<Rightarrow> string \<Rightarrow> string \<Rightarrow> gerror + bool" where
  "ce_Enforce lib s sub obj act = lib_Enforce lib s sub obj act"

definition ce_AddPolicy ::
  "'s casbin_lib \<Rightarrow> 's \<Rightarrow> string \<Rightarrow> string \<Rightarrow> string \<Rightarrow> string \<Rightarrow> (gerror + bool) \<times> 's" where
  "ce_AddPolicy lib s sub obj act eft = lib_AddPolicy lib s [sub, obj, act, eft]"

definition ce_RemovePolicy ::
  "'s casbin_lib \<Rightarrow> 's \<Rightarrow> string \<Rightarrow> string \<Rightarrow> string \<Rightarrow> string \<Rightarrow> (gerror + bool) \<times> 's" where
  "ce_RemovePolicy lib s sub obj act eft = lib_RemovePolicy lib s [sub, obj, act, eft]"

definition ce_AddUserRole :: "'s casbin_lib \<Rightarrow> 's \<Rightarrow> string \<Rightarrow> string \<Rightarrow> (gerror + bool) \<times> 's" where
  "ce_AddUserRole lib s user role = lib_AddGroupingPolicy lib s user role"

definition ce_RemoveUserRole :: "'s casbin_lib \<Rightarrow> 's \<Rightarrow> string \<Rightarrow> string \<Rightarrow> (gerror + bool) \<times> 's" where
  "ce_RemoveUserRole lib s user role = lib_RemoveGroupingPolicy lib s user role"

definition ce_GetRolesForUser :: "'s casbin_lib \<Rightarrow> 's \<Rightarrow> string \<Rightarrow> gerror + string list" where
  "ce_GetRolesForUser lib s user = lib_GetRolesForUser lib s user"

definition ce_GetUsersForRole :: "'s casbin_lib \<Rightarrow> 's \<Rightarrow> string \<Rightarrow> gerror + string list" where
  "ce_GetUsersForRole lib s role = lib_GetUsersForRole lib s role"

definition ce_GetPoliciesForRole :: "'s casbin_lib \<Rightarrow> 's \<Rightarrow> string \<Rightarrow> gerror + string list list" where
  "ce_GetPoliciesForRole lib s role = lib_GetFilteredPolicy lib s 0 role"

definition ce_GetAllPolicies :: "'s casbin_lib \<Rightarrow> 's \<Rightarrow> gerror + string list list" where
  "ce_GetAllPolicies lib s = lib_GetPolicy lib s"

definition ce_GetAllRoles :: "'s casbin_lib \<Rightarrow> 's \<Rightarrow> gerror + string list" where
  "ce_GetAllRoles lib s = lib_GetAllRoles lib s"

definition ce_HasPolicy ::
  "'s casbin_lib \<Rightarrow> 's \<Rightarrow> string \<Rightarrow> string \<Rightarrow> string \<Rightarrow> string \<Rightarrow> gerror + bool" where
  "ce_HasPolicy lib s sub obj act eft = lib_HasPolicy lib s [sub, obj, act, eft]"

definition ce_HasUserRole :: "'s casbin_lib \<Rightarrow> 's \<Rightarrow> string \<Rightarrow> string \<Rightarrow> gerror + bool" where
  "ce_HasUserRole lib s user role = lib_HasGroupingPolicy lib s user role"

definition ce_AddRoleInheritance :: "'s casbin_lib \<Rightarrow> 's \<Rightarrow> string \<Rightarrow> string \<Rightarrow> (gerror + bool) \<times> 's" where
  "ce_AddRoleInheritance lib s childRole parentRole = lib_AddNamedGroupingPolicy lib s ''g2'' childRole parentRole"

definition ce_RemoveRoleInheritance :: "'s casbin_lib \<Rightarrow> 's \<Rightarrow> string \<Rightarrow> string \<Rightarrow> (gerror + bool) \<times> 's" where
  "ce_RemoveRoleInheritance lib s childRole parentRole = lib_RemoveNamedGroupingPolicy lib s ''g2'' childRole parentRole"

definition ce_GetImplicitRolesForUser :: "'s casbin_lib \<Rightarrow> 's \<Rightarrow> string \<Rightarrow> gerror + string list" where
  "ce_GetImplicitRolesForUser lib s user = lib_GetImplicitRolesForUser lib s user"

subsection \<open>Built-in policies\<close>

definition serveradmin_policies :: "string list list" where
  "serveradmin_policies =
     [[''role:serveradmin'', ''*'', ''*'', ''allow''],
      [''role:serveradmin'', ''projects/*'', ''*'', ''allow''],
      [''role:serveradmin'', ''rgds/*'', ''*'', ''allow''],
      [''role:serveradmin'', ''instances/*'', ''*'', ''allow''],
      [''role:serveradmin'', ''users/*'', ''*'', ''allow''],
      [''role:serveradmin'', ''applications/*'', ''*'', ''allow''],
      [''role:serveradmin'', ''repositories/*'', ''*'', ''allow''],
      [''role:serveradmin'', ''namespaces/*'', ''*'', ''allow''],
      [''role:serveradmin'', ''settings/*'', ''*'', ''allow''],
      [''role:serveradmin'', ''compliance/*'', ''*'', ''allow''],
      [''role:serveradmin'', ''secrets/*'', ''*'', ''allow'']]"

definition getBuiltInOperatorPolicies :: "string list" where
  "getBuiltInOperatorPolicies =
     [''rgds/infrastructure/*, get, allow'', ''rgds/infrastructure/*, list, allow'',
      ''rgds/networking/*, get, allow'', ''rgds/networking/*, list, allow'',
      ''rgds/storage/*, get, allow'', ''rgds/storage/*, list, allow'']"

definition getBuiltInDeveloperPolicies :: "string list" where
  "getBuiltInDeveloperPolicies =
     [''rgds/applications/*, get, allow'', ''rgds/applications/*, list, allow'',
      ''rgds/observability/*, get, allow'', ''rgds/observability/*, list, allow'']"

fun add_policies :: "'s casbin_lib \<Rightarrow> string list list \<Rightarrow> 's \<Rightarrow> gerror option \<times> 's" where
  "add_policies lib [] s = (None, s)"
| "add_policies lib (p # ps) s =
     (case lib_AddPolicy lib s p of
        (Inl e, s') \<Rightarrow> (Some (Wrap ''failed to add policy'' e), s')
      | (Inr _, s') \<Rightarrow> add_policies lib ps s')"

text \<open>One of the two loops over policy strings: split at the first two commas, trim, add for the role.\<close>

fun add_role_strings :: "'s casbin_lib \<Rightarrow> string \<Rightarrow> string list \<Rightarrow> 's \<Rightarrow> gerror option \<times> 's" where
  "add_role_strings lib role [] s = (None, s)"
| "add_role_strings lib role (policyStr # rest) s =
     (let parts = split_n 3 (CHR '','') policyStr
      in if length parts \<noteq> 3 then (Some (Err ''invalid policy format''), s)
         else (case lib_AddPolicy lib s
                      [role, trim_space (parts ! 0), trim_space (parts ! 1), trim_space (parts ! 2)] of
                 (Inl e, s') \<Rightarrow> (Some (Wrap ''failed to add policy'' e), s')
               | (Inr _, s') \<Rightarrow> add_role_strings lib role rest s'))"

definition loadBuiltinPoliciesLocked :: "'s casbin_lib \<Rightarrow> 's \<Rightarrow> gerror option \<times> 's" where
  "loadBuiltinPoliciesLocked lib s =
     (case add_policies lib serveradmin_policies s of
        (Some e, s') \<Rightarrow> (Some e, s')
      | (None, s1) \<Rightarrow>
          (case add_role_strings lib ''role:operator'' getBuiltInOperatorPolicies s1 of
             (Some e, s') \<Rightarrow> (Some e, s')
           | (None, s2) \<Rightarrow> add_role_strings lib ''role:developer'' getBuiltInDeveloperPolicies s2))"

text \<open>\<open>NewCasbinEnforcerFromString\<close>, given what \<open>casbin.NewEnforcer\<close> returned for the model.\<close>

definition NewCasbinEnforcerFromString :: "'s casbin_lib \<Rightarrow> gerror + 's \<Rightarrow> gerror + 's" where
  "NewCasbinEnforcerFromString lib made =
     (case made of
        Inl e \<Rightarrow> Inl (Wrap ''failed to create casbin enforcer'' e)
      | Inr s \<Rightarrow>
          (case loadBuiltinPoliciesLocked lib s of
             (Some e, _) \<Rightarrow> Inl (Wrap ''failed to load built-in policies'' e)
           | (None, s') \<Rightarrow> Inr s'))"

definition ClearPolicies :: "'s casbin_lib \<Rightarrow> 's \<Rightarrow> gerror option \<times> 's" where
  "ClearPolicies lib s = loadBuiltinPoliciesLocked lib (lib_ClearPolicy lib s)"

subsection \<open>What the built-in policies are\<close>

definition category_rules :: "string \<Rightarrow> string list \<Rightarrow> string list list" where
  "category_rules role cats =
     concat (map (\<lambda>c. [[role, ''rgds/'' @ c @ ''/*'', ''get'', ''allow''],
                       [role, ''rgds/'' @ c @ ''/*'', ''list'', ''allow'']]) cats)"

definition operator_rules :: "string list list" where
  "operator_rules = category_rules ''role:operator'' [''infrastructure'', ''networking'', ''storage'']"

definition developer_rules :: "string list list" where
  "developer_rules = category_rules ''role:developer'' [''applications'', ''observability'']"

definition builtin_rules :: "string list set" where
  "builtin_rules = set serveradmin_policies \<union> set operator_rules \<union> set developer_rules"

definition string_rule :: "string \<Rightarrow> string \<Rightarrow> string list option" where
  "string_rule role policyStr =
     (let parts = split_n 3 (CHR '','') policyStr
      in if length parts \<noteq> 3 then None
         else Some [role, trim_space (parts ! 0), trim_space (parts ! 1), trim_space (parts ! 2)])"

lemma operator_rules_parse:
  "map (string_rule ''role:operator'') getBuiltInOperatorPolicies = map Some operator_rules"
  by code_simp

lemma developer_rules_parse:
  "map (string_rule ''role:developer'') getBuiltInDeveloperPolicies = map Some developer_rules"
  by code_simp

subsection \<open>Effects of the loaders on any engine\<close>

context casbin_engine begin

lemma add_policies_effect:
  "\<exists>s'. add_policies lib ps s = (None, s') \<and> pol s' = pol s \<union> set ps \<and>
        grp s' = grp s \<and> grp2 s' = grp2 s"
proof (induction ps arbitrary: s)
  case Nil
  then show ?case by simp
next
  case (Cons p ps)
  obtain s1 where s1: "lib_AddPolicy lib s p = (Inr (p \<notin> pol s), s1)" "pol s1 = insert p (pol s)"
      "grp s1 = grp s" "grp2 s1 = grp2 s"
    using AddPolicy by blast
  then show ?case using Cons.IH [of s1] by auto
qed

lemma add_role_strings_effect:
  "map (string_rule role) strs = map Some rules \<Longrightarrow>
   \<exists>s'. add_role_strings lib role strs s = (None, s') \<and> pol s' = pol s \<union> set rules \<and>
        grp s' = grp s \<and> grp2 s' = grp2 s"
proof (induction strs arbitrary: s rules)
  case Nil
  then show ?case by simp
next
  case (Cons str strs)
  obtain p rest where rules: "rules = p # rest" and p: "string_rule role str = Some p"
      and rest: "map (string_rule role) strs = map Some rest"
    using Cons.prems by (cases rules) auto
  obtain s1 where s1: "lib_AddPolicy lib s p = (Inr (p \<notin> pol s), s1)" "pol s1 = insert p (pol s)"
      "grp s1 = grp s" "grp2 s1 = grp2 s"
    using AddPolicy by blast
  have "add_role_strings lib role (str # strs) s = add_role_strings lib role strs s1"
    using p s1(1) by (auto simp: string_rule_def Let_def split: if_splits)
  then show ?case using Cons.IH [OF rest, of s1] s1 rules by auto
qed

lemma loadBuiltin_effect:
  "\<exists>s'. loadBuiltinPoliciesLocked lib s = (None, s') \<and> pol s' = pol s \<union> builtin_rules \<and>
        grp s' = grp s \<and> grp2 s' = grp2 s"
proof -
  obtain s1 where s1: "add_policies lib serveradmin_policies s = (None, s1)"
      "pol s1 = pol s \<union> set serveradmin_policies" "grp s1 = grp s" "grp2 s1 = grp2 s"
    using add_policies_effect by blast
  obtain s2 where s2: "add_role_strings lib ''role:operator'' getBuiltInOperatorPolicies s1 = (None, s2)"
      "pol s2 = pol s1 \<union> set operator_rules" "grp s2 = grp s1" "grp2 s2 = grp2 s1"
    using add_role_strings_effect [OF operator_rules_parse] by blast
  obtain s3 where s3: "add_role_strings lib ''role:developer'' getBuiltInDeveloperPolicies s2 = (None, s3)"
      "pol s3 = pol s2 \<union> set developer_rules" "grp s3 = grp s2" "grp2 s3 = grp2 s2"
    using add_role_strings_effect [OF developer_rules_parse] by blast
  show ?thesis
    using s1 s2 s3 by (auto simp: loadBuiltinPoliciesLocked_def builtin_rules_def)
qed

lemma ClearPolicies_effect:
  "\<exists>s'. ClearPolicies lib s = (None, s') \<and> pol s' = builtin_rules \<and> grp s' = {} \<and> grp2 s' = {}"
  using loadBuiltin_effect [of "lib_ClearPolicy lib s"] ClearPolicy [of s]
  by (auto simp: ClearPolicies_def)

text \<open>Without grouping rules a subject has itself as its only role.\<close>

lemma no_links: "grp s = {} \<Longrightarrow> grp2 s = {} \<Longrightarrow> (hl s a b \<or> hl2 s a b) \<longleftrightarrow> a = b"
  using hl_refl [of s a] hl_sound [of s a b] hl2_sound [of s a b] by auto

lemma decision_cong:
  assumes "pol s = pol s'" "grp s = grp s'" "grp2 s = grp2 s'"
  shows "lib_Enforce lib s sub obj act = lib_Enforce lib s' sub obj act"
  unfolding Enforce assms(1) hl_cong [OF assms(2)] hl2_cong [OF assms(3)] by (rule refl)

lemma km_any: "km k ''*''"
  using km_star [of "[]" k "[]"] by simp

text \<open>A rule set decides for a subject by the rules whose subject it is linked to.\<close>

lemma Enforce_iff:
  "lib_Enforce lib s sub obj act = Inr True \<longleftrightarrow>
     (\<exists>ps po pa. [ps, po, pa, EffectAllow] \<in> pol s \<and> (hl s sub ps \<or> hl2 s sub ps) \<and> km obj po \<and> km act pa) \<and>
     \<not> (\<exists>ps po pa. [ps, po, pa, EffectDeny] \<in> pol s \<and> (hl s sub ps \<or> hl2 s sub ps) \<and> km obj po \<and> km act pa)"
proof -
  show ?thesis unfolding Enforce model_effect_def rules_with_effect by simp
qed

end

lemma builtin_rules_allow: "p \<in> builtin_rules \<Longrightarrow> \<exists>a b c. p = [a, b, c, EffectAllow]"
  by (auto simp: builtin_rules_def serveradmin_policies_def operator_rules_def developer_rules_def
      category_rules_def)

lemma builtin_rules_operator:
  "[''role:operator'', po, pa, e] \<in> builtin_rules \<longleftrightarrow>
     e = EffectAllow \<and> pa \<in> {''get'', ''list''} \<and>
     po \<in> {''rgds/infrastructure/*'', ''rgds/networking/*'', ''rgds/storage/*''}"
  by (auto simp: builtin_rules_def serveradmin_policies_def operator_rules_def developer_rules_def
      category_rules_def)

subsection \<open>Properties\<close>

text \<open>
  A new enforcer holds exactly the built-in policies. \<open>NewCasbinEnforcerFromString\<close> on an empty
  engine succeeds; the built-in rules are its only policies and nobody has a role. The server
  administrator role is then allowed every action on every object, and the operator role exactly
  \<open>get\<close> and \<open>list\<close> below its three RGD categories. \<open>ClearPolicies\<close> brings any engine back to
  exactly the built-in rules.
\<close>

theorem new_enforcer_has_builtin_only:
  assumes "casbin_engine lib pol grp grp2 hl hl2 km" "pol s0 = {}" "grp s0 = {}" "grp2 s0 = {}"
  shows "(\<exists>s'. NewCasbinEnforcerFromString lib (Inr s0) = Inr s' \<and> pol s' = builtin_rules \<and> grp s' = {} \<and>
          ce_Enforce lib s' CasbinRoleServerAdmin obj act = Inr True \<and>
          ((ce_Enforce lib s' ''role:operator'' obj act = Inr True) =
             ((act = ''get'' \<or> act = ''list'') \<and>
              (has_prefix obj ''rgds/infrastructure/'' \<or> has_prefix obj ''rgds/networking/'' \<or>
               has_prefix obj ''rgds/storage/'')))) \<and>
         (\<exists>t'. ClearPolicies lib t = (None, t') \<and> pol t' = builtin_rules)"
proof -
  note E = assms(1)
  obtain s' where load: "loadBuiltinPoliciesLocked lib s0 = (None, s')"
      and s': "pol s' = builtin_rules" "grp s' = {}" "grp2 s' = {}"
    using casbin_engine.loadBuiltin_effect [OF E, of s0] assms(2-4) by auto
  have new: "NewCasbinEnforcerFromString lib (Inr s0) = Inr s'"
    by (simp add: NewCasbinEnforcerFromString_def load)
  note links = casbin_engine.no_links [OF E s'(2,3)]
  have nodeny: "[a, b, c, EffectDeny] \<notin> builtin_rules" for a b c
    using builtin_rules_allow by fastforce
  have admin: "[CasbinRoleServerAdmin, ''*'', ''*'', EffectAllow] \<in> builtin_rules"
    by (simp add: builtin_rules_def serveradmin_policies_def)
  have km: "km obj ''rgds/infrastructure/*'' = prefix ''rgds/infrastructure/'' obj"
       "km obj ''rgds/networking/*'' = prefix ''rgds/networking/'' obj"
       "km obj ''rgds/storage/*'' = prefix ''rgds/storage/'' obj"
       "km act ''get'' = (act = ''get'')" "km act ''list'' = (act = ''list'')"
    using casbin_engine.km_star [OF E, of "''rgds/infrastructure/''" obj "[]"]
      casbin_engine.km_star [OF E, of "''rgds/networking/''" obj "[]"]
      casbin_engine.km_star [OF E, of "''rgds/storage/''" obj "[]"]
      casbin_engine.km_exact [OF E, of "''get''" act] casbin_engine.km_exact [OF E, of "''list''" act]
    by simp_all
  have "ce_Enforce lib s' CasbinRoleServerAdmin obj act = Inr True"
    using admin nodeny casbin_engine.km_any [OF E]
    unfolding ce_Enforce_def casbin_engine.Enforce_iff [OF E] links s'(1) by blast
  moreover have "(ce_Enforce lib s' ''role:operator'' obj act = Inr True) =
      (\<exists>po pa. [''role:operator'', po, pa, EffectAllow] \<in> builtin_rules \<and> km obj po \<and> km act pa)"
    unfolding ce_Enforce_def casbin_engine.Enforce_iff [OF E] links s'(1) using nodeny by blast
  moreover have "(\<exists>po pa. [''role:operator'', po, pa, EffectAllow] \<in> builtin_rules \<and> km obj po \<and> km act pa) =
      ((act = ''get'' \<or> act = ''list'') \<and>
        (has_prefix obj ''rgds/infrastructure/'' \<or> has_prefix obj ''rgds/networking/'' \<or>
         has_prefix obj ''rgds/storage/''))"
    unfolding builtin_rules_operator km [symmetric] by blast
  ultimately show ?thesis using new s' casbin_engine.ClearPolicies_effect [OF E] by blast
qed

theorem new_enforcer_has_builtin_only_witness:
  "\<exists>s'. NewCasbinEnforcerFromString mem_lib (Inr mem_init) = Inr s' \<and>
      ce_Enforce mem_lib s' ''role:operator'' ''rgds/storage/x'' ''get'' = Inr True"
  using new_enforcer_has_builtin_only [OF mem.casbin_engine_axioms,
      of mem_init "''rgds/storage/x''" "''get''" mem_init] by (auto simp: mem_init_def)

end
