(* ===== verification/Authz_Cache.thy ===== *)
theory Authz_Cache
  imports Complex_Main Knodex_Prelude
begin

text \<open>
  \<open>rbac/cache.go\<close>: the cache of authorization decisions. \<open>AuthorizationCache\<close>, the interface the
  enforcer calls, is the record \<open>cache_ops\<close>; its contract is the locale \<open>authz_cache\<close>, over what a
  lookup at a given time finds; \<open>inMemoryCache\<close> provides it. \<open>time.Now()\<close> is the argument \<open>now\<close>, in
  nanoseconds; the counters are \<open>int64\<close>, so words of 64 bits. The entries of the \<open>sync.Map\<close> are an
  association list with distinct keys; each method is one atomic step.
\<close>

subsection \<open>The interface\<close>

record 'c cache_ops =
  co_Get :: "'c \<Rightarrow> int \<Rightarrow> string \<Rightarrow> string \<Rightarrow> string \<Rightarrow> (bool \<times> bool) \<times> 'c"
  co_Set :: "'c \<Rightarrow> int \<Rightarrow> string \<Rightarrow> string \<Rightarrow> string \<Rightarrow> bool \<Rightarrow> int \<Rightarrow> 'c"
  co_Delete :: "'c \<Rightarrow> string \<Rightarrow> string \<Rightarrow> string \<Rightarrow> 'c"
  co_Clear :: "'c \<Rightarrow> 'c"
  co_InvalidateByPrefix :: "'c \<Rightarrow> string \<Rightarrow> nat \<times> 'c"

definition cacheKey :: "string \<Rightarrow> string \<Rightarrow> string \<Rightarrow> string" where
  "cacheKey user object action = user @ [CHR 0x00] @ object @ [CHR 0x00] @ action"

text \<open>
  Requests without a null byte. Only these have keys of their own; the middleware refuses the
  others.
\<close>

definition clean :: "string \<times> string \<times> string \<Rightarrow> bool" where
  "clean k = (case k of (u, ob, a) \<Rightarrow> CHR 0x00 \<notin> set u \<and> CHR 0x00 \<notin> set ob \<and> CHR 0x00 \<notin> set a)"

text \<open>
  \<open>look c t k\<close> is the decision that a lookup of \<open>k\<close> at time \<open>t\<close> finds, \<open>inv\<close> what every operation
  keeps. A lookup may drop an expired entry, so it preserves what is found from then on.
\<close>

locale authz_cache =
  fixes ops :: "'c cache_ops"
    and inv :: "'c \<Rightarrow> bool"
    and look :: "'c \<Rightarrow> int \<Rightarrow> string \<times> string \<times> string \<Rightarrow> bool option"
  assumes get_result: "inv c \<Longrightarrow> fst (co_Get ops c now u ob a)
        = (case look c now (u, ob, a) of None \<Rightarrow> (False, False) | Some b \<Rightarrow> (b, True))"
    and get_inv: "inv c \<Longrightarrow> inv (snd (co_Get ops c now u ob a))"
    and get_look: "inv c \<Longrightarrow> now \<le> t \<Longrightarrow> look (snd (co_Get ops c now u ob a)) t k = look c t k"
    and set_inv: "inv c \<Longrightarrow> inv (co_Set ops c now u ob a b ttl)"
    and set_look: "inv c \<Longrightarrow> clean k \<Longrightarrow> look (co_Set ops c now u ob a b ttl) t k
        = (if 0 < ttl \<and> k = (u, ob, a) then (if t \<le> now + ttl then Some b else None) else look c t k)"
    and delete_inv: "inv c \<Longrightarrow> inv (co_Delete ops c u ob a)"
    and delete_look: "inv c \<Longrightarrow> clean k \<Longrightarrow> look (co_Delete ops c u ob a) t k
        = (if k = (u, ob, a) then None else look c t k)"
    and clear_inv: "inv c \<Longrightarrow> inv (co_Clear ops c)"
    and clear_look: "inv c \<Longrightarrow> look (co_Clear ops c) t k = None"
    and prefix_inv: "inv c \<Longrightarrow> inv (snd (co_InvalidateByPrefix ops c p))"
    and prefix_look: "inv c \<Longrightarrow> look (snd (co_InvalidateByPrefix ops c p)) t (u, ob, a)
        = (if has_prefix (cacheKey u ob a) p then None else look c t (u, ob, a))"
    and look_later: "inv c \<Longrightarrow> s \<le> t \<Longrightarrow> look c t k = Some b \<Longrightarrow> look c s k = Some b"

subsection \<open>The in-memory cache\<close>

record CacheEntry =
  ce_Allowed :: bool
  ce_ExpiresAt :: int

record inMemoryCache =
  mc_data :: "(string \<times> CacheEntry) list"
  mc_hits :: "64 word"
  mc_misses :: "64 word"
  mc_ttl :: int

definition DefaultCacheTTL :: int where "DefaultCacheTTL = 300000000000"

definition IsExpired :: "int \<Rightarrow> CacheEntry \<Rightarrow> bool" where
  "IsExpired now e = (now > ce_ExpiresAt e)"

definition NewAuthorizationCacheWithTTL :: "int \<Rightarrow> inMemoryCache" where
  "NewAuthorizationCacheWithTTL ttl = \<lparr>mc_data = [], mc_hits = 0, mc_misses = 0, mc_ttl = ttl\<rparr>"

definition NewAuthorizationCache :: inMemoryCache where
  "NewAuthorizationCache = NewAuthorizationCacheWithTTL DefaultCacheTTL"

definition cache_Get ::
  "inMemoryCache \<Rightarrow> int \<Rightarrow> string \<Rightarrow> string \<Rightarrow> string \<Rightarrow> (bool \<times> bool) \<times> inMemoryCache" where
  "cache_Get c now user object action =
     (let key = cacheKey user object action
      in case map_of (mc_data c) key of
           None \<Rightarrow> ((False, False), c\<lparr>mc_misses := mc_misses c + 1\<rparr>)
         | Some entry \<Rightarrow>
             (if IsExpired now entry
              then ((False, False),
                    c\<lparr>mc_data := AList.delete key (mc_data c), mc_misses := mc_misses c + 1\<rparr>)
              else ((ce_Allowed entry, True), c\<lparr>mc_hits := mc_hits c + 1\<rparr>)))"

definition cache_Set ::
  "inMemoryCache \<Rightarrow> int \<Rightarrow> string \<Rightarrow> string \<Rightarrow> string \<Rightarrow> bool \<Rightarrow> int \<Rightarrow> inMemoryCache" where
  "cache_Set c now user object action allowed ttl =
     (if ttl \<le> 0 then c
      else c\<lparr>mc_data := AList.update (cacheKey user object action)
               \<lparr>ce_Allowed = allowed, ce_ExpiresAt = now + ttl\<rparr> (mc_data c)\<rparr>)"

definition cache_Delete :: "inMemoryCache \<Rightarrow> string \<Rightarrow> string \<Rightarrow> string \<Rightarrow> inMemoryCache" where
  "cache_Delete c user object action =
     c\<lparr>mc_data := AList.delete (cacheKey user object action) (mc_data c)\<rparr>"

definition cache_Clear :: "inMemoryCache \<Rightarrow> inMemoryCache" where
  "cache_Clear c = c\<lparr>mc_data := []\<rparr>"

definition cache_InvalidateByPrefix :: "inMemoryCache \<Rightarrow> string \<Rightarrow> nat \<times> inMemoryCache" where
  "cache_InvalidateByPrefix c p =
     (length (filter (\<lambda>(k, e). has_prefix k p) (mc_data c)),
      c\<lparr>mc_data := filter (\<lambda>(k, e). \<not> has_prefix k p) (mc_data c)\<rparr>)"

definition cache_cleanup :: "inMemoryCache \<Rightarrow> int \<Rightarrow> inMemoryCache" where
  "cache_cleanup c now = c\<lparr>mc_data := filter (\<lambda>(k, e). \<not> IsExpired now e) (mc_data c)\<rparr>"

definition cache_ResetStats :: "inMemoryCache \<Rightarrow> inMemoryCache" where
  "cache_ResetStats c = c\<lparr>mc_hits := 0, mc_misses := 0\<rparr>"

record CacheStats =
  st_Hits :: "64 word"
  st_Misses :: "64 word"
  st_Size :: nat
  st_HitRate :: rat
  st_TTLSeconds :: int

text \<open>The hit rate is the exact quotient, which the code rounds to a \<open>float64\<close>.\<close>

definition cache_Stats :: "inMemoryCache \<Rightarrow> CacheStats" where
  "cache_Stats c =
     (let total = mc_hits c + mc_misses c
      in \<lparr>st_Hits = mc_hits c, st_Misses = mc_misses c, st_Size = length (mc_data c),
          st_HitRate = (if 0 <s total then of_int (sint (mc_hits c)) / of_int (sint total) * 100 else 0),
          st_TTLSeconds = mc_ttl c div 1000000000\<rparr>)"

definition memory_cache_ops :: "inMemoryCache cache_ops" where
  "memory_cache_ops =
     \<lparr>co_Get = cache_Get, co_Set = cache_Set, co_Delete = cache_Delete, co_Clear = cache_Clear,
      co_InvalidateByPrefix = cache_InvalidateByPrefix\<rparr>"

subsection \<open>Keys\<close>

lemma null_unique:
  "a @ CHR 0x00 # x = b @ CHR 0x00 # y \<Longrightarrow> CHR 0x00 \<notin> set a \<Longrightarrow> CHR 0x00 \<notin> set b \<Longrightarrow> a = b \<and> x = y"
proof (induction a arbitrary: b)
  case Nil
  then show ?case by (cases b) auto
next
  case (Cons d ds)
  then show ?case by (cases b) auto
qed

lemma cacheKey_nulls: "count_list (cacheKey u ob a) (CHR 0x00)
     = count_list u (CHR 0x00) + count_list ob (CHR 0x00) + count_list a (CHR 0x00) + 2"
  by (simp add: cacheKey_def)

text \<open>A clean request shares its key with no other request.\<close>

lemma cacheKey_inj:
  assumes "clean (u, ob, a)" "cacheKey u ob a = cacheKey u' ob' a'"
  shows "(u, ob, a) = (u', ob', a')"
proof -
  have "count_list u' (CHR 0x00) + count_list ob' (CHR 0x00) + count_list a' (CHR 0x00) = 0"
    using assms cacheKey_nulls [of u ob a] cacheKey_nulls [of u' ob' a']
    by (simp add: clean_def count_list_0_iff [symmetric])
  then have nn: "CHR 0x00 \<notin> set u'" "CHR 0x00 \<notin> set ob'" by (simp_all add: count_list_0_iff)
  have "u @ CHR 0x00 # ob @ CHR 0x00 # a = u' @ CHR 0x00 # ob' @ CHR 0x00 # a'"
    using assms(2) by (simp add: cacheKey_def)
  then show ?thesis using null_unique nn assms(1) by (metis (no_types, lifting) case_prodD clean_def)
qed

lemma cacheKey_prefix:
  assumes "CHR 0x00 \<notin> set u" "CHR 0x00 \<notin> set v"
  shows "has_prefix (cacheKey u ob a) (v @ [CHR 0x00]) \<longleftrightarrow> u = v"
proof
  assume "has_prefix (cacheKey u ob a) (v @ [CHR 0x00])"
  then obtain y where "u @ CHR 0x00 # (ob @ CHR 0x00 # a) = v @ CHR 0x00 # y"
    by (auto simp: cacheKey_def prefix_def)
  then show "u = v" using null_unique assms by blast
qed (simp add: cacheKey_def)

subsection \<open>The contract holds\<close>

definition cache_inv :: "inMemoryCache \<Rightarrow> bool" where
  "cache_inv c \<longleftrightarrow> distinct (map fst (mc_data c))"

definition cache_look :: "inMemoryCache \<Rightarrow> int \<Rightarrow> string \<times> string \<times> string \<Rightarrow> bool option" where
  "cache_look c t k =
     (case k of (u, ob, a) \<Rightarrow>
        (case map_of (mc_data c) (cacheKey u ob a) of
           None \<Rightarrow> None
         | Some e \<Rightarrow> if IsExpired t e then None else Some (ce_Allowed e)))"

lemma map_of_filter_key: "map_of (filter (\<lambda>(k, e). P k) xs) k = (if P k then map_of xs k else None)"
  by (induction xs) auto

lemma map_of_filter_value:
  "distinct (map fst xs) \<Longrightarrow> map_of (filter (\<lambda>(k, e). P e) xs) k
     = (case map_of xs k of None \<Rightarrow> None | Some e \<Rightarrow> if P e then Some e else None)"
proof (induction xs)
  case Nil
  then show ?case by simp
next
  case (Cons x xs)
  then show ?case
    by (cases "map_of xs k") (auto simp: map_of_eq_None_iff image_iff split: option.splits)
qed

lemma distinct_fst_filter: "distinct (map fst xs) \<Longrightarrow> distinct (map fst (filter P xs))"
  by (induction xs) auto

interpretation mc: authz_cache memory_cache_ops cache_inv cache_look
proof (unfold_locales, goal_cases)
  case (1 c now u ob a)
  show ?case
    by (auto simp: memory_cache_ops_def cache_Get_def cache_look_def Let_def split: option.splits)
next
  case (2 c now u ob a)
  then show ?case
    by (auto simp: memory_cache_ops_def cache_Get_def cache_inv_def Let_def split: option.splits
        intro: distinct_delete)
next
  case (3 c now t u ob a k)
  obtain u' ob' a' where k: "k = (u', ob', a')" by (cases k)
  show ?case
    using 3 by (auto simp: k memory_cache_ops_def cache_Get_def cache_look_def Let_def delete_conv
        IsExpired_def split: option.splits)
next
  case (4 c now u ob a b ttl)
  then show ?case
    by (auto simp: memory_cache_ops_def cache_Set_def cache_inv_def intro: distinct_update)
next
  case (5 c k now u ob a b ttl t)
  obtain u' ob' a' where k: "k = (u', ob', a')" by (cases k)
  show ?case
    using 5 cacheKey_inj [of u' ob' a' u ob a]
    by (auto simp: k memory_cache_ops_def cache_Set_def cache_look_def update_conv IsExpired_def)
next
  case (6 c u ob a)
  then show ?case by (simp add: memory_cache_ops_def cache_Delete_def cache_inv_def distinct_delete)
next
  case (7 c k u ob a t)
  obtain u' ob' a' where k: "k = (u', ob', a')" by (cases k)
  show ?case
    using 7 cacheKey_inj [of u' ob' a' u ob a]
    by (auto simp: k memory_cache_ops_def cache_Delete_def cache_look_def delete_conv)
next
  case (12 c s t k b)
  then show ?case
    by (cases k) (auto simp: cache_look_def IsExpired_def split: option.splits if_splits)
qed (auto simp: memory_cache_ops_def cache_Clear_def cache_InvalidateByPrefix_def cache_inv_def
      cache_look_def distinct_fst_filter map_of_filter_key)

subsection \<open>Coherence\<close>

text \<open>
  A cache is coherent with a decision function when every decision it can still hand out for a
  clean request is the one the function gives. Every operation keeps that, storing only when the
  stored decision is right; clearing the cache makes it coherent with any function.
\<close>

context authz_cache begin

definition coherent :: "(string \<Rightarrow> string \<Rightarrow> string \<Rightarrow> bool) \<Rightarrow> int \<Rightarrow> 'c \<Rightarrow> bool" where
  "coherent D now c \<longleftrightarrow>
     inv c \<and> (\<forall>t u ob a b. now \<le> t \<longrightarrow> clean (u, ob, a) \<longrightarrow> look c t (u, ob, a) = Some b \<longrightarrow> b = D u ob a)"

lemma coherent_later: "coherent D s c \<Longrightarrow> s \<le> t \<Longrightarrow> coherent D t c"
  unfolding coherent_def using order_trans by blast

lemma coherent_get: "coherent D now c \<Longrightarrow> coherent D now (snd (co_Get ops c now u ob a))"
  by (auto simp: coherent_def get_inv get_look)

lemma coherent_hit:
  assumes "coherent D now c" "clean (u, ob, a)" "fst (co_Get ops c now u ob a) = (b, True)"
  shows "b = D u ob a"
  using assms get_result [of c now u ob a] by (auto simp: coherent_def split: option.splits)

lemma coherent_set:
  assumes "coherent D now c" "b = D u ob a"
  shows "coherent D now (co_Set ops c now u ob a b ttl)"
  unfolding coherent_def
proof (intro conjI allI impI)
  show "inv (co_Set ops c now u ob a b ttl)" using assms(1) by (simp add: coherent_def set_inv)
  fix t u' ob' a' b'
  assume t: "now \<le> t" and cl: "clean (u', ob', a')"
    and l: "look (co_Set ops c now u ob a b ttl) t (u', ob', a') = Some b'"
  have "inv c" using assms(1) by (simp add: coherent_def)
  note sl = set_look [OF this cl, of now u ob a b ttl t]
  show "b' = D u' ob' a'"
  proof (cases "0 < ttl \<and> (u', ob', a') = (u, ob, a)")
    case True
    then show ?thesis using l sl assms(2) by (auto split: if_splits)
  next
    case False
    then have "look c t (u', ob', a') = Some b'" using l sl by (simp split: if_splits)
    then show ?thesis using assms(1) t cl by (auto simp: coherent_def)
  qed
qed

lemma coherent_clear: "inv c \<Longrightarrow> coherent D now (co_Clear ops c)"
  by (simp add: coherent_def clear_inv clear_look)

text \<open>
  When only the decisions for one user change, dropping the entries of that user is enough.
\<close>

lemma coherent_invalidate_user:
  assumes "coherent D now c" "CHR 0x00 \<notin> set v" "\<And>u ob a. u \<noteq> v \<Longrightarrow> D' u ob a = D u ob a"
  shows "coherent D' now (snd (co_InvalidateByPrefix ops c (v @ [CHR 0x00])))"
  unfolding coherent_def
proof (intro conjI allI impI)
  show "inv (snd (co_InvalidateByPrefix ops c (v @ [CHR 0x00])))"
    using assms(1) by (simp add: coherent_def prefix_inv)
  fix t u ob a b
  assume t: "now \<le> t" and cl: "clean (u, ob, a)"
    and l: "look (snd (co_InvalidateByPrefix ops c (v @ [CHR 0x00]))) t (u, ob, a) = Some b"
  have "inv c" using assms(1) by (simp add: coherent_def)
  then have "\<not> has_prefix (cacheKey u ob a) (v @ [CHR 0x00])" "look c t (u, ob, a) = Some b"
    using l prefix_look [of c "v @ [CHR 0x00]" t u ob a] by (auto split: if_splits)
  then show "b = D' u ob a"
    using cacheKey_prefix [of u v ob a] assms t cl by (auto simp: clean_def coherent_def)
qed

end

lemma cleanup_look:
  "cache_inv c \<Longrightarrow> now \<le> t \<Longrightarrow> cache_inv (cache_cleanup c now) \<and> cache_look (cache_cleanup c now) t k = cache_look c t k"
  by (cases k)
     (auto simp: cache_inv_def cache_cleanup_def cache_look_def IsExpired_def map_of_filter_value
        distinct_fst_filter split: option.splits)

subsection \<open>Properties\<close>



text \<open>
  Invalidating a user removes exactly that user's decisions. With the prefix that ends in the
  null byte, as \<open>InvalidateCacheForUser\<close> passes it, no decision for the user is found any more, and
  every other clean request finds what it found before; the cache keeps its invariant.
\<close>

theorem cache_invalidate_user_exact:
  assumes "cache_inv c" "CHR 0x00 \<notin> set v" "clean (u, ob, a)"
  shows "cache_look (snd (cache_InvalidateByPrefix c (v @ [CHR 0x00]))) t (u, ob, a)
           = (if u = v then None else cache_look c t (u, ob, a)) \<and>
         cache_inv (snd (cache_InvalidateByPrefix c (v @ [CHR 0x00]))) \<and>
         fst (cache_InvalidateByPrefix c (v @ [CHR 0x00]))
           + length (mc_data (snd (cache_InvalidateByPrefix c (v @ [CHR 0x00])))) = length (mc_data c)"
proof -
  have "has_prefix (cacheKey u ob a) (v @ [CHR 0x00]) \<longleftrightarrow> u = v"
    using cacheKey_prefix [of u v ob a] assms(2,3) by (simp add: clean_def)
  moreover have "length (filter (\<lambda>(k, e). P k) xs) + length (filter (\<lambda>(k, e). \<not> P k) xs) = length xs"
    for P :: "string \<Rightarrow> bool" and xs :: "(string \<times> CacheEntry) list"
    by (induction xs) auto
  ultimately show ?thesis
    using mc.prefix_look [OF assms(1), of "v @ [CHR 0x00]" t u ob a]
      mc.prefix_inv [OF assms(1), of "v @ [CHR 0x00]"]
    by (auto simp: memory_cache_ops_def cache_InvalidateByPrefix_def)
qed

theorem cache_invalidate_user_exact_witness:
  "cache_look (snd (cache_InvalidateByPrefix
      (cache_Set NewAuthorizationCache 0 ''user:al'' ''o'' ''a'' True 10) (''user:a'' @ [CHR 0x00])))
      5 (''user:al'', ''o'', ''a'') = Some True"
proof -
  let ?c = "cache_Set NewAuthorizationCache 0 ''user:al'' ''o'' ''a'' True 10"
  have i: "cache_inv ?c"
    by (simp add: cache_inv_def cache_Set_def NewAuthorizationCache_def NewAuthorizationCacheWithTTL_def)
  have l: "cache_look ?c 5 (''user:al'', ''o'', ''a'') = Some True"
    by (simp add: cache_look_def cache_Set_def NewAuthorizationCache_def NewAuthorizationCacheWithTTL_def
        IsExpired_def)
  show ?thesis
    using cache_invalidate_user_exact [OF i, of "''user:a''" "''user:al''" "''o''" "''a''" 5] l
    by (simp add: clean_def)
qed

end
