(* ===== verification/Project_Model.thy ===== *)
theory Project_Model
  imports Subject_Format
begin

text \<open>
  The data of the Project resource, \<open>rbac/types.go\<close>, and its validation and matching functions,
  \<open>rbac/validation.go\<close>, with \<open>matchesWildcard\<close> of \<open>rbac/project_service.go\<close>. The lemmas give the
  meaning of a validated specification and of the three pattern matchers: \<open>MatchGlob\<close>, a greedy
  scan over the segments between the stars, is compared with the recursive definition \<open>glob\<close> of
  what a star means.
\<close>

subsection \<open>Data\<close>

record Destination =
  dest_Namespace :: string
  dest_Name :: string

record ResourceSpec =
  res_Group :: string
  res_Kind :: string

record ProjectRole =
  role_Name :: string
  role_Description :: string
  role_Policies :: "string list"
  role_Groups :: "string list"
  role_Destinations :: "string list"

record ClusterBinding =
  cb_ClusterRef :: string

record ProjectSpec =
  spec_Type :: string
  spec_Description :: string
  spec_Destinations :: "Destination list"
  spec_ClusterResourceWhitelist :: "ResourceSpec list"
  spec_ClusterResourceBlacklist :: "ResourceSpec list"
  spec_NamespaceResourceWhitelist :: "ResourceSpec list"
  spec_NamespaceResourceBlacklist :: "ResourceSpec list"
  spec_Roles :: "ProjectRole list"
  spec_Clusters :: "ClusterBinding list"
  spec_Namespace :: string
  spec_NamespaceRetention :: string

record ClusterState =
  cs_ClusterRef :: string
  cs_Phase :: string
  cs_Message :: string

record ProjectCondition =
  cond_Type :: string
  cond_Status :: string
  cond_LastTransitionTime :: int
  cond_Reason :: string
  cond_Message :: string

record ProjectStatus =
  status_Conditions :: "ProjectCondition list"
  status_ClusterStates :: "ClusterState list"

text \<open>
  Of \<open>metav1.ObjectMeta\<close> the fields the server reads: a zero creation time is \<open>None\<close>, and the
  annotations are a list of pairs in which the first entry of a key counts.
\<close>

record Project =
  pj_Name :: string
  pj_ResourceVersion :: string
  pj_CreationTimestamp :: "int option"
  pj_Labels :: "(string \<times> string) list"
  pj_Annotations :: "(string \<times> string) list"
  pj_Spec :: ProjectSpec
  pj_Status :: ProjectStatus

abbreviation ProjectTypePlatform :: string where "ProjectTypePlatform \<equiv> ''platform''"
abbreviation ProjectTypeApp :: string where "ProjectTypeApp \<equiv> ''app''"

record ProjectInfo =
  info_ID :: string
  info_Description :: string
  info_Destinations :: "Destination list"
  info_ClusterResourceWhitelist :: "ResourceSpec list"
  info_ClusterResourceBlacklist :: "ResourceSpec list"
  info_NamespaceResourceWhitelist :: "ResourceSpec list"
  info_NamespaceResourceBlacklist :: "ResourceSpec list"
  info_Roles :: "ProjectRole list"
  info_Conditions :: "ProjectCondition list"
  info_CreatedAt :: "int option"
  info_ResourceVersion :: string

definition ToProjectInfo :: "Project \<Rightarrow> ProjectInfo" where
  "ToProjectInfo p =
     \<lparr>info_ID = pj_Name p,
      info_Description = spec_Description (pj_Spec p),
      info_Destinations = spec_Destinations (pj_Spec p),
      info_ClusterResourceWhitelist = spec_ClusterResourceWhitelist (pj_Spec p),
      info_ClusterResourceBlacklist = spec_ClusterResourceBlacklist (pj_Spec p),
      info_NamespaceResourceWhitelist = spec_NamespaceResourceWhitelist (pj_Spec p),
      info_NamespaceResourceBlacklist = spec_NamespaceResourceBlacklist (pj_Spec p),
      info_Roles = spec_Roles (pj_Spec p),
      info_Conditions = status_Conditions (pj_Status p),
      info_CreatedAt = pj_CreationTimestamp p,
      info_ResourceVersion = pj_ResourceVersion p\<rparr>"

subsection \<open>Namespaces and wildcards\<close>

fun check_ns_chars :: "nat \<Rightarrow> nat \<Rightarrow> string \<Rightarrow> gerror option" where
  "check_ns_chars n i [] = None"
| "check_ns_chars n i (c # cs) =
     (if \<not> (is_lower c \<or> is_digit c \<or> c = CHR ''-'')
        then Some (Err ''namespace contains invalid character'')
      else if c = CHR ''-'' \<and> (i = 0 \<or> i = n - 1)
        then Some (Err ''namespace cannot start or end with hyphen'')
      else check_ns_chars n (Suc i) cs)"

definition ValidateNamespace :: "string \<Rightarrow> gerror option" where
  "ValidateNamespace ns =
     (if ns = [] then Some (Err ''namespace cannot be empty'')
      else if length ns > 63 then Some (Err ''namespace exceeds maximum length of 63 characters'')
      else check_ns_chars (length ns) 0 ns)"

definition IsWildcard :: "string \<Rightarrow> bool" where
  "IsWildcard str =
     (if str = [] then False
      else str = ''*'' \<or> hd str = CHR ''*'' \<or> last str = CHR ''*'')"

definition MatchNamespace :: "string \<Rightarrow> string \<Rightarrow> bool" where
  "MatchNamespace ns pattern =
     (if pattern = [] then False
      else if pattern = ''*'' then True
      else if last pattern = CHR ''*'' then has_prefix ns (butlast pattern)
      else if hd pattern = CHR ''*'' then has_suffix ns (tl pattern)
      else ns = pattern)"

fun MatchNamespaceInList :: "string \<Rightarrow> string list \<Rightarrow> bool" where
  "MatchNamespaceInList ns [] = False"
| "MatchNamespaceInList ns (pattern # rest) =
     (if MatchNamespace ns pattern then True else MatchNamespaceInList ns rest)"

definition matchesWildcard :: "string \<Rightarrow> string \<Rightarrow> bool" where
  "matchesWildcard pattern v =
     (if pattern = ''*'' then True
      else if length pattern > 0 \<and> last pattern = CHR ''*''
        then (let p = butlast pattern in length v \<ge> length p \<and> take (length p) v = p)
      else if length pattern > 0 \<and> hd pattern = CHR ''*''
        then (let s = tl pattern in length v \<ge> length s \<and> drop (length v - length s) v = s)
      else pattern = v)"

subsection \<open>Specifications\<close>

definition ValidateProjectName :: "string \<Rightarrow> gerror option" where
  "ValidateProjectName nm =
     (if nm = [] then Some (Err ''project name cannot be empty'')
      else if length nm > 253 then Some (Err ''project name cannot exceed 253 characters'')
      else if \<not> dns_label_regex nm
        then Some (Err ''project name must be lowercase alphanumeric with hyphens'')
      else None)"

definition Destination_Validate :: "Destination \<Rightarrow> gerror option" where
  "Destination_Validate d =
     (if dest_Namespace d = [] then Some (Err ''namespace is required'')
      else if \<not> IsWildcard (dest_Namespace d) \<and> \<not> dns_label_regex (dest_Namespace d)
        then Some (Err ''destination namespace must be a valid DNS-1123 label or wildcard pattern'')
      else None)"

definition ResourceSpec_Validate :: "ResourceSpec \<Rightarrow> gerror option" where
  "ResourceSpec_Validate r =
     (if res_Kind r = [] then Some (Err ''resource spec must specify kind'') else None)"

definition ProjectRole_Validate :: "ProjectRole \<Rightarrow> gerror option" where
  "ProjectRole_Validate r =
     (if role_Name r = [] then Some (Err ''role name cannot be empty'')
      else if \<not> dns_label_regex (role_Name r)
        then Some (Err ''role name must be lowercase alphanumeric with hyphens'')
      else if length (role_Policies r) = 0 then Some (Err ''role must have at least one policy'')
      else None)"

text \<open>The loop of \<open>ValidateRoleDestinations\<close>; \<open>seen\<close> holds the destinations already visited.\<close>

fun check_role_dests :: "string list \<Rightarrow> string list \<Rightarrow> Destination list \<Rightarrow> gerror option" where
  "check_role_dests seen [] pds = None"
| "check_role_dests seen (roleDest # rest) pds =
     (if roleDest = [] then Some (Err ''destination cannot be empty'')
      else if roleDest \<in> set seen then Some (Err ''duplicate destination'')
      else if \<not> list_ex (\<lambda>pd. roleDest = dest_Namespace pd) pds
        then Some (Err ''does not match any project destination namespace'')
      else check_role_dests (roleDest # seen) rest pds)"

definition ValidateRoleDestinations :: "ProjectRole \<Rightarrow> Destination list \<Rightarrow> gerror option" where
  "ValidateRoleDestinations role pds = check_role_dests [] (role_Destinations role) pds"

fun check_clusters :: "string list \<Rightarrow> ClusterBinding list \<Rightarrow> gerror option" where
  "check_clusters seen [] = None"
| "check_clusters seen (cb # rest) =
     (if cb_ClusterRef cb = [] then Some (Err ''clusterRef is required'')
      else if cb_ClusterRef cb \<in> set seen then Some (Err ''clusterRef is duplicated'')
      else check_clusters (cb_ClusterRef cb # seen) rest)"

fun check_roles :: "string list \<Rightarrow> Destination list \<Rightarrow> ProjectRole list \<Rightarrow> gerror option" where
  "check_roles seen pds [] = None"
| "check_roles seen pds (role # rest) =
     (case ProjectRole_Validate role of
        Some e \<Rightarrow> Some (Wrap ''roles'' e)
      | None \<Rightarrow>
          (if role_Name role \<in> set seen then Some (Err ''duplicate role name'')
           else (case (if length (role_Destinations role) > 0
                       then ValidateRoleDestinations role pds else None) of
                   Some e \<Rightarrow> Some (Wrap ''roles'' e)
                 | None \<Rightarrow> check_roles (role_Name role # seen) pds rest)))"

definition check_spec_type :: "ProjectSpec \<Rightarrow> gerror option" where
  "check_spec_type spec =
     (if spec_Type spec \<in> {[], ProjectTypeApp, ProjectTypePlatform} then None
      else Some (Err ''invalid project type''))"

definition check_spec_clusters :: "ProjectSpec \<Rightarrow> gerror option" where
  "check_spec_clusters spec =
     (if length (spec_Clusters spec) > 0
      then (let effectiveType = (if spec_Type spec = [] then ProjectTypeApp else spec_Type spec)
            in if effectiveType = ProjectTypePlatform
                 then Some (Err ''spec.clusters is only valid on app projects'')
               else if spec_Namespace spec = []
                 then Some (Err ''spec.namespace is required when spec.clusters is set'')
               else first_err (wrap_err ''spec.namespace'' (ValidateNamespace (spec_Namespace spec)))
                      (check_clusters [] (spec_Clusters spec)))
      else None)"

definition check_resources :: "string \<Rightarrow> ResourceSpec list \<Rightarrow> gerror option" where
  "check_resources ctx rs = range_err (\<lambda>r. wrap_err ctx (ResourceSpec_Validate r)) rs"

definition ValidateProjectSpec :: "ProjectSpec \<Rightarrow> gerror option" where
  "ValidateProjectSpec spec =
     first_err (check_spec_type spec)
    (first_err (check_spec_clusters spec)
    (if length (spec_Destinations spec) = 0
     then Some (Err ''project must specify at least one destination'')
     else
     first_err (range_err (\<lambda>d. wrap_err ''destinations'' (Destination_Validate d)) (spec_Destinations spec))
    (first_err (check_resources ''clusterResourceWhitelist'' (spec_ClusterResourceWhitelist spec))
    (first_err (check_resources ''clusterResourceBlacklist'' (spec_ClusterResourceBlacklist spec))
    (first_err (check_resources ''namespaceResourceWhitelist'' (spec_NamespaceResourceWhitelist spec))
    (first_err (check_resources ''namespaceResourceBlacklist'' (spec_NamespaceResourceBlacklist spec))
       (check_roles [] (spec_Destinations spec) (spec_Roles spec))))))))"

subsection \<open>\<open>MatchGlob\<close>\<close>

definition MaxGlobSegments :: nat where "MaxGlobSegments = 100"

text \<open>
  The loop over the segments; the third argument is \<open>text[pos:]\<close>. \<open>anchored\<close> holds for the first
  segment of a pattern that does not start with a star. The result is the text left at the end,
  \<open>None\<close> when the loop returns false.
\<close>

fun glob_loop :: "bool \<Rightarrow> string list \<Rightarrow> string \<Rightarrow> string option" where
  "glob_loop anchored [] rest = Some rest"
| "glob_loop anchored (seg # segs) rest =
     (if seg = [] then glob_loop False segs rest
      else (case str_index rest seg of
              None \<Rightarrow> None
            | Some idx \<Rightarrow>
                if anchored \<and> idx \<noteq> 0 then None
                else glob_loop False segs (drop (idx + length seg) rest)))"

definition MatchGlob :: "string \<Rightarrow> string \<Rightarrow> bool" where
  "MatchGlob pattern txt =
     (if pattern = [] then txt = []
      else if pattern = ''*'' then True
      else if \<not> contains pattern ''*'' then pattern = txt
      else (let segments = split_on (CHR ''*'') pattern
            in if length segments > MaxGlobSegments then False
               else (case glob_loop (hd pattern \<noteq> CHR ''*'') segments txt of
                       None \<Rightarrow> False
                     | Some _ \<Rightarrow>
                         if last pattern \<noteq> CHR ''*'' \<and> last segments \<noteq> []
                            \<and> \<not> has_suffix txt (last segments)
                         then False else True)))"

fun ValidateDestinationAgainstAllowed :: "Destination \<Rightarrow> Destination list \<Rightarrow> bool" where
  "ValidateDestinationAgainstAllowed dest [] = False"
| "ValidateDestinationAgainstAllowed dest (allowed # rest) =
     (if \<not> MatchGlob (dest_Namespace allowed) (dest_Namespace dest)
        then ValidateDestinationAgainstAllowed dest rest
      else if dest_Name allowed \<noteq> [] \<and> dest_Name dest \<noteq> [] \<and>
              \<not> MatchGlob (dest_Name allowed) (dest_Name dest)
        then ValidateDestinationAgainstAllowed dest rest
      else True)"

subsection \<open>What a star means\<close>

fun glob :: "string \<Rightarrow> string \<Rightarrow> bool" where
  "glob [] t \<longleftrightarrow> t = []"
| "glob (c # p) [] \<longleftrightarrow> c = CHR ''*'' \<and> glob p []"
| "glob (c # p) (x # t) \<longleftrightarrow>
     (if c = CHR ''*'' then glob p (x # t) \<or> glob (c # p) t else x = c \<and> glob p t)"

text \<open>The segments that follow a star.\<close>

fun segs_spec :: "string list \<Rightarrow> string \<Rightarrow> bool" where
  "segs_spec [] t \<longleftrightarrow> False"
| "segs_spec [s] t \<longleftrightarrow> suffix s t"
| "segs_spec (s # s' # ss) t \<longleftrightarrow> (\<exists>u v. t = u @ s @ v \<and> segs_spec (s' # ss) v)"

lemma glob_star: "glob (CHR ''*'' # p) t \<longleftrightarrow> (\<exists>u v. t = u @ v \<and> glob p v)"
proof (induction t)
  case Nil
  then show ?case by simp
next
  case (Cons x t)
  have "(\<exists>u v. x # t = u @ v \<and> glob p v) \<longleftrightarrow> glob p (x # t) \<or> (\<exists>u v. t = u @ v \<and> glob p v)"
    by (metis append_Cons append_Nil append_eq_Cons_conv)
  with Cons show ?case by simp
qed

lemma glob_literal: "CHR ''*'' \<notin> set s \<Longrightarrow> glob (s @ p) t \<longleftrightarrow> (\<exists>v. t = s @ v \<and> glob p v)"
proof (induction s arbitrary: t)
  case Nil
  then show ?case by simp
next
  case (Cons c s)
  then show ?case by (cases t) auto
qed

lemma glob_exact: "CHR ''*'' \<notin> set p \<Longrightarrow> glob p t \<longleftrightarrow> t = p"
  using glob_literal [of p "[]" t] by auto

lemma glob_segs:
  "ss \<noteq> [] \<Longrightarrow> \<forall>s \<in> set ss. CHR ''*'' \<notin> set s \<Longrightarrow>
   glob (CHR ''*'' # join_on ''*'' ss) t \<longleftrightarrow> segs_spec ss t"
proof (induction ss t rule: segs_spec.induct)
  case (1 t)
  then show ?case by simp
next
  case (2 s t)
  then show ?case by (auto simp: glob_star glob_exact suffix_def simp del: glob.simps)
next
  case (3 s s' ss t)
  have s: "CHR ''*'' \<notin> set s" using 3 by simp
  have "glob (join_on ''*'' (s # s' # ss)) v
          \<longleftrightarrow> (\<exists>w. v = s @ w \<and> segs_spec (s' # ss) w)" for v
    using glob_literal [OF s] 3 by simp
  then show ?case by (auto simp: glob_star simp del: glob.simps join_on.simps)
qed

lemma segs_spec_mono: "segs_spec ss v \<Longrightarrow> suffix v w \<Longrightarrow> segs_spec ss w"
proof (induction ss v arbitrary: w rule: segs_spec.induct)
  case (1 t)
  then show ?case by simp
next
  case (2 s t)
  then show ?case using suffix_order.trans by auto
next
  case (3 s s' ss t)
  obtain u v where "t = u @ s @ v" "segs_spec (s' # ss) v" using 3 by auto
  moreover obtain z where "w = z @ t" using 3 by (auto simp: suffix_def)
  ultimately have "w = (z @ u) @ s @ v \<and> segs_spec (s' # ss) v" by simp
  then show ?case by (auto simp del: append_assoc)
qed

lemma str_index_split:
  assumes "t = u @ s @ v"
  shows "\<exists>i. str_index t s = Some i \<and> suffix v (drop (i + length s) t)"
proof -
  have pre: "prefix s (drop (length u) t)" using assms by simp
  then obtain i where i: "str_index t s = Some i"
    using str_index_None by (cases "str_index t s") blast+
  then have "i \<le> length u" using str_index_least pre by (metis not_le)
  moreover have "v = drop (length u + length s) t" using assms by simp
  ultimately have "v = drop (length u - i) (drop (i + length s) t)" by (simp add: algebra_simps)
  then show ?thesis using i suffix_drop by metis
qed

lemma segs_spec_greedy:
  "segs_spec (s # s' # ss) t \<longleftrightarrow>
     (\<exists>i. str_index t s = Some i \<and> segs_spec (s' # ss) (drop (i + length s) t))"
proof
  assume "segs_spec (s # s' # ss) t"
  then obtain u v where t: "t = u @ s @ v" and v: "segs_spec (s' # ss) v" by auto
  then show "\<exists>i. str_index t s = Some i \<and> segs_spec (s' # ss) (drop (i + length s) t)"
    using str_index_split [OF t] segs_spec_mono [OF v] by blast
next
  assume "\<exists>i. str_index t s = Some i \<and> segs_spec (s' # ss) (drop (i + length s) t)"
  then obtain i where i: "str_index t s = Some i" "segs_spec (s' # ss) (drop (i + length s) t)"
    by blast
  have "prefix s (drop i t)" using str_index_Some i(1) by blast
  then have "drop i t = s @ drop (i + length s) t"
    by (auto simp: prefix_def) (metis add.commute append_eq_conv_conj drop_drop)
  then have "t = take i t @ s @ drop (i + length s) t" by (metis append_take_drop_id)
  then show "segs_spec (s # s' # ss) t" using i(2) by auto
qed

lemma str_index_Nil [simp]: "str_index t [] = Some 0"
  by (cases t) auto

lemma suffix_same: "suffix a t \<Longrightarrow> suffix b t \<Longrightarrow> length a \<le> length b \<Longrightarrow> suffix a b"
  using suffix_length_suffix by blast

lemma contains_suffix:
  assumes "suffix rest whole"
  shows "str_index rest s \<noteq> None \<and> suffix s whole \<longleftrightarrow> suffix s rest"
proof
  assume a: "str_index rest s \<noteq> None \<and> suffix s whole"
  then have "length s \<le> length rest" using str_index_Some by fastforce
  then show "suffix s rest" using suffix_same a assms by blast
next
  assume "suffix s rest"
  then show "str_index rest s \<noteq> None \<and> suffix s whole"
    using assms str_index_split [of rest _ s "[]"] suffix_order.trans
    by (fastforce simp: suffix_def)
qed

lemma glob_loop_spec:
  "ss \<noteq> [] \<Longrightarrow> suffix rest whole \<Longrightarrow>
   (glob_loop False ss rest \<noteq> None \<and> (last ss \<noteq> [] \<longrightarrow> suffix (last ss) whole)) \<longleftrightarrow> segs_spec ss rest"
proof (induction ss arbitrary: rest)
  case Nil
  then show ?case by simp
next
  case (Cons s ss)
  show ?case
  proof (cases ss)
    case Nil
    then show ?thesis
      using contains_suffix [of rest whole s] Cons.prems by (cases "s = []") (auto split: option.splits)
  next
    case S: (Cons s' ss')
    show ?thesis
    proof (cases "str_index rest s")
      case None
      then have "s \<noteq> []" by auto
      then show ?thesis using None S by (simp add: segs_spec_greedy del: segs_spec.simps)
    next
      case (Some i)
      have "suffix (drop (i + length s) rest) whole"
        using Cons.prems(2) suffix_drop suffix_order.trans by blast
      moreover have "glob_loop False (s # ss) rest = glob_loop False ss (drop (i + length s) rest)"
        using Some by auto
      moreover have "segs_spec (s # ss) rest \<longleftrightarrow> segs_spec ss (drop (i + length s) rest)"
        using Some S by (simp add: segs_spec_greedy del: segs_spec.simps)
      ultimately show ?thesis
        using Cons.IH [of "drop (i + length s) rest"] S by simp
    qed
  qed
qed

lemma last_join:
  "ss \<noteq> [] \<Longrightarrow> last ss \<noteq> [] \<Longrightarrow> join_on sep ss \<noteq> [] \<and> last (join_on sep ss) = last (last ss)"
proof (induction ss)
  case Nil
  then show ?case by simp
next
  case (Cons s ss)
  then show ?case by (cases ss) (auto simp: join_on_Cons)
qed

lemma str_index_zero: "str_index t s = Some 0 \<longleftrightarrow> prefix s t"
  by (cases t) (auto simp: map_option_case split: option.splits)

lemma MatchGlob_iff: "MatchGlob p t \<longleftrightarrow> count_list p (CHR ''*'') < 100 \<and> glob p t"
proof (cases "p = [] \<or> p = ''*'' \<or> CHR ''*'' \<notin> set p")
  case True
  then show ?thesis
    by (auto simp: MatchGlob_def glob_exact glob_star count_list_0_iff simp del: glob.simps)
next
  case False
  define segs where "segs = split_on (CHR ''*'') p"
  have nostar: "\<forall>s \<in> set segs. CHR ''*'' \<notin> set s" using split_on_parts segs_def by blast
  have "length segs = Suc (count_list p (CHR ''*''))" by (simp add: segs_def length_split_on)
  then have cnt: "length segs > MaxGlobSegments \<longleftrightarrow> \<not> count_list p (CHR ''*'') < 100" 
    by (auto simp: MaxGlobSegments_def)
  have "count_list p (CHR ''*'') \<noteq> 0" using False by (simp add: count_list_0_iff)
  then obtain s ss where segs: "segs = s # ss" and ss: "ss \<noteq> []"
    using length_split_on [of "CHR ''*''" p] by (cases segs; cases "tl segs") (auto simp: segs_def)
  have p: "p = s @ CHR ''*'' # join_on ''*'' ss"
    using join_split_on [of "CHR ''*''" p] segs ss by (simp add: segs_def [symmetric] join_on_Cons)
  have s: "CHR ''*'' \<notin> set s" using nostar segs by simp
  have hd: "hd p \<noteq> CHR ''*'' \<longleftrightarrow> s \<noteq> []" using p s by (cases s) auto
  have lst: "last segs \<noteq> [] \<Longrightarrow> last p \<noteq> CHR ''*''"
    using last_join [of ss "''*''"] ss segs p nostar by (metis last_ConsR last_appendR last_in_set list.distinct(1))
  have spec: "glob p t \<longleftrightarrow> (\<exists>v. t = s @ v \<and> segs_spec ss v)"
    using glob_literal [OF s] glob_segs [OF ss] nostar segs p by (metis list.set_intros(2))
  have loop: "(glob_loop (hd p \<noteq> CHR ''*'') segs t \<noteq> None \<and> (last segs \<noteq> [] \<longrightarrow> suffix (last segs) t))
                \<longleftrightarrow> glob p t"
  proof (cases "prefix s t")
    case True
    then obtain v where v: "t = s @ v" by (auto simp: prefix_def)
    have "glob_loop (hd p \<noteq> CHR ''*'') segs t = glob_loop False ss v"
      using v segs str_index_zero [of t s] by (cases "s = []") auto
    then show ?thesis
      using glob_loop_spec [OF ss, of v t] v ss segs spec by (auto simp: suffix_def)
  next
    case F: False
    then have "s \<noteq> []" by auto
    moreover have "str_index t s \<noteq> Some 0" using F str_index_zero by blast
    ultimately show ?thesis
      using F segs spec hd by (auto split: option.splits)
  qed
  have "MatchGlob p t \<longleftrightarrow> \<not> length segs > MaxGlobSegments \<and>
     glob_loop (hd p \<noteq> CHR ''*'') segs t \<noteq> None \<and>
     \<not> (last p \<noteq> CHR ''*'' \<and> last segs \<noteq> [] \<and> \<not> suffix (last segs) t)"
    using False by (simp add: MatchGlob_def Let_def segs_def split: option.splits)
  then show ?thesis using cnt lst loop by blast
qed

subsection \<open>What a validated specification satisfies\<close>

lemma check_role_dests_None:
  "check_role_dests seen ds pds = None \<longleftrightarrow>
     distinct ds \<and> set ds \<inter> set seen = {} \<and> [] \<notin> set ds \<and> set ds \<subseteq> dest_Namespace ` set pds"
  by (induction ds arbitrary: seen) (auto simp: list_ex_iff image_iff)

lemma ValidateRoleDestinations_None [simp]:
  "ValidateRoleDestinations role pds = None \<longleftrightarrow>
     distinct (role_Destinations role) \<and> [] \<notin> set (role_Destinations role) \<and>
     set (role_Destinations role) \<subseteq> dest_Namespace ` set pds"
  by (simp add: ValidateRoleDestinations_def check_role_dests_None)

lemma check_clusters_None:
  "check_clusters seen cbs = None \<longleftrightarrow>
     distinct (map cb_ClusterRef cbs) \<and> cb_ClusterRef ` set cbs \<inter> set seen = {} \<and>
     [] \<notin> cb_ClusterRef ` set cbs"
  by (induction cbs arbitrary: seen) auto

lemma check_roles_None:
  "check_roles seen pds rs = None \<longleftrightarrow>
     (\<forall>r \<in> set rs. ProjectRole_Validate r = None \<and> ValidateRoleDestinations r pds = None) \<and>
     distinct (map role_Name rs) \<and> role_Name ` set rs \<inter> set seen = {}"
proof (induction rs arbitrary: seen)
  case Nil
  then show ?case by simp
next
  case (Cons r rs)
  then show ?case
    by (cases "ProjectRole_Validate r"; cases "role_Destinations r")
       (auto split: option.splits if_splits simp del: ValidateRoleDestinations_None
          simp: ValidateRoleDestinations_def)
qed

lemma check_ns_chars_None:
  "check_ns_chars n i cs = None \<longleftrightarrow>
     (\<forall>c \<in> set cs. lower_alnum c \<or> c = CHR ''-'') \<and>
     (\<forall>k < length cs. i + k = 0 \<or> i + k = n - 1 \<longrightarrow> cs ! k \<noteq> CHR ''-'')"
proof (induction cs arbitrary: i)
  case Nil
  then show ?case by simp
next
  case (Cons c cs)
  have split: "(\<forall>k < length (c # cs). i + k = 0 \<or> i + k = n - 1 \<longrightarrow> (c # cs) ! k \<noteq> CHR ''-'') \<longleftrightarrow>
     (i = 0 \<or> i = n - 1 \<longrightarrow> c \<noteq> CHR ''-'') \<and>
     (\<forall>k < length cs. Suc i + k = 0 \<or> Suc i + k = n - 1 \<longrightarrow> cs ! k \<noteq> CHR ''-'')"
    by (simp add: All_less_Suc2)
  show ?case unfolding split using Cons [of "Suc i"] by (auto simp: lower_alnum_def)
qed

lemma ValidateNamespace_None [simp]: "ValidateNamespace ns = None \<longleftrightarrow> IsValidDNS1123Label ns"
proof (cases "ns = []")
  case True
  then show ?thesis by (simp add: ValidateNamespace_def IsValidDNS1123Label_def)
next
  case False
  have star: "\<not> lower_alnum (CHR ''-'')" by (simp add: lower_alnum_def is_lower_def is_digit_def)
  have "(\<forall>k < length ns. k = 0 \<or> k = length ns - 1 \<longrightarrow> ns ! k \<noteq> CHR ''-'') \<longleftrightarrow>
        hd ns \<noteq> CHR ''-'' \<and> last ns \<noteq> CHR ''-''"
    using False by (cases ns) (auto simp: hd_conv_nth last_conv_nth)
  moreover have "hd ns \<in> set ns" "last ns \<in> set ns" using False by simp_all
  ultimately show ?thesis
    using False star
    by (auto simp: ValidateNamespace_def IsValidDNS1123Label_def dns_label_regex_def
          check_ns_chars_None list_all_iff)
qed

definition wf_role :: "Destination list \<Rightarrow> ProjectRole \<Rightarrow> bool" where
  "wf_role dests r \<longleftrightarrow>
     dns_label_regex (role_Name r) \<and> role_Policies r \<noteq> [] \<and>
     distinct (role_Destinations r) \<and> [] \<notin> set (role_Destinations r) \<and>
     set (role_Destinations r) \<subseteq> dest_Namespace ` set dests"

definition wf_clusters :: "ProjectSpec \<Rightarrow> bool" where
  "wf_clusters spec \<longleftrightarrow>
     spec_Clusters spec = [] \<or>
     spec_Type spec \<noteq> ProjectTypePlatform \<and> IsValidDNS1123Label (spec_Namespace spec) \<and>
     distinct (map cb_ClusterRef (spec_Clusters spec)) \<and> [] \<notin> cb_ClusterRef ` set (spec_Clusters spec)"

definition wf_project_spec :: "ProjectSpec \<Rightarrow> bool" where
  "wf_project_spec spec \<longleftrightarrow>
     spec_Type spec \<in> {[], ProjectTypeApp, ProjectTypePlatform} \<and>
     wf_clusters spec \<and>
     spec_Destinations spec \<noteq> [] \<and>
     list_all (\<lambda>d. dns_label_regex (dest_Namespace d) \<or> IsWildcard (dest_Namespace d)) (spec_Destinations spec) \<and>
     list_all (\<lambda>r. res_Kind r \<noteq> [])
       (spec_ClusterResourceWhitelist spec @ spec_ClusterResourceBlacklist spec @
        spec_NamespaceResourceWhitelist spec @ spec_NamespaceResourceBlacklist spec) \<and>
     list_all (wf_role (spec_Destinations spec)) (spec_Roles spec) \<and>
     distinct (map role_Name (spec_Roles spec))"

lemma dns_label_nonempty: "dns_label_regex s \<Longrightarrow> s \<noteq> []"
  by (auto simp: dns_label_regex_def)

lemma ProjectRole_Validate_None [simp]:
  "ProjectRole_Validate r = None \<longleftrightarrow> dns_label_regex (role_Name r) \<and> role_Policies r \<noteq> []"
  by (auto simp: ProjectRole_Validate_def dest: dns_label_nonempty)

lemma Destination_Validate_None [simp]:
  "Destination_Validate d = None \<longleftrightarrow> dns_label_regex (dest_Namespace d) \<or> IsWildcard (dest_Namespace d)"
  by (auto simp: Destination_Validate_def IsWildcard_def dest: dns_label_nonempty)

lemma check_resources_None [simp]: "check_resources ctx rs = None \<longleftrightarrow> list_all (\<lambda>r. res_Kind r \<noteq> []) rs"
  by (auto simp: check_resources_def ResourceSpec_Validate_def list_all_iff)

lemma check_spec_type_None [simp]:
  "check_spec_type spec = None \<longleftrightarrow> spec_Type spec \<in> {[], ProjectTypeApp, ProjectTypePlatform}"
  by (simp add: check_spec_type_def)

lemma check_spec_clusters_None [simp]: "check_spec_clusters spec = None \<longleftrightarrow> wf_clusters spec"
proof -
  have "IsValidDNS1123Label [] = False" by (simp add: IsValidDNS1123Label_def)
  then show ?thesis
    by (auto simp: check_spec_clusters_def wf_clusters_def check_clusters_None Let_def)
qed

lemma ValidateProjectSpec_None: "ValidateProjectSpec spec = None \<longleftrightarrow> wf_project_spec spec"
  by (auto simp: ValidateProjectSpec_def wf_project_spec_def check_roles_None wf_role_def list_all_iff)

subsection \<open>Properties\<close>

text \<open>
  C7: \<open>MatchGlob\<close> computes what a star means. The greedy scan over the segments between the stars
  agrees with the recursive definition of a glob, in which a star stands for any text, on every
  pattern and text, as long as the pattern has fewer than 100 stars; a pattern with 100 stars or
  more matches nothing.
\<close>

theorem match_glob_is_glob:
  "MatchGlob pattern t = (count_list pattern (CHR ''*'') < 100 \<and> glob pattern t)"
  by (rule MatchGlob_iff)

text \<open>
  C8: \<open>ValidateProjectSpec\<close> accepts exactly the well-formed specifications: a known project type;
  cluster bindings only on an app project, with a valid namespace claim and distinct, non-empty
  cluster names; at least one destination, each a DNS label or a wildcard; resource lists that all
  name a kind; roles with distinct valid names, at least one policy each, and destinations that are
  distinct and taken from the destinations of the project.
\<close>

theorem validate_project_spec_exact:
  "ValidateProjectSpec spec = None \<longleftrightarrow> wf_project_spec spec"
  by (rule ValidateProjectSpec_None)

text \<open>
  C9: the three namespace matchers agree on the documented pattern shapes. For a pattern that is a
  literal, a literal followed by a star, a star followed by a literal, or a star alone,
  \<open>MatchNamespace\<close>, \<open>matchesWildcard\<close> and \<open>MatchGlob\<close> give the same answer for every namespace.
\<close>

theorem namespace_matchers_agree:
  assumes "CHR ''*'' \<notin> set lit" and "pattern \<noteq> []"
    and "pattern = lit \<or> pattern = lit @ ''*'' \<or> pattern = ''*'' @ lit"
  shows "MatchNamespace ns pattern = MatchGlob pattern ns \<and>
         matchesWildcard pattern ns = MatchGlob pattern ns"
proof -
  have mw: "matchesWildcard pattern ns = MatchNamespace ns pattern"
    using assms(2) by (auto simp: matchesWildcard_def MatchNamespace_def Let_def prefix_def suffix_def)
       (metis append_take_drop_id)+
  have few: "count_list pattern (CHR ''*'') < 100"
    using assms by (auto simp: count_list_0_iff)
  have "glob pattern ns = MatchNamespace ns pattern"
    using assms(3)
  proof (elim disjE)
    assume p: "pattern = lit"
    then have "last pattern \<noteq> CHR ''*''" "hd pattern \<noteq> CHR ''*''" "pattern \<noteq> ''*''"
      using assms(1,2) last_in_set [of lit] hd_in_set [of lit] by (metis list.set_intros(1))+
    then show ?thesis using p assms(1,2) by (simp add: MatchNamespace_def glob_exact)
  next
    assume p: "pattern = lit @ ''*''"
    have "glob pattern ns = prefix lit ns"
      unfolding p glob_literal [OF assms(1)] by (auto simp: glob_star glob_exact prefix_def simp del: glob.simps)
    then show ?thesis using p by (auto simp: MatchNamespace_def)
  next
    assume p: "pattern = ''*'' @ lit"
    have "glob pattern ns = suffix lit ns"
      using glob_star [of lit ns] assms(1) by (auto simp: p glob_exact suffix_def simp del: glob.simps)
    moreover have "lit \<noteq> [] \<Longrightarrow> last pattern \<noteq> CHR ''*''"
      using p assms(1) by (metis append_Cons append_Nil last_ConsR last_in_set)
    ultimately show ?thesis using p by (cases "lit = []") (auto simp: MatchNamespace_def)
  qed
  then show ?thesis using mw few by (simp add: MatchGlob_iff)
qed

theorem namespace_matchers_agree_witness:
  "MatchNamespace ''staging-team-a'' ''staging*'' = MatchGlob ''staging*'' ''staging-team-a''"
  using namespace_matchers_agree [of "''staging''" "''staging*''" "''staging-team-a''"] by simp

text \<open>
  A destination with a star at both ends passes validation, but the matchers read it
  differently: \<open>MatchGlob\<close>, which the deployment check uses, matches every namespace that contains
  the literal, while \<open>MatchNamespace\<close>, which instance filtering uses, matches none that is made of
  the characters of a namespace.
\<close>

theorem two_star_destination_split:
  assumes "CHR ''*'' \<notin> set lit" "lit \<noteq> []" "CHR ''*'' \<notin> set (u @ lit @ v)"
  shows "Destination_Validate \<lparr>dest_Namespace = ''*'' @ lit @ ''*'', dest_Name = nm\<rparr> = None \<and>
         MatchGlob (''*'' @ lit @ ''*'') (u @ lit @ v) \<and>
         \<not> MatchNamespace (u @ lit @ v) (''*'' @ lit @ ''*'')"
proof (intro conjI)
  show "Destination_Validate \<lparr>dest_Namespace = ''*'' @ lit @ ''*'', dest_Name = nm\<rparr> = None"
    by (simp add: IsWildcard_def)
  have "glob (lit @ ''*'') (lit @ v)"
    unfolding glob_literal [OF assms(1)] by (auto simp: glob_star glob_exact simp del: glob.simps)
  then have "glob (''*'' @ lit @ ''*'') (u @ lit @ v)"
    by (auto simp: glob_star simp del: glob.simps)
  moreover have "count_list lit (CHR ''*'') = 0" using assms(1) by (simp add: count_list_0_iff)
  ultimately show "MatchGlob (''*'' @ lit @ ''*'') (u @ lit @ v)" by (simp add: MatchGlob_iff)
  have "\<not> prefix (CHR ''*'' # lit) (u @ lit @ v)"
    using assms(2,3) by (cases u; cases lit) auto
  then show "\<not> MatchNamespace (u @ lit @ v) (''*'' @ lit @ ''*'')"
    by (simp add: MatchNamespace_def butlast_append)
qed

theorem two_star_destination_split_witness:
  "MatchGlob ''*prod*'' ''eu-prod-1'' \<and> \<not> MatchNamespace ''eu-prod-1'' ''*prod*''"
  using two_star_destination_split [of "''prod''" "''eu-''" "''-1''" "[]"] by simp

end
