(* ===== verification/Policy_Load.thy ===== *)
theory Policy_Load
  imports Casbin_Enforcer Authz_Cache Project_Model
begin

text \<open>
  The loading half of \<open>rbac/policy_enforcer.go\<close>: how the roles of a Project become policy rules and
  grouping rules of the engine, how they are removed, and how \<open>SyncPolicies\<close> keeps the engine in
  step with the projects that exist. The engine is any \<open>casbin_lib\<close>; the theorems hold for every
  engine with the documented behaviour (locale \<open>casbin_engine\<close>). The declarative side is
  \<open>project_rules\<close> and \<open>project_links\<close>: the rules and links a Project stands for. The lemmas show that
  a load touches nothing but its own project, even when it fails half way, that a successful load
  leaves exactly the declared rules, and that a sync leaves no rule of a project that is gone.
\<close>

subsection \<open>State\<close>

text \<open>
  \<open>policyEnforcer\<close>: the engine behind \<open>CasbinEnforcer\<close>, the keys of \<open>loadedProjects\<close>, the optional
  cache and its configuration, and the three \<open>int64\<close> metrics. Its mutex makes each step below atomic.
\<close>

record ('s, 'c) policyEnforcer =
  pe_engine :: 's
  pe_loaded :: "string list"
  pe_cache :: "'c option"
  pe_cacheEnabled :: bool
  pe_cacheTTL :: int
  pe_PolicyReloads :: "64 word"
  pe_BackgroundSyncs :: "64 word"
  pe_WatcherRestarts :: "64 word"

text \<open>
  \<open>ProjectReader\<close>, what the cluster answers at the time of the call: an error, or the projects; for
  a namespace the owning project, \<open>None\<close> for a nil project.
\<close>

record project_reader =
  pr_ListProjects :: "gerror + Project list"
  pr_FindProjectForNamespace :: "string \<Rightarrow> gerror + Project option"

record roleBinding =
  rb_Role :: string
  rb_Subject :: string
  rb_Type :: string

abbreviation "ErrAccessDenied \<equiv> Err ''access denied''"
abbreviation "ErrInvalidPolicy \<equiv> Err ''invalid policy''"
abbreviation "ErrProjectNotFound \<equiv> Err ''project not found''"
abbreviation "ErrInvalidRole \<equiv> Err ''invalid role''"

subsection \<open>Normalisation\<close>

definition resourceTypeMappings :: "(string \<times> string) list" where
  "resourceTypeMappings =
     [(''rgd'', ''rgds''), (''instance'', ''instances''), (''project'', ''projects''),
      (''repository'', ''repositories''), (''secret'', ''secrets''), (''*'', ''*'')]"

definition normalizeResourceType :: "string \<Rightarrow> string" where
  "normalizeResourceType resourceType =
     (case map_of resourceTypeMappings (to_lower resourceType) of
        Some plural \<Rightarrow> plural
      | None \<Rightarrow> resourceType)"

definition normalizeAction :: "string \<Rightarrow> string list" where
  "normalizeAction action =
     (let l = to_lower action
      in if l = ''view'' then [''list'', ''get'']
         else if l = ''*'' then [''*'']
         else if l = ''deploy'' then [''create'']
         else [action])"

subsection \<open>Built-in project policies\<close>

definition getBuiltInAdminPolicies :: "string \<Rightarrow> string list" where
  "getBuiltInAdminPolicies p =
     [''repositories/'' @ p @ ''/*, *, allow'',
      ''projects/'' @ p @ '', update, allow'',
      ''projects/'' @ p @ '', member-add, allow'',
      ''projects/'' @ p @ '', member-remove, allow'',
      ''instances/'' @ p @ ''/*, *, allow'',
      ''rgds/*, get, allow'',
      ''rgds/*, list, allow'',
      ''compliance/'' @ p @ ''/*, get, allow'',
      ''compliance/'' @ p @ ''/*, list, allow'',
      ''secrets/'' @ p @ ''/*, *, allow'']"

definition getBuiltInReadonlyPolicies :: "string \<Rightarrow> string list" where
  "getBuiltInReadonlyPolicies p =
     [''projects/'' @ p @ '', get, allow'',
      ''instances/'' @ p @ ''/*, get, allow'',
      ''instances/'' @ p @ ''/*, list, allow'',
      ''rgds/*, get, allow'',
      ''rgds/*, list, allow'',
      ''repositories/'' @ p @ ''/*, get, allow'',
      ''repositories/'' @ p @ ''/*, list, allow'',
      ''applications/'' @ p @ ''/*, get, allow'',
      ''applications/'' @ p @ ''/*, list, allow'',
      ''secrets/'' @ p @ ''/*, get, allow'',
      ''secrets/'' @ p @ ''/*, list, allow'']"

subsection \<open>Policy strings of a role\<close>

text \<open>
  The common first half of \<open>addPolicyFromString\<close> and \<open>addProjectScopedPolicyFromStringWithDests\<close>:
  object, action and effect of a policy string, \<open>None\<close> when it is blank. The subject field of the
  six-part form is dropped.
\<close>

definition policy_triple :: "string \<Rightarrow> gerror + (string \<times> string \<times> string) option" where
  "policy_triple policyStr0 =
     (let policyStr = trim_space policyStr0
      in if policyStr = [] then Inr None
         else if length policyStr > MaxPatternLength then Inl (Err ''policy string too long'')
         else (case map trim_space (split_on (CHR '','') policyStr) of
                 [object, action, eft] \<Rightarrow> Inr (Some (object, action, eft))
               | [_, _, resourceType0, action, scope, eft] \<Rightarrow>
                   (let resourceType = normalizeResourceType resourceType0;
                        object = (if scope = ''*'' then resourceType @ ''/*''
                                  else if resourceType = ''*'' then scope
                                  else resourceType @ ''/'' @ scope)
                    in Inr (Some (object, action, eft)))
               | _ \<Rightarrow> Inl (Err ''invalid policy format'')))"

definition add_rule :: "'s casbin_lib \<Rightarrow> string \<Rightarrow> string \<Rightarrow> string \<Rightarrow> string \<Rightarrow> 's \<Rightarrow> gerror option \<times> 's" where
  "add_rule lib subject object eft action s =
     wrap_st ''failed to add policy'' (err_st (ce_AddPolicy lib s subject object action eft))"

definition addPolicyFromString :: "'s casbin_lib \<Rightarrow> string \<Rightarrow> string \<Rightarrow> 's \<Rightarrow> gerror option \<times> 's" where
  "addPolicyFromString lib roleName policyStr s =
     (case policy_triple policyStr of
        Inl e \<Rightarrow> (Some e, s)
      | Inr None \<Rightarrow> (None, s)
      | Inr (Some (object, action, eft)) \<Rightarrow>
          (case ValidateEffect eft of
             Some e \<Rightarrow> (Some (Wrap ''add policy from string'' e), s)
           | None \<Rightarrow> each_st (add_rule lib roleName object eft) (normalizeAction action) s))"

definition addPolicyFromStringWithDests ::
  "'s casbin_lib \<Rightarrow> string \<Rightarrow> string \<Rightarrow> string list \<Rightarrow> string \<Rightarrow> 's \<Rightarrow> gerror option \<times> 's" where
  "addPolicyFromStringWithDests lib roleName policyStr0 destinations projectName s =
     (if length destinations = 0 then addPolicyFromString lib roleName policyStr0 s
      else (let policyStr = trim_space policyStr0;
                parts = map trim_space (split_on (CHR '','') policyStr)
            in if policyStr = [] then (None, s)
               else if length parts \<noteq> 3 then addPolicyFromString lib roleName policyStr s
               else (case find (\<lambda>pre. parts ! 0 = pre @ projectName @ ''/*'') [''instances/'', ''secrets/''] of
                       Some pre \<Rightarrow>
                         each_st (\<lambda>dest. addPolicyFromString lib roleName
                             (trim_suffix pre ''/'' @ ''/'' @ projectName @ ''/'' @ dest @ ''/*'' @
                              '', '' @ parts ! 1 @ '', '' @ parts ! 2)) destinations s
                     | None \<Rightarrow> addPolicyFromString lib roleName policyStr s)))"

definition scopeResourceToDestinations :: "string \<Rightarrow> string \<Rightarrow> string list \<Rightarrow> string list" where
  "scopeResourceToDestinations resourceType projectName destinations =
     (if length destinations = 0 then [resourceType @ ''/'' @ projectName @ ''/*'']
      else map (\<lambda>dest. resourceType @ ''/'' @ projectName @ ''/'' @ dest @ ''/*'') destinations)"

definition scopeObjectToProjectWithDestinations :: "string \<Rightarrow> string \<Rightarrow> string list \<Rightarrow> string list" where
  "scopeObjectToProjectWithDestinations projectName object destinations =
     (if object = ''*'' \<or> object = projectName @ ''/*''
      then [''projects/'' @ projectName]
           @ concat (map (\<lambda>res. scopeResourceToDestinations res projectName destinations) [''instances'', ''secrets''])
           @ map (\<lambda>res. res @ ''/'' @ projectName @ ''/*'') [''repositories'', ''compliance'']
           @ [''rgds/*'']
      else (case find (\<lambda>pre. object = pre @ ''*'') [''instances/'', ''secrets/''] of
              Some pre \<Rightarrow> scopeResourceToDestinations (trim_suffix pre ''/'') projectName destinations
            | None \<Rightarrow>
                (case find (\<lambda>pre. object = pre @ ''*'') [''repositories/'', ''compliance/''] of
                   Some pre \<Rightarrow> [trim_suffix pre ''/'' @ ''/'' @ projectName @ ''/*'']
                 | None \<Rightarrow>
                     (if object = ''projects/*'' then [''projects/'' @ projectName]
                      else if has_prefix object ''rgds/'' then [object]
                      else [object]))))"

definition scopeObjectToProject :: "string \<Rightarrow> string \<Rightarrow> string list" where
  "scopeObjectToProject projectName object = scopeObjectToProjectWithDestinations projectName object []"

definition addProjectScopedPolicyFromStringWithDests ::
  "'s casbin_lib \<Rightarrow> string \<Rightarrow> string \<Rightarrow> string \<Rightarrow> string list \<Rightarrow> 's \<Rightarrow> gerror option \<times> 's" where
  "addProjectScopedPolicyFromStringWithDests lib projectName roleName policyStr destinations s =
     (case policy_triple policyStr of
        Inl e \<Rightarrow> (Some e, s)
      | Inr None \<Rightarrow> (None, s)
      | Inr (Some (object, action, eft)) \<Rightarrow>
          (case ValidateEffect eft of
             Some e \<Rightarrow> (Some (Wrap ''add project-scoped policy'' e), s)
           | None \<Rightarrow>
               each_st (\<lambda>scopedObject. each_st (add_rule lib roleName scopedObject eft) (normalizeAction action))
                 (scopeObjectToProjectWithDestinations projectName object destinations) s))"

definition addProjectScopedPolicyFromString ::
  "'s casbin_lib \<Rightarrow> string \<Rightarrow> string \<Rightarrow> string \<Rightarrow> 's \<Rightarrow> gerror option \<times> 's" where
  "addProjectScopedPolicyFromString lib projectName roleName policyStr s =
     addProjectScopedPolicyFromStringWithDests lib projectName roleName policyStr [] s"

subsection \<open>Removing the policies of a project\<close>

text \<open>Errors of single removals are skipped (\<open>continue\<close>).\<close>

fun remove_rules :: "'s casbin_lib \<Rightarrow> string \<Rightarrow> string list list \<Rightarrow> 's \<Rightarrow> 's" where
  "remove_rules lib rolePrefix [] s = s"
| "remove_rules lib rolePrefix (p # ps) s =
     remove_rules lib rolePrefix ps
       (if length p < 1 then s
        else if has_prefix (p ! 0) rolePrefix \<and> length p \<ge> 4
        then snd (ce_RemovePolicy lib s (p ! 0) (p ! 1) (p ! 2) (p ! 3))
        else s)"

fun remove_groups_of_role :: "'s casbin_lib \<Rightarrow> string \<Rightarrow> string list \<Rightarrow> 's \<Rightarrow> 's" where
  "remove_groups_of_role lib role [] s = s"
| "remove_groups_of_role lib role (user # users) s =
     remove_groups_of_role lib role users
       (if has_prefix user ''group:'' then snd (ce_RemoveUserRole lib s user role) else s)"

fun remove_groups :: "'s casbin_lib \<Rightarrow> string \<Rightarrow> string list \<Rightarrow> 's \<Rightarrow> 's" where
  "remove_groups lib rolePrefix [] s = s"
| "remove_groups lib rolePrefix (role # roles) s =
     remove_groups lib rolePrefix roles
       (if has_prefix role rolePrefix
        then (case ce_GetUsersForRole lib s role of
                Inl _ \<Rightarrow> s
              | Inr users \<Rightarrow> remove_groups_of_role lib role users s)
        else s)"

definition removeProjectPoliciesLocked :: "'s casbin_lib \<Rightarrow> string \<Rightarrow> 's \<Rightarrow> gerror option \<times> 's" where
  "removeProjectPoliciesLocked lib projectName s =
     (case ce_GetAllPolicies lib s of
        Inl e \<Rightarrow> (Some (Wrap ''failed to get policies'' e), s)
      | Inr policies \<Rightarrow>
          (let rolePrefix = ''proj:'' @ projectName @ '':'';
               s1 = remove_rules lib rolePrefix policies s
           in case ce_GetAllRoles lib s1 of
                Inl e \<Rightarrow> (Some (Wrap ''failed to get roles'' e), s1)
              | Inr roles \<Rightarrow> (None, remove_groups lib rolePrefix roles s1)))"

subsection \<open>Loading a project\<close>

fun as_err :: "string \<Rightarrow> gerror \<Rightarrow> gerror option \<times> 's \<Rightarrow> gerror option \<times> 's" where
  "as_err ctx base (e, s) = (case e of None \<Rightarrow> (None, s) | Some _ \<Rightarrow> (Some (Wrap ctx base), s))"

definition add_group_link :: "'s casbin_lib \<Rightarrow> string \<Rightarrow> string \<Rightarrow> 's \<Rightarrow> gerror option \<times> 's" where
  "add_group_link lib roleName grpName s =
     (case FormatGroupSubject grpName of
        Inl _ \<Rightarrow> (None, s)
      | Inr groupSubject \<Rightarrow>
          wrap_st ''failed to add group to role'' (err_st (ce_AddUserRole lib s groupSubject roleName)))"

definition load_role :: "'s casbin_lib \<Rightarrow> string \<Rightarrow> ProjectRole \<Rightarrow> 's \<Rightarrow> gerror option \<times> 's" where
  "load_role lib projectName role s =
     (if role_Name role = [] then (None, s)
      else (case FormatProjectRole projectName (role_Name role) of
              Inl _ \<Rightarrow> (Some (Wrap ''format project role'' ErrInvalidRole), s)
            | Inr roleName \<Rightarrow>
                seq_st (each_st (\<lambda>policyStr s. as_err ''failed to add policy'' ErrInvalidPolicy
                           (addProjectScopedPolicyFromStringWithDests lib projectName roleName policyStr
                              (role_Destinations role) s)) (role_Policies role) s)
               (\<lambda>s. seq_st (if equal_fold (role_Name role) ''admin''
                       then each_st (\<lambda>policyStr s. as_err ''failed to add built-in admin policy'' ErrInvalidPolicy
                              (addPolicyFromStringWithDests lib roleName policyStr (role_Destinations role)
                                 projectName s)) (getBuiltInAdminPolicies projectName) s
                       else (None, s))
               (\<lambda>s. seq_st (if equal_fold (role_Name role) ''readonly''
                       then each_st (\<lambda>policyStr s. as_err ''failed to add built-in readonly policy'' ErrInvalidPolicy
                              (addPolicyFromStringWithDests lib roleName policyStr (role_Destinations role)
                                 projectName s)) (getBuiltInReadonlyPolicies projectName) s
                       else (None, s))
               (\<lambda>s. each_st (add_group_link lib roleName) (role_Groups role) s)))))"

text \<open>\<open>unmarshal\<close> is \<open>json.Unmarshal\<close> into a slice of bindings; an error drops the bindings.\<close>

definition extractRoleBindingsFromAnnotations ::
  "(string \<Rightarrow> gerror + roleBinding list) \<Rightarrow> Project \<Rightarrow> roleBinding list" where
  "extractRoleBindingsFromAnnotations unmarshal project =
     (case map_of (pj_Annotations project) ''knodex.io/role-bindings'' of
        None \<Rightarrow> []
      | Some bindingsJSON \<Rightarrow>
          (if bindingsJSON = [] then []
           else (case unmarshal bindingsJSON of Inl _ \<Rightarrow> [] | Inr bindings \<Rightarrow> bindings)))"

fun add_bindings :: "'s casbin_lib \<Rightarrow> string \<Rightarrow> roleBinding list \<Rightarrow> 's \<Rightarrow> 's" where
  "add_bindings lib projectName [] s = s"
| "add_bindings lib projectName (b # bs) s =
     add_bindings lib projectName bs
       (case FormatProjectRole projectName (rb_Role b) of
          Inl _ \<Rightarrow> s
        | Inr roleName \<Rightarrow>
            (if rb_Type b = ''group''
             then (case FormatGroupSubject (rb_Subject b) of
                     Inl _ \<Rightarrow> s
                   | Inr subject \<Rightarrow> snd (ce_AddUserRole lib s subject roleName))
             else snd (ce_AddUserRole lib s (rb_Subject b) roleName)))"

definition loadProjectPoliciesLocked ::
  "'s casbin_lib \<Rightarrow> (string \<Rightarrow> gerror + roleBinding list) \<Rightarrow> Project \<Rightarrow>
   ('s, 'c) policyEnforcer \<Rightarrow> gerror option \<times> ('s, 'c) policyEnforcer" where
  "loadProjectPoliciesLocked lib unmarshal project pe =
     (case seq_st (wrap_st ''failed to remove old policies''
                     (removeProjectPoliciesLocked lib (pj_Name project) (pe_engine pe)))
                  (each_st (load_role lib (pj_Name project)) (spec_Roles (pj_Spec project))) of
        (Some e, s) \<Rightarrow> (Some e, pe\<lparr>pe_engine := s\<rparr>)
      | (None, s) \<Rightarrow>
          (None, pe\<lparr>pe_engine := add_bindings lib (pj_Name project)
                      (extractRoleBindingsFromAnnotations unmarshal project) s,
                    pe_loaded := List.insert (pj_Name project) (pe_loaded pe)\<rparr>))"

subsection \<open>The public loaders\<close>

definition clear_cache_if_enabled :: "'c cache_ops \<Rightarrow> ('s, 'c) policyEnforcer \<Rightarrow> ('s, 'c) policyEnforcer" where
  "clear_cache_if_enabled ops pe =
     (if pe_cacheEnabled pe then pe\<lparr>pe_cache := map_option (co_Clear ops) (pe_cache pe)\<rparr> else pe)"

definition IncrementPolicyReloads :: "('s, 'c) policyEnforcer \<Rightarrow> ('s, 'c) policyEnforcer" where
  "IncrementPolicyReloads pe = pe\<lparr>pe_PolicyReloads := pe_PolicyReloads pe + 1\<rparr>"

definition IncrementBackgroundSyncs :: "('s, 'c) policyEnforcer \<Rightarrow> ('s, 'c) policyEnforcer" where
  "IncrementBackgroundSyncs pe = pe\<lparr>pe_BackgroundSyncs := pe_BackgroundSyncs pe + 1\<rparr>"

definition IncrementWatcherRestarts :: "('s, 'c) policyEnforcer \<Rightarrow> ('s, 'c) policyEnforcer" where
  "IncrementWatcherRestarts pe = pe\<lparr>pe_WatcherRestarts := pe_WatcherRestarts pe + 1\<rparr>"

text \<open>The argument is \<open>None\<close> for a nil project.\<close>

definition LoadProjectPolicies ::
  "'s casbin_lib \<Rightarrow> 'c cache_ops \<Rightarrow> (string \<Rightarrow> gerror + roleBinding list) \<Rightarrow> Project option \<Rightarrow>
   ('s, 'c) policyEnforcer \<Rightarrow> gerror option \<times> ('s, 'c) policyEnforcer" where
  "LoadProjectPolicies lib ops unmarshal project pe =
     (case project of
        None \<Rightarrow> (Some (Wrap ''project cannot be nil'' ErrProjectNotFound), pe)
      | Some p \<Rightarrow>
          (if pj_Name p = [] then (Some (Wrap ''project name cannot be empty'' ErrProjectNotFound), pe)
           else (case loadProjectPoliciesLocked lib unmarshal p pe of
                   (Some e, pe') \<Rightarrow> (Some (Wrap ''load project policies'' e), pe')
                 | (None, pe') \<Rightarrow> (None, IncrementPolicyReloads (clear_cache_if_enabled ops pe')))))"

definition RemoveProjectPolicies ::
  "'s casbin_lib \<Rightarrow> 'c cache_ops \<Rightarrow> string \<Rightarrow> ('s, 'c) policyEnforcer \<Rightarrow>
   gerror option \<times> ('s, 'c) policyEnforcer" where
  "RemoveProjectPolicies lib ops projectName pe =
     (if projectName = [] then (Some (Wrap ''project name cannot be empty'' ErrProjectNotFound), pe)
      else (let pe1 = clear_cache_if_enabled ops (pe\<lparr>pe_loaded := removeAll projectName (pe_loaded pe)\<rparr>)
            in case removeProjectPoliciesLocked lib projectName (pe_engine pe1) of
                 (e, s) \<Rightarrow> (e, pe1\<lparr>pe_engine := s\<rparr>)))"

text \<open>The two loops of \<open>SyncPolicies\<close>; the first argument collects the number of errors.\<close>

fun sync_load ::
  "'s casbin_lib \<Rightarrow> (string \<Rightarrow> gerror + roleBinding list) \<Rightarrow> Project list \<Rightarrow> nat \<Rightarrow>
   ('s, 'c) policyEnforcer \<Rightarrow> nat \<times> ('s, 'c) policyEnforcer" where
  "sync_load lib unmarshal [] n pe = (n, pe)"
| "sync_load lib unmarshal (p # ps) n pe =
     (if pj_Name p = [] then sync_load lib unmarshal ps (Suc n) pe
      else (case loadProjectPoliciesLocked lib unmarshal p pe of
              (None, pe') \<Rightarrow> sync_load lib unmarshal ps n pe'
            | (Some _, pe') \<Rightarrow> sync_load lib unmarshal ps (Suc n) pe'))"

fun sync_remove ::
  "'s casbin_lib \<Rightarrow> string list \<Rightarrow> string list \<Rightarrow> nat \<Rightarrow> ('s, 'c) policyEnforcer \<Rightarrow>
   nat \<times> ('s, 'c) policyEnforcer" where
  "sync_remove lib current [] n pe = (n, pe)"
| "sync_remove lib current (nm # names) n pe =
     (if nm \<in> set current then sync_remove lib current names n pe
      else (case removeProjectPoliciesLocked lib nm (pe_engine pe) of
              (e, s) \<Rightarrow>
                sync_remove lib current names (if e = None then n else Suc n)
                  (pe\<lparr>pe_engine := s, pe_loaded := removeAll nm (pe_loaded pe)\<rparr>)))"

definition SyncPolicies ::
  "'s casbin_lib \<Rightarrow> 'c cache_ops \<Rightarrow> (string \<Rightarrow> gerror + roleBinding list) \<Rightarrow> project_reader option \<Rightarrow>
   ('s, 'c) policyEnforcer \<Rightarrow> gerror option \<times> ('s, 'c) policyEnforcer" where
  "SyncPolicies lib ops unmarshal reader pe =
     (case reader of
        None \<Rightarrow> (Some (Err ''project service not configured''), pe)
      | Some rd \<Rightarrow>
          (case pr_ListProjects rd of
             Inl e \<Rightarrow> (Some (Wrap ''failed to list projects'' e), pe)
           | Inr projects \<Rightarrow>
               (case sync_load lib unmarshal projects 0 pe of
                  (n1, pe1) \<Rightarrow>
                    (case sync_remove lib (map pj_Name projects) (pe_loaded pe1) n1 pe1 of
                       (n2, pe2) \<Rightarrow>
                         (if n2 > 0 then Some (Err ''sync completed with errors'') else None,
                          IncrementBackgroundSyncs (clear_cache_if_enabled ops pe2))))))"

subsection \<open>What a project stands for\<close>

text \<open>Two objects have the same owner when their subject carries the role prefix of the same project.\<close>

definition owned :: "string \<Rightarrow> string list \<Rightarrow> bool" where
  "owned p rule \<longleftrightarrow> rule \<noteq> [] \<and> has_prefix (hd rule) (role_prefix p)"

definition group_link :: "string \<Rightarrow> string \<times> string \<Rightarrow> bool" where
  "group_link p l \<longleftrightarrow> has_prefix (fst l) ''group:'' \<and> has_prefix (snd l) (role_prefix p)"

text \<open>The rules of one policy string of a role, with and without scoping; none for a string that fails.\<close>

definition plain_rules :: "string \<Rightarrow> string \<Rightarrow> string list set" where
  "plain_rules roleName str =
     (case policy_triple str of
        Inr (Some (ob, a, e)) \<Rightarrow> (if e \<in> {''allow'', ''deny''} then (\<lambda>na. [roleName, ob, na, e]) ` set (normalizeAction a) else {})
      | _ \<Rightarrow> {})"

definition scoped_rules :: "string \<Rightarrow> string list \<Rightarrow> string \<Rightarrow> string \<Rightarrow> string list set" where
  "scoped_rules projectName dests roleName str =
     (case policy_triple str of
        Inr (Some (ob, a, e)) \<Rightarrow>
          (if e \<in> {''allow'', ''deny''}
           then (\<Union>so \<in> set (scopeObjectToProjectWithDestinations projectName ob dests).
                   (\<lambda>na. [roleName, so, na, e]) ` set (normalizeAction a))
           else {})
      | _ \<Rightarrow> {})"

text \<open>The strings that \<open>addPolicyFromStringWithDests\<close> adds for one built-in policy.\<close>

definition dest_strings :: "string \<Rightarrow> string list \<Rightarrow> string \<Rightarrow> string list" where
  "dest_strings projectName dests str0 =
     (if length dests = 0 then [str0]
      else (let str = trim_space str0; parts = map trim_space (split_on (CHR '','') str)
            in if str = [] then []
               else if length parts \<noteq> 3 then [str]
               else (case find (\<lambda>pre. parts ! 0 = pre @ projectName @ ''/*'') [''instances/'', ''secrets/''] of
                       Some pre \<Rightarrow>
                         map (\<lambda>dest. trim_suffix pre ''/'' @ ''/'' @ projectName @ ''/'' @ dest @ ''/*'' @
                                '', '' @ parts ! 1 @ '', '' @ parts ! 2) dests
                     | None \<Rightarrow> [str])))"

definition role_strings :: "string \<Rightarrow> ProjectRole \<Rightarrow> string list" where
  "role_strings projectName role =
     concat (map (dest_strings projectName (role_Destinations role))
       ((if equal_fold (role_Name role) ''admin'' then getBuiltInAdminPolicies projectName else []) @
        (if equal_fold (role_Name role) ''readonly'' then getBuiltInReadonlyPolicies projectName else [])))"

definition role_rules :: "string \<Rightarrow> ProjectRole \<Rightarrow> string list set" where
  "role_rules projectName role =
     (if role_Name role = [] then {}
      else (\<Union>str \<in> set (role_Policies role).
              scoped_rules projectName (role_Destinations role) (role_prefix projectName @ role_Name role) str) \<union>
           (\<Union>str \<in> set (role_strings projectName role).
              plain_rules (role_prefix projectName @ role_Name role) str))"

definition role_links :: "string \<Rightarrow> ProjectRole \<Rightarrow> (string \<times> string) set" where
  "role_links projectName role =
     (if role_Name role = [] then {}
      else (\<lambda>g. (''group:'' @ g, role_prefix projectName @ role_Name role)) ` {g \<in> set (role_Groups role). valid_ident g})"

definition project_rules :: "Project \<Rightarrow> string list set" where
  "project_rules p = (\<Union>role \<in> set (spec_Roles (pj_Spec p)). role_rules (pj_Name p) role)"

definition project_role_links :: "Project \<Rightarrow> (string \<times> string) set" where
  "project_role_links p = (\<Union>role \<in> set (spec_Roles (pj_Spec p)). role_links (pj_Name p) role)"

definition binding_link :: "string \<Rightarrow> roleBinding \<Rightarrow> (string \<times> string) set" where
  "binding_link projectName b =
     (case FormatProjectRole projectName (rb_Role b) of
        Inl _ \<Rightarrow> {}
      | Inr roleName \<Rightarrow>
          (if rb_Type b = ''group''
           then (if valid_ident (rb_Subject b) then {(''group:'' @ rb_Subject b, roleName)} else {})
           else {(rb_Subject b, roleName)}))"

definition binding_links :: "(string \<Rightarrow> gerror + roleBinding list) \<Rightarrow> Project \<Rightarrow> (string \<times> string) set" where
  "binding_links unmarshal p =
     (\<Union>b \<in> set (extractRoleBindingsFromAnnotations unmarshal p). binding_link (pj_Name p) b)"

lemma scoped_rules_owned: "r \<in> scoped_rules p ds (role_prefix p @ n) str \<Longrightarrow> owned p r \<and> length r = 4"
  by (auto simp: scoped_rules_def owned_def role_prefix_def split: sum.splits option.splits if_splits)

lemma plain_rules_owned: "r \<in> plain_rules (role_prefix p @ n) str \<Longrightarrow> owned p r \<and> length r = 4"
  by (auto simp: plain_rules_def owned_def role_prefix_def split: sum.splits option.splits if_splits)

lemma project_rules_owned: "r \<in> project_rules p \<Longrightarrow> owned (pj_Name p) r \<and> length r = 4"
  unfolding project_rules_def role_rules_def
  using scoped_rules_owned plain_rules_owned by (fastforce split: if_splits)

lemma role_links_owned: "l \<in> project_role_links p \<Longrightarrow> group_link (pj_Name p) l"
  by (auto simp: project_role_links_def role_links_def group_link_def split: if_splits)

lemma binding_links_owned:
  assumes "l \<in> binding_links um p"
  shows "has_prefix (snd l) (role_prefix (pj_Name p))"
proof -
  obtain b where l: "l \<in> binding_link (pj_Name p) b" using assms by (auto simp: binding_links_def)
  then obtain rn where rn: "FormatProjectRole (pj_Name p) (rb_Role b) = Inr rn" and "snd l = rn"
    by (auto simp: binding_link_def split: sum.splits if_splits)
  then show ?thesis using rn [unfolded FormatProjectRole_Inr] by simp
qed

lemma owned_disjoint:
  assumes "CHR '':'' \<notin> set p" "CHR '':'' \<notin> set q" "p \<noteq> q" "owned p r"
  shows "\<not> owned q r"
proof
  assume "owned q r"
  then obtain x y where "hd r = role_prefix p @ x" "hd r = role_prefix q @ y"
    using assms(4) by (auto simp: owned_def prefix_def)
  then have "p @ CHR '':'' # x = q @ CHR '':'' # y" by (simp add: role_prefix_def)
  then show False using sep_unique assms(1-3) by metis
qed

definition listed :: "Project list \<Rightarrow> bool" where
  "listed ps \<longleftrightarrow> distinct (map pj_Name ps) \<and> (\<forall>P \<in> set ps. pj_Name P \<noteq> [] \<and> CHR '':'' \<notin> set (pj_Name P))"

subsection \<open>Effects on any engine\<close>

lemma each_st_single: "each_st f [x] s = f x s"
  by (cases "f x s"; cases "fst (f x s)") auto

lemma each_st_concat: "each_st f (concat xss) s = each_st (each_st f) xss s"
proof (induction xss arbitrary: s)
  case Nil
  then show ?case by simp
next
  case (Cons xs xss)
  have app: "each_st f (xs @ ys) s = seq_st (each_st f xs s) (each_st f ys)" for ys s
  proof (induction xs arbitrary: s)
    case Nil
    then show ?case by simp
  next
    case (Cons x xs)
    then show ?case by (cases "f x s"; cases "fst (f x s)") auto
  qed
  have "each_st f (concat xss) = each_st (each_st f) xss" using Cons.IH by blast
  then show ?case using app by simp
qed

lemma addPolicyFromStringWithDests_each:
  "addPolicyFromStringWithDests lib rn str ds p s = each_st (addPolicyFromString lib rn) (dest_strings p ds str) s"
proof -
  have map: "each_st f (map g xs) s = each_st (\<lambda>x. f (g x)) xs s"
    for f :: "string \<Rightarrow> 'a \<Rightarrow> gerror option \<times> 'a" and g :: "string \<Rightarrow> string" and xs
    by (induction xs arbitrary: s) (auto intro: arg_cong2 [where f = seq_st])
  show ?thesis
    by (simp add: addPolicyFromStringWithDests_def dest_strings_def Let_def each_st_single map
        del: each_st.simps(2) split: option.splits)
qed

context casbin_engine begin

text \<open>
  \<open>grows R G s r\<close>: the step from \<open>s\<close> to \<open>r\<close> adds only rules of \<open>R\<close> and links of \<open>G\<close>, and all of them
  when it reports no error.
\<close>

definition grows ::
  "string list set \<Rightarrow> (string \<times> string) set \<Rightarrow> 's \<Rightarrow> gerror option \<times> 's \<Rightarrow> bool" where
  "grows R G s r \<longleftrightarrow>
     pol s \<subseteq> pol (snd r) \<and> pol (snd r) \<subseteq> pol s \<union> R \<and>
     grp s \<subseteq> grp (snd r) \<and> grp (snd r) \<subseteq> grp s \<union> G \<and> grp2 (snd r) = grp2 s \<and>
     (fst r = None \<longrightarrow> R \<subseteq> pol (snd r) \<and> G \<subseteq> grp (snd r))"

lemma grows_none: "grows {} {} s (None, s)"
  by (simp add: grows_def)

lemma grows_err: "grows R G s (Some e, s)"
  by (auto simp: grows_def)

lemma grows_seq:
  assumes "grows R1 G1 s r" "\<And>t. grows R2 G2 t (f t)"
  shows "grows (R1 \<union> R2) (G1 \<union> G2) s (seq_st r f)"
proof (cases r f rule: seq_st_cases)
  case (ok t)
  have 1: "pol s \<subseteq> pol t" "pol t \<subseteq> pol s \<union> R1" "R1 \<subseteq> pol t" "grp s \<subseteq> grp t" "grp t \<subseteq> grp s \<union> G1"
      "G1 \<subseteq> grp t" "grp2 t = grp2 s"
    using assms(1) by (simp_all add: grows_def ok(1))
  have 2: "pol t \<subseteq> pol (snd (f t))" "pol (snd (f t)) \<subseteq> pol t \<union> R2" "grp t \<subseteq> grp (snd (f t))"
      "grp (snd (f t)) \<subseteq> grp t \<union> G2" "grp2 (snd (f t)) = grp2 t"
      "fst (f t) = None \<longrightarrow> R2 \<subseteq> pol (snd (f t)) \<and> G2 \<subseteq> grp (snd (f t))"
    using assms(2) [of t] by (simp_all add: grows_def)
  show ?thesis unfolding ok(2) grows_def using 1 2 by blast
next
  case (fail e t)
  have "pol s \<subseteq> pol t" "pol t \<subseteq> pol s \<union> R1" "grp s \<subseteq> grp t" "grp t \<subseteq> grp s \<union> G1" "grp2 t = grp2 s"
    using assms(1) by (simp_all add: grows_def fail(1))
  then show ?thesis unfolding fail(2) grows_def by auto
qed

lemma grows_each:
  "(\<And>x s. x \<in> set xs \<Longrightarrow> grows (R x) (G x) s (f x s)) \<Longrightarrow>
   grows (\<Union>x \<in> set xs. R x) (\<Union>x \<in> set xs. G x) s (each_st f xs s)"
proof (induction xs arbitrary: s)
  case Nil
  then show ?case by (simp add: grows_none)
next
  case (Cons x xs)
  then show ?case by (simp add: grows_seq)
qed

lemma grows_wrap: "grows R G s r \<Longrightarrow> grows R G s (wrap_st c r)"
  by (simp add: grows_def)

lemma grows_as_err: "grows R G s r \<Longrightarrow> grows R G s (as_err c b r)"
  by (cases r; cases "fst r") (auto simp: grows_def)

lemma grows_add_rule: "grows {[sub, ob, a, e]} {} s (add_rule lib sub ob e a s)"
  using AddPolicy [of s "[sub, ob, a, e]"]
  by (auto simp: add_rule_def ce_AddPolicy_def grows_def)

lemma grows_add_link: "grows {} {(u, r)} s (err_st (ce_AddUserRole lib s u r))"
  using AddGroupingPolicy [of s u r] by (auto simp: ce_AddUserRole_def grows_def)

lemma grows_string: "grows (plain_rules rn str) {} s (addPolicyFromString lib rn str s)"
proof (cases "policy_triple str")
  case (Inl e)
  then show ?thesis by (simp add: addPolicyFromString_def grows_err)
next
  case (Inr t)
  show ?thesis
  proof (cases t)
    case None
    then show ?thesis using Inr by (simp add: addPolicyFromString_def plain_rules_def grows_none)
  next
    case (Some x)
    obtain ob a e where x: "x = (ob, a, e)" by (cases x)
    show ?thesis
    proof (cases "ValidateEffect e")
      case None
      then have e: "e \<in> {''allow'', ''deny''}" by simp
      have "grows (\<Union>na \<in> set (normalizeAction a). {[rn, ob, na, e]}) (\<Union>na \<in> set (normalizeAction a). {})
              s (each_st (add_rule lib rn ob e) (normalizeAction a) s)"
        by (rule grows_each) (rule grows_add_rule)
      moreover have "plain_rules rn str = (\<Union>na \<in> set (normalizeAction a). {[rn, ob, na, e]})"
        using Inr Some x e by (auto simp: plain_rules_def)
      ultimately show ?thesis using Inr Some x None by (simp add: addPolicyFromString_def del: ValidateEffect_None)
    next
      case (Some e')
      then show ?thesis using Inr \<open>t = Some x\<close> x by (simp add: addPolicyFromString_def grows_err)
    qed
  qed
qed

lemma grows_scoped:
  "grows (scoped_rules p ds rn str) {} s (addProjectScopedPolicyFromStringWithDests lib p rn str ds s)"
proof (cases "policy_triple str")
  case (Inl e)
  then show ?thesis by (simp add: addProjectScopedPolicyFromStringWithDests_def grows_err)
next
  case (Inr t)
  show ?thesis
  proof (cases t)
    case None
    then show ?thesis using Inr
      by (simp add: addProjectScopedPolicyFromStringWithDests_def scoped_rules_def grows_none)
  next
    case (Some x)
    obtain ob a e where x: "x = (ob, a, e)" by (cases x)
    let ?obs = "scopeObjectToProjectWithDestinations p ob ds"
    show ?thesis
    proof (cases "ValidateEffect e")
      case None
      then have e: "e \<in> {''allow'', ''deny''}" by simp
      have "grows (\<Union>so \<in> set ?obs. \<Union>na \<in> set (normalizeAction a). {[rn, so, na, e]})
              (\<Union>so \<in> set ?obs. \<Union>na \<in> set (normalizeAction a). {})
              s (each_st (\<lambda>so. each_st (add_rule lib rn so e) (normalizeAction a)) ?obs s)"
        by (rule grows_each, rule grows_each, rule grows_add_rule)
      moreover have "scoped_rules p ds rn str = (\<Union>so \<in> set ?obs. \<Union>na \<in> set (normalizeAction a). {[rn, so, na, e]})"
        using Inr Some x e by (auto simp: scoped_rules_def)
      ultimately show ?thesis using Inr Some x None
        by (simp add: addProjectScopedPolicyFromStringWithDests_def del: ValidateEffect_None)
    next
      case (Some e')
      then show ?thesis using Inr \<open>t = Some x\<close> x
        by (simp add: addProjectScopedPolicyFromStringWithDests_def grows_err)
    qed
  qed
qed

lemma grows_group: "grows {} (if valid_ident g then {(''group:'' @ g, rn)} else {}) s (add_group_link lib rn g s)"
proof (cases "FormatGroupSubject g")
  case (Inl e)
  then have "\<not> valid_ident g" by (rule FormatGroupSubject_Inl)
  then show ?thesis using Inl by (simp add: add_group_link_def grows_none)
next
  case (Inr x)
  then have "valid_ident g" "x = ''group:'' @ g" using FormatGroupSubject_Inr by auto
  then show ?thesis using Inr grows_wrap [OF grows_add_link] by (simp add: add_group_link_def)
qed

lemma grows_strings:
  "grows (\<Union>str \<in> set (concat (map (dest_strings p ds) strs)). plain_rules rn str) {} s
     (each_st (\<lambda>str s. as_err c b (addPolicyFromStringWithDests lib rn str ds p s)) strs s)"
proof -
  have "grows (\<Union>str \<in> set strs. \<Union>x \<in> set (dest_strings p ds str). plain_rules rn x) (\<Union>str \<in> set strs. \<Union>x \<in> set (dest_strings p ds str). {}) s
     (each_st (\<lambda>str s. as_err c b (addPolicyFromStringWithDests lib rn str ds p s)) strs s)"
    by (rule grows_each, rule grows_as_err, unfold addPolicyFromStringWithDests_each, rule grows_each,
        rule grows_string)
  then show ?thesis by simp
qed

lemma grows_role: "grows (role_rules p role) (role_links p role) s (load_role lib p role s)"
proof (cases "role_Name role = []")
  case True
  then show ?thesis by (simp add: load_role_def role_rules_def role_links_def grows_none)
next
  case named: False
  show ?thesis
  proof (cases "FormatProjectRole p (role_Name role)")
    case (Inl e)
    then show ?thesis using named by (simp add: load_role_def grows_err)
  next
    case (Inr rn)
    then have rn: "rn = role_prefix p @ role_Name role" by (simp add: FormatProjectRole_Inr)
    let ?ds = "role_Destinations role"
    let ?S = "\<lambda>strs. \<Union>str \<in> set (concat (map (dest_strings p ?ds) strs)). plain_rules rn str"
    let ?adm = "if equal_fold (role_Name role) ''admin'' then getBuiltInAdminPolicies p else []"
    let ?ro = "if equal_fold (role_Name role) ''readonly'' then getBuiltInReadonlyPolicies p else []"
    have 1: "grows (\<Union>str \<in> set (role_Policies role). scoped_rules p ?ds rn str) {} s
       (each_st (\<lambda>str s. as_err c b (addProjectScopedPolicyFromStringWithDests lib p rn str ?ds s))
          (role_Policies role) s)" for s c b
      using grows_each [where R = "scoped_rules p ?ds rn" and G = "\<lambda>_. {}"] grows_as_err [OF grows_scoped]
      by fastforce
    have 2: "grows (?S ?adm) {} s (if equal_fold (role_Name role) ''admin''
        then each_st (\<lambda>str s. as_err c b (addPolicyFromStringWithDests lib rn str ?ds p s)) (getBuiltInAdminPolicies p) s
        else (None, s))" for s c b
      by (cases "equal_fold (role_Name role) ''admin''") (simp_all add: grows_strings [simplified] grows_none)
    have 3: "grows (?S ?ro) {} s (if equal_fold (role_Name role) ''readonly''
        then each_st (\<lambda>str s. as_err c b (addPolicyFromStringWithDests lib rn str ?ds p s)) (getBuiltInReadonlyPolicies p) s
        else (None, s))" for s c b
      by (cases "equal_fold (role_Name role) ''readonly''") (simp_all add: grows_strings [simplified] grows_none)
    have 4: "grows {} (\<Union>g \<in> set (role_Groups role). if valid_ident g then {(''group:'' @ g, rn)} else {}) s
        (each_st (add_group_link lib rn) (role_Groups role) s)" for s
      using grows_each [where R = "\<lambda>_. {}" and G = "\<lambda>g. if valid_ident g then {(''group:'' @ g, rn)} else {}"]
        grows_group by fastforce
    have rules: "role_rules p role = (\<Union>str \<in> set (role_Policies role). scoped_rules p ?ds rn str) \<union> (?S ?adm \<union> (?S ?ro \<union> {}))"
      using named by (auto simp: role_rules_def role_strings_def rn)
    have links: "role_links p role = {} \<union> ({} \<union> ({} \<union> (\<Union>g \<in> set (role_Groups role). if valid_ident g then {(''group:'' @ g, rn)} else {})))"
      using named by (auto simp: role_links_def rn)
    show ?thesis
      unfolding rules links load_role_def
      using named Inr by (simp only: if_False sum.case) (intro grows_seq 1 2 3 4)
  qed
qed

lemma grows_roles: "grows (\<Union>role \<in> set roles. role_rules p role) (\<Union>role \<in> set roles. role_links p role) s
    (each_st (load_role lib p) roles s)"
  by (rule grows_each) (rule grows_role)

text \<open>Every rule in the engine has the four fields of the model.\<close>

definition rules4 :: "'s \<Rightarrow> bool" where
  "rules4 s \<longleftrightarrow> (\<forall>q \<in> pol s. length q = 4)"

lemma remove_rules_effect:
  "\<forall>q \<in> set ps. length q = 4 \<Longrightarrow>
   pol (remove_rules lib pre ps s) = pol s - {q \<in> set ps. has_prefix (hd q) pre} \<and>
   grp (remove_rules lib pre ps s) = grp s \<and> grp2 (remove_rules lib pre ps s) = grp2 s"
proof (induction ps arbitrary: s)
  case Nil
  then show ?case by simp
next
  case (Cons q ps)
  obtain a b c d where q: "q = [a, b, c, d]"
    using Cons.prems by (auto simp: length_Suc_conv eval_nat_numeral)
  show ?case
    using Cons RemovePolicy [of s q] by (auto simp: q ce_RemovePolicy_def)
qed

lemma remove_groups_of_role_effect:
  "grp (remove_groups_of_role lib r us s) = grp s - {(u, r) | u. u \<in> set us \<and> has_prefix u ''group:''} \<and>
   pol (remove_groups_of_role lib r us s) = pol s \<and> grp2 (remove_groups_of_role lib r us s) = grp2 s"
proof (induction us arbitrary: s)
  case Nil
  then show ?case by simp
next
  case (Cons u us)
  show ?case
    using Cons.IH [of s] Cons.IH [of "snd (ce_RemoveUserRole lib s u r)"] RemoveGroupingPolicy [of s u r]
    by (auto simp: ce_RemoveUserRole_def)
qed

lemma remove_groups_effect:
  "grp (remove_groups lib pre rs s)
     = grp s - {l \<in> grp s. snd l \<in> set rs \<and> has_prefix (snd l) pre \<and> has_prefix (fst l) ''group:''} \<and>
   pol (remove_groups lib pre rs s) = pol s \<and> grp2 (remove_groups lib pre rs s) = grp2 s"
proof (induction rs arbitrary: s)
  case Nil
  then show ?case by simp
next
  case (Cons r rs)
  obtain us where us: "ce_GetUsersForRole lib s r = Inr us" "set us = {u. (u, r) \<in> grp s}"
    using GetUsersForRole [of s r] by (auto simp: ce_GetUsersForRole_def)
  show ?case
  proof (cases "has_prefix r pre")
    case True
    let ?t = "remove_groups_of_role lib r us s"
    have "grp ?t = grp s - {l \<in> grp s. snd l = r \<and> has_prefix (fst l) ''group:''}"
      using remove_groups_of_role_effect [of r us s] us(2) by auto
    then show ?thesis
      using Cons.IH [of ?t] True us remove_groups_of_role_effect [of r us s] by auto
  next
    case False
    then show ?thesis using Cons.IH [of s] by auto
  qed
qed

lemma remove_effect:
  assumes "rules4 s"
  shows "\<exists>s'. removeProjectPoliciesLocked lib p s = (None, s') \<and>
           pol s' = {q \<in> pol s. \<not> owned p q} \<and> grp s' = {l \<in> grp s. \<not> group_link p l} \<and> grp2 s' = grp2 s"
proof -
  obtain ps where ps: "ce_GetAllPolicies lib s = Inr ps" "set ps = pol s"
    using GetPolicy [of s] by (auto simp: ce_GetAllPolicies_def)
  have pre: "''proj:'' @ p @ '':'' = role_prefix p" by (simp add: role_prefix_def)
  let ?s1 = "remove_rules lib (role_prefix p) ps s"
  have s1: "pol ?s1 = {q \<in> pol s. \<not> owned p q}" "grp ?s1 = grp s" "grp2 ?s1 = grp2 s"
    using remove_rules_effect [of ps "role_prefix p" s] assms ps by (auto simp: rules4_def owned_def)
  obtain rs where rs: "ce_GetAllRoles lib ?s1 = Inr rs" "snd ` grp ?s1 \<subseteq> set rs"
    using GetAllRoles [of ?s1] by (auto simp: ce_GetAllRoles_def)
  have "grp (remove_groups lib (role_prefix p) rs ?s1) = {l \<in> grp s. \<not> group_link p l}"
    using remove_groups_effect [of "role_prefix p" rs ?s1] s1 rs(2) by (auto simp: group_link_def)
  moreover have "removeProjectPoliciesLocked lib p s = (None, remove_groups lib (role_prefix p) rs ?s1)"
    unfolding removeProjectPoliciesLocked_def pre Let_def using ps rs by simp
  ultimately show ?thesis
    using remove_groups_effect [of "role_prefix p" rs ?s1] s1 by auto
qed

lemma add_bindings_effect:
  "pol (add_bindings lib p bs s) = pol s \<and> grp2 (add_bindings lib p bs s) = grp2 s \<and>
   grp (add_bindings lib p bs s) = grp s \<union> (\<Union>b \<in> set bs. binding_link p b)"
proof (induction bs arbitrary: s)
  case Nil
  then show ?case by simp
next
  case (Cons b bs)
  show ?case
  proof (cases "FormatProjectRole p (rb_Role b)")
    case (Inl e)
    then show ?thesis using Cons.IH by (simp add: binding_link_def)
  next
    case (Inr rn)
    show ?thesis
    proof (cases "rb_Type b = ''group''")
      case user: False
      then show ?thesis
        using Inr Cons.IH [of "snd (ce_AddUserRole lib s (rb_Subject b) rn)"]
          AddGroupingPolicy [of s "rb_Subject b" rn]
        by (auto simp: binding_link_def ce_AddUserRole_def)
    next
      case grp: True
      show ?thesis
      proof (cases "FormatGroupSubject (rb_Subject b)")
        case (Inl e)
        then have "\<not> valid_ident (rb_Subject b)" by (rule FormatGroupSubject_Inl)
        then show ?thesis using Inr Inl grp Cons.IH [of s] by (simp add: binding_link_def)
      next
        case (Inr x)
        then have x: "valid_ident (rb_Subject b)" "x = ''group:'' @ rb_Subject b"
          using FormatGroupSubject_Inr by auto
        then show ?thesis
          using Inr \<open>FormatProjectRole p (rb_Role b) = Inr rn\<close> grp
            Cons.IH [of "snd (ce_AddUserRole lib s x rn)"] AddGroupingPolicy [of s x rn]
          by (auto simp: binding_link_def ce_AddUserRole_def)
      qed
    qed
  qed
qed

text \<open>The part of an engine that does not belong to a project, and the part that does.\<close>

definition foreign_rules :: "string \<Rightarrow> 's \<Rightarrow> string list set" where
  "foreign_rules p s = {q \<in> pol s. \<not> owned p q}"

definition own_rules :: "string \<Rightarrow> 's \<Rightarrow> string list set" where
  "own_rules p s = {q \<in> pol s. owned p q}"

definition kept_links :: "string \<Rightarrow> 's \<Rightarrow> (string \<times> string) set" where
  "kept_links p s = {l \<in> grp s. \<not> group_link p l}"

lemma load_engine_effect:
  assumes "rules4 s"
    and "seq_st (wrap_st c (removeProjectPoliciesLocked lib (pj_Name P) s))
           (each_st (load_role lib (pj_Name P)) (spec_Roles (pj_Spec P))) = (e, s')"
  shows "foreign_rules (pj_Name P) s' = foreign_rules (pj_Name P) s \<and>
         own_rules (pj_Name P) s' \<subseteq> project_rules P \<and> rules4 s' \<and> grp2 s' = grp2 s \<and>
         kept_links (pj_Name P) s \<subseteq> grp s' \<and> grp s' \<subseteq> kept_links (pj_Name P) s \<union> project_role_links P \<and>
         (e = None \<longrightarrow> own_rules (pj_Name P) s' = project_rules P \<and>
                       grp s' = kept_links (pj_Name P) s \<union> project_role_links P)"
proof -
  let ?p = "pj_Name P"
  obtain t where t: "removeProjectPoliciesLocked lib ?p s = (None, t)" "pol t = {q \<in> pol s. \<not> owned ?p q}"
      "grp t = kept_links ?p s" "grp2 t = grp2 s"
    using remove_effect [OF assms(1), of ?p] unfolding kept_links_def by blast
  have r: "each_st (load_role lib ?p) (spec_Roles (pj_Spec P)) t = (e, s')"
    using assms(2) t(1) by simp
  have g: "grows (project_rules P) (project_role_links P) t (e, s')"
    using grows_roles [of ?p "spec_Roles (pj_Spec P)" t]
    unfolding r project_rules_def project_role_links_def .
  have own: "q \<in> project_rules P \<Longrightarrow> owned ?p q \<and> length q = 4" for q by (rule project_rules_owned)
  have R: "pol t \<subseteq> pol s'" "pol s' \<subseteq> pol t \<union> project_rules P" "grp t \<subseteq> grp s'"
      "grp s' \<subseteq> grp t \<union> project_role_links P" "grp2 s' = grp2 t"
      "e = None \<longrightarrow> project_rules P \<subseteq> pol s' \<and> project_role_links P \<subseteq> grp s'"
    using g by (simp_all add: grows_def)
  have f: "foreign_rules ?p s' = foreign_rules ?p s"
    using R(1,2) t(2) own by (auto simp: foreign_rules_def)
  have o: "own_rules ?p s' \<subseteq> project_rules P"
    using R(2) t(2) by (auto simp: own_rules_def)
  have "own_rules ?p s' = project_rules P" if "e = None"
    using that o R(6) own by (auto simp: own_rules_def)
  moreover have "rules4 s'" using R(2) t(2) assms(1) own by (auto simp: rules4_def)
  ultimately show ?thesis using f o R t(3,4) by auto
qed

lemma load_effect:
  assumes "rules4 (pe_engine pe)" "loadProjectPoliciesLocked lib um P pe = (e, pe')"
  shows "foreign_rules (pj_Name P) (pe_engine pe') = foreign_rules (pj_Name P) (pe_engine pe) \<and>
         own_rules (pj_Name P) (pe_engine pe') \<subseteq> project_rules P \<and>
         rules4 (pe_engine pe') \<and> grp2 (pe_engine pe') = grp2 (pe_engine pe) \<and>
         kept_links (pj_Name P) (pe_engine pe) \<subseteq> grp (pe_engine pe') \<and>
         grp (pe_engine pe') \<subseteq> kept_links (pj_Name P) (pe_engine pe) \<union> project_role_links P \<union> binding_links um P \<and>
         (e = None \<longrightarrow>
            own_rules (pj_Name P) (pe_engine pe') = project_rules P \<and>
            grp (pe_engine pe') = kept_links (pj_Name P) (pe_engine pe) \<union> project_role_links P \<union> binding_links um P) \<and>
         set (pe_loaded pe') = (if e = None then insert (pj_Name P) (set (pe_loaded pe)) else set (pe_loaded pe))"
proof -
  obtain e1 s1 where r: "seq_st (wrap_st ''failed to remove old policies''
                     (removeProjectPoliciesLocked lib (pj_Name P) (pe_engine pe)))
                  (each_st (load_role lib (pj_Name P)) (spec_Roles (pj_Spec P))) = (e1, s1)"
    by fastforce
  note E = load_engine_effect [OF assms(1) r]
  show ?thesis
  proof (cases e1)
    case (Some x)
    then have "e = Some x" "pe' = pe\<lparr>pe_engine := s1\<rparr>"
      using assms(2) r by (auto simp: loadProjectPoliciesLocked_def)
    then show ?thesis using E by auto
  next
    case None
    let ?bs = "extractRoleBindingsFromAnnotations um P"
    have e: "e = None" and eng: "pe_engine pe' = add_bindings lib (pj_Name P) ?bs s1"
      and loaded: "pe_loaded pe' = List.insert (pj_Name P) (pe_loaded pe)"
      using assms(2) r None by (auto simp: loadProjectPoliciesLocked_def)
    note B = add_bindings_effect [of "pj_Name P" ?bs s1, folded eng]
    have "grp (pe_engine pe') = grp s1 \<union> binding_links um P"
      using B by (simp add: binding_links_def)
    moreover have "foreign_rules (pj_Name P) (pe_engine pe') = foreign_rules (pj_Name P) s1"
      "own_rules (pj_Name P) (pe_engine pe') = own_rules (pj_Name P) s1"
      "rules4 (pe_engine pe') = rules4 s1"
      using B by (simp_all add: foreign_rules_def own_rules_def rules4_def)
    ultimately show ?thesis using E B e None loaded by auto
  qed
qed

text \<open>Whether a load fails depends on the project alone, never on what the engine holds.\<close>

definition same_err :: "('s \<Rightarrow> gerror option \<times> 's) \<Rightarrow> bool" where
  "same_err f \<longleftrightarrow> (\<forall>s t. fst (f s) = fst (f t))"

lemma same_err_const: "same_err (\<lambda>s. (e, s))"
  by (simp add: same_err_def)

lemma same_err_none: "(\<And>s. fst (f s) = None) \<Longrightarrow> same_err f"
  by (simp add: same_err_def)

lemma same_err_seq:
  assumes "same_err f" "same_err g"
  shows "same_err (\<lambda>s. seq_st (f s) g)"
  unfolding same_err_def
proof (intro allI)
  fix s t
  obtain e s' t' where "f s = (e, s')" "f t = (e, t')"
    using assms(1) by (metis prod.collapse same_err_def)
  then show "fst (seq_st (f s) g) = fst (seq_st (f t) g)"
    using assms(2) by (cases e) (auto simp: same_err_def)
qed

lemma same_err_each: "(\<And>x. x \<in> set xs \<Longrightarrow> same_err (f x)) \<Longrightarrow> same_err (each_st f xs)"
proof (induction xs)
  case Nil
  then show ?case by (simp add: same_err_def)
next
  case (Cons x xs)
  then have "same_err (\<lambda>s. seq_st (f x s) (each_st f xs))" by (intro same_err_seq) auto
  then show ?case by (simp add: same_err_def)
qed

lemma same_err_as_err: "same_err f \<Longrightarrow> same_err (\<lambda>s. as_err c b (f s))"
proof -
  have fst_as: "fst (as_err c b r) = map_option (\<lambda>_. Wrap c b) (fst r)" for r :: "gerror option \<times> 's"
    by (cases r; cases "fst r") auto
  assume "same_err f"
  then have "fst (f s) = fst (f t)" for s t by (simp add: same_err_def)
  then show "same_err (\<lambda>s. as_err c b (f s))" unfolding same_err_def fst_as by metis
qed

lemma same_err_add_rule: "same_err (add_rule lib sub ob e a)"
proof (rule same_err_none)
  fix s
  show "fst (add_rule lib sub ob e a s) = None"
    using AddPolicy [of s "[sub, ob, a, e]"] by (auto simp: add_rule_def ce_AddPolicy_def)
qed

lemma same_err_group: "same_err (add_group_link lib rn g)"
proof (rule same_err_none)
  fix s
  show "fst (add_group_link lib rn g s) = None"
  proof (cases "FormatGroupSubject g")
    case (Inr x)
    then show ?thesis using AddGroupingPolicy [of s x rn] by (auto simp: add_group_link_def ce_AddUserRole_def)
  qed (simp add: add_group_link_def)
qed

lemma same_err_string: "same_err (addPolicyFromString lib rn str)"
proof -
  have "same_err (\<lambda>s. each_st (add_rule lib rn ob e) (normalizeAction a) s)" for ob a e
    using same_err_each [of "normalizeAction a" "add_rule lib rn ob e"] same_err_add_rule by simp
  then show ?thesis
    unfolding addPolicyFromString_def same_err_def
    by (auto simp del: ValidateEffect_None split: sum.splits option.splits)
qed

lemma same_err_scoped: "same_err (addProjectScopedPolicyFromStringWithDests lib p rn str ds)"
proof -
  have "same_err (each_st (\<lambda>so. each_st (add_rule lib rn so e) (normalizeAction a)) obs)" for obs a e
    by (rule same_err_each, rule same_err_each, rule same_err_add_rule)
  then show ?thesis
    unfolding addProjectScopedPolicyFromStringWithDests_def same_err_def
    by (auto simp del: ValidateEffect_None split: sum.splits option.splits)
qed

lemma same_err_dests: "same_err (\<lambda>s. addPolicyFromStringWithDests lib rn str ds p s)"
  unfolding addPolicyFromStringWithDests_each by (rule same_err_each) (rule same_err_string)

lemma same_err_role: "same_err (load_role lib p role)"
proof (cases "role_Name role = []")
  case True
  then show ?thesis by (simp add: load_role_def same_err_def)
next
  case named: False
  show ?thesis
  proof (cases "FormatProjectRole p (role_Name role)")
    case (Inl e)
    then show ?thesis using named by (simp add: load_role_def same_err_def)
  next
    case (Inr rn)
    have pol: "same_err (each_st (\<lambda>str s. as_err c b (addProjectScopedPolicyFromStringWithDests lib p rn str ds s)) strs)"
      for c b strs ds
      by (rule same_err_each, rule same_err_as_err, rule same_err_scoped)
    have blt: "same_err (\<lambda>s. if B then each_st (\<lambda>str s. as_err c b (addPolicyFromStringWithDests lib rn str ds p s)) strs s
        else (None, s))" for B c b strs ds
    proof (cases B)
      case True
      have "same_err (each_st (\<lambda>str s. as_err c b (addPolicyFromStringWithDests lib rn str ds p s)) strs)"
        by (rule same_err_each, rule same_err_as_err, rule same_err_dests)
      then show ?thesis using True by simp
    qed (simp add: same_err_def)
    have grps: "same_err (each_st (add_group_link lib rn) gs)" for gs
      by (rule same_err_each) (rule same_err_group)
    have "same_err (\<lambda>s. load_role lib p role s)"
      unfolding load_role_def using named Inr
      by (simp only: if_False sum.case) (intro same_err_seq pol blt grps)
    then show ?thesis by simp
  qed
qed

lemma load_again_succeeds:
  assumes "rules4 (pe_engine pe)" "rules4 (pe_engine pe')" "loadProjectPoliciesLocked lib um P pe = (None, pe1)"
  shows "\<exists>pe2. loadProjectPoliciesLocked lib um P pe' = (None, pe2)"
proof -
  obtain t t' where t: "removeProjectPoliciesLocked lib (pj_Name P) (pe_engine pe) = (None, t)"
      "removeProjectPoliciesLocked lib (pj_Name P) (pe_engine pe') = (None, t')"
    using remove_effect assms(1,2) by metis
  have "fst (each_st (load_role lib (pj_Name P)) (spec_Roles (pj_Spec P)) t)
      = fst (each_st (load_role lib (pj_Name P)) (spec_Roles (pj_Spec P)) t')"
    using same_err_each [of "spec_Roles (pj_Spec P)" "load_role lib (pj_Name P)"] same_err_role
    by (simp add: same_err_def)
  moreover have "fst (each_st (load_role lib (pj_Name P)) (spec_Roles (pj_Spec P)) t) = None"
    using assms(3) t(1) by (auto simp: loadProjectPoliciesLocked_def split: prod.splits option.splits)
  ultimately show ?thesis
    using t(2) by (cases "each_st (load_role lib (pj_Name P)) (spec_Roles (pj_Spec P)) t'")
      (auto simp: loadProjectPoliciesLocked_def)
qed

subsection \<open>Synchronisation\<close>

lemma sync_load_effect:
  "rules4 (pe_engine pe) \<Longrightarrow> listed ps \<Longrightarrow> sync_load lib um ps n pe = (n', pe') \<Longrightarrow>
     rules4 (pe_engine pe') \<and> n \<le> n' \<and>
     {q \<in> pol (pe_engine pe'). \<forall>P \<in> set ps. \<not> owned (pj_Name P) q}
       = {q \<in> pol (pe_engine pe). \<forall>P \<in> set ps. \<not> owned (pj_Name P) q} \<and>
     (\<forall>P \<in> set ps. own_rules (pj_Name P) (pe_engine pe') \<subseteq> project_rules P) \<and>
     (n' = n \<longrightarrow> (\<forall>P \<in> set ps. own_rules (pj_Name P) (pe_engine pe') = project_rules P)) \<and>
     set (pe_loaded pe) \<subseteq> set (pe_loaded pe') \<and> set (pe_loaded pe') \<subseteq> set (pe_loaded pe) \<union> pj_Name ` set ps \<and>
     (n' = n \<longrightarrow> set (pe_loaded pe') = set (pe_loaded pe) \<union> pj_Name ` set ps)"
proof (induction ps arbitrary: n pe)
  case Nil
  then show ?case by simp
next
  case (Cons P ps)
  obtain e pe1 where r: "loadProjectPoliciesLocked lib um P pe = (e, pe1)" by fastforce
  note L = load_effect [OF Cons.prems(1) r]
  have lst: "listed ps" and nm: "pj_Name P \<noteq> []" "CHR '':'' \<notin> set (pj_Name P)"
    using Cons.prems(2) by (auto simp: listed_def)
  define m where "m = (if e = None then n else Suc n)"
  have rest: "sync_load lib um ps m pe1 = (n', pe')"
    using Cons.prems(3) r nm by (cases e) (simp_all add: m_def)
  have r4: "rules4 (pe_engine pe1)" using L by blast
  note I = Cons.IH [OF r4 lst rest]
  have I1: "{q \<in> pol (pe_engine pe'). \<forall>Q \<in> set ps. \<not> owned (pj_Name Q) q}
        = {q \<in> pol (pe_engine pe1). \<forall>Q \<in> set ps. \<not> owned (pj_Name Q) q}"
    using I by (elim conjE)
  have other: "\<not> owned (pj_Name Q) q" if "Q \<in> set ps" "owned (pj_Name P) q" for Q q
  proof (rule owned_disjoint [OF nm(2) _ _ that(2)])
    show "CHR '':'' \<notin> set (pj_Name Q)" using lst that(1) by (simp add: listed_def)
    show "pj_Name P \<noteq> pj_Name Q" using Cons.prems(2) that(1) by (auto simp: listed_def)
  qed
  have keepP: "own_rules (pj_Name P) (pe_engine pe') = own_rules (pj_Name P) (pe_engine pe1)"
    unfolding own_rules_def using I1 other by blast
  have F: "{q \<in> pol (pe_engine pe1). \<not> owned (pj_Name P) q} = {q \<in> pol (pe_engine pe). \<not> owned (pj_Name P) q}"
    using L unfolding foreign_rules_def by (elim conjE)
  have S: "{q \<in> pol (pe_engine pe'). \<forall>Q \<in> set (P # ps). \<not> owned (pj_Name Q) q}
       = {q \<in> pol (pe_engine pe). \<forall>Q \<in> set (P # ps). \<not> owned (pj_Name Q) q}"
  proof -
    have A: "{q \<in> pol x. \<forall>Q \<in> set (P # ps). \<not> owned (pj_Name Q) q}
        = {q \<in> {q \<in> pol x. \<forall>Q \<in> set ps. \<not> owned (pj_Name Q) q}. \<not> owned (pj_Name P) q}" for x
      by auto
    have B: "{q \<in> pol x. \<forall>Q \<in> set (P # ps). \<not> owned (pj_Name Q) q}
        = {q \<in> {q \<in> pol x. \<not> owned (pj_Name P) q}. \<forall>Q \<in> set ps. \<not> owned (pj_Name Q) q}" for x
      by auto
    show ?thesis
      unfolding A [of "pe_engine pe'"] I1 unfolding A [of "pe_engine pe1", symmetric]
      unfolding B F by (rule refl)
  qed
  have n: "n \<le> n'" "n' = n \<Longrightarrow> e = None \<and> n' = m"
    using I by (auto simp: m_def split: if_splits)
  have ldd: "set (pe_loaded pe1) = (if e = None then insert (pj_Name P) (set (pe_loaded pe)) else set (pe_loaded pe))"
    using L by (elim conjE)
  have ownP: "own_rules (pj_Name P) (pe_engine pe1) \<subseteq> project_rules P"
      "e = None \<Longrightarrow> own_rules (pj_Name P) (pe_engine pe1) = project_rules P"
    using L by simp_all
  have R: "rules4 (pe_engine pe')" "\<forall>Q \<in> set ps. own_rules (pj_Name Q) (pe_engine pe') \<subseteq> project_rules Q"
      "n' = m \<Longrightarrow> \<forall>Q \<in> set ps. own_rules (pj_Name Q) (pe_engine pe') = project_rules Q"
      "set (pe_loaded pe1) \<subseteq> set (pe_loaded pe')" "set (pe_loaded pe') \<subseteq> set (pe_loaded pe1) \<union> pj_Name ` set ps"
      "n' = m \<Longrightarrow> set (pe_loaded pe') = set (pe_loaded pe1) \<union> pj_Name ` set ps"
    using I by simp_all
  show ?case
  proof (intro conjI impI)
    show "set (pe_loaded pe) \<subseteq> set (pe_loaded pe')" using ldd R(4) by (cases e) auto
    show "set (pe_loaded pe') \<subseteq> set (pe_loaded pe) \<union> pj_Name ` set (P # ps)"
      using ldd R(5) by (cases e) auto
    assume n0: "n' = n"
    show "\<forall>Q \<in> set (P # ps). own_rules (pj_Name Q) (pe_engine pe') = project_rules Q"
      using n(2) [OF n0] R(3) ownP(2) keepP by simp
    show "set (pe_loaded pe') = set (pe_loaded pe) \<union> pj_Name ` set (P # ps)"
      using n(2) [OF n0] R(6) ldd by auto
  qed (use R(1,2) n S ownP keepP in simp_all)
qed

lemma sync_remove_effect:
  "rules4 (pe_engine pe) \<Longrightarrow> sync_remove lib cur names n pe = (n', pe') \<Longrightarrow>
     n' = n \<and> rules4 (pe_engine pe') \<and>
     pol (pe_engine pe') = {q \<in> pol (pe_engine pe). \<forall>nm \<in> set names - set cur. \<not> owned nm q} \<and>
     set (pe_loaded pe') = set (pe_loaded pe) - (set names - set cur)"
proof (induction names arbitrary: n pe)
  case Nil
  then show ?case by simp
next
  case (Cons nm names)
  show ?case
  proof (cases "nm \<in> set cur")
    case True
    then show ?thesis using Cons by auto
  next
    case False
    obtain s where s: "removeProjectPoliciesLocked lib nm (pe_engine pe) = (None, s)"
        "pol s = {q \<in> pol (pe_engine pe). \<not> owned nm q}"
      using remove_effect [OF Cons.prems(1)] by blast
    let ?pe = "pe\<lparr>pe_engine := s, pe_loaded := removeAll nm (pe_loaded pe)\<rparr>"
    have "sync_remove lib cur names n ?pe = (n', pe')" using Cons.prems(2) False s(1) by simp
    moreover have "rules4 (pe_engine ?pe)" using Cons.prems(1) s(2) by (simp add: rules4_def)
    ultimately have "n' = n \<and> rules4 (pe_engine pe') \<and>
       pol (pe_engine pe') = {q \<in> pol s. \<forall>nm \<in> set names - set cur. \<not> owned nm q} \<and>
       set (pe_loaded pe') = set (pe_loaded ?pe) - (set names - set cur)"
      using Cons.IH by fastforce
    then show ?thesis using s(2) False by auto
  qed
qed

end

lemma clear_cache_simps [simp]:
  "pe_engine (clear_cache_if_enabled ops pe) = pe_engine pe"
  "pe_loaded (clear_cache_if_enabled ops pe) = pe_loaded pe"
  "pe_engine (IncrementPolicyReloads pe) = pe_engine pe"
  "pe_loaded (IncrementPolicyReloads pe) = pe_loaded pe"
  "pe_engine (IncrementBackgroundSyncs pe) = pe_engine pe"
  "pe_loaded (IncrementBackgroundSyncs pe) = pe_loaded pe"
  by (simp_all add: clear_cache_if_enabled_def IncrementPolicyReloads_def IncrementBackgroundSyncs_def)

lemma LoadProjectPolicies_cases:
  assumes "LoadProjectPolicies lib ops um (Some P) pe = (err, pe')" "pj_Name P \<noteq> []"
  shows "\<exists>e pe1. loadProjectPoliciesLocked lib um P pe = (e, pe1) \<and> (err = None \<longleftrightarrow> e = None) \<and>
           pe_engine pe' = pe_engine pe1 \<and> pe_loaded pe' = pe_loaded pe1"
  using assms
  by (auto simp: LoadProjectPolicies_def split: prod.splits option.splits if_splits)

subsection \<open>Example data\<close>

definition demo_role :: "string \<Rightarrow> string list \<Rightarrow> string list \<Rightarrow> ProjectRole" where
  "demo_role nm pols grps =
     \<lparr>role_Name = nm, role_Description = [], role_Policies = pols, role_Groups = grps, role_Destinations = []\<rparr>"

definition demo_project :: "string \<Rightarrow> ProjectRole list \<Rightarrow> Project" where
  "demo_project nm roles =
     \<lparr>pj_Name = nm, pj_ResourceVersion = ''1'', pj_CreationTimestamp = None, pj_Labels = [], pj_Annotations = [],
      pj_Spec = \<lparr>spec_Type = [], spec_Description = [], spec_Destinations = [], spec_ClusterResourceWhitelist = [],
        spec_ClusterResourceBlacklist = [], spec_NamespaceResourceWhitelist = [],
        spec_NamespaceResourceBlacklist = [], spec_Roles = roles, spec_Clusters = [], spec_Namespace = [],
        spec_NamespaceRetention = []\<rparr>,
      pj_Status = \<lparr>status_Conditions = [], status_ClusterStates = []\<rparr>\<rparr>"

definition demo_alpha :: Project where
  "demo_alpha = demo_project ''alpha'' [demo_role ''dev'' [''instances/*, get, allow''] [''devs'']]"

definition demo_pe :: "string list list \<Rightarrow> (mem_store, inMemoryCache) policyEnforcer" where
  "demo_pe rules =
     \<lparr>pe_engine = \<lparr>mem_p = rules, mem_g = [], mem_g2 = []\<rparr>, pe_loaded = [], pe_cache = None,
      pe_cacheEnabled = False, pe_cacheTTL = 0, pe_PolicyReloads = 0, pe_BackgroundSyncs = 0,
      pe_WatcherRestarts = 0\<rparr>"

definition no_bindings :: "string \<Rightarrow> gerror + roleBinding list" where
  "no_bindings str = Inr []"

subsection \<open>Properties\<close>

text \<open>
  C1: loading a project changes nothing but that project. Whether \<open>LoadProjectPolicies\<close> succeeds or
  fails half way, every policy rule whose subject is not a role \<open>proj:<name>:...\<close> of the project is
  there afterwards exactly if it was before; the rules of the project that remain are among those its
  roles declare; every link that is added gives a role of the project, every link that is removed
  took one from an OIDC group; role inheritance is untouched.
\<close>

theorem load_touches_only_own_project:
  assumes "casbin_engine lib pol grp grp2 hl hl2 km" "\<forall>q \<in> pol (pe_engine pe). length q = 4"
    and "pj_Name P \<noteq> []" "LoadProjectPolicies lib ops unmarshal (Some P) pe = (err, pe')"
  shows "{q \<in> pol (pe_engine pe'). \<not> owned (pj_Name P) q} = {q \<in> pol (pe_engine pe). \<not> owned (pj_Name P) q} \<and>
         {q \<in> pol (pe_engine pe'). owned (pj_Name P) q} \<subseteq> project_rules P \<and>
         grp (pe_engine pe') - grp (pe_engine pe) \<subseteq> {l. has_prefix (snd l) (role_prefix (pj_Name P))} \<and>
         grp (pe_engine pe) - grp (pe_engine pe') \<subseteq> {l. group_link (pj_Name P) l} \<and>
         grp2 (pe_engine pe') = grp2 (pe_engine pe)"
proof -
  note E = assms(1)
  obtain e pe1 where L: "loadProjectPoliciesLocked lib unmarshal P pe = (e, pe1)"
      and eng: "pe_engine pe' = pe_engine pe1"
    using LoadProjectPolicies_cases [OF assms(4,3)] by blast
  have r4: "casbin_engine.rules4 pol (pe_engine pe)"
    using assms(2) by (simp add: casbin_engine.rules4_def [OF E])
  have "l \<in> project_role_links P \<union> binding_links unmarshal P \<Longrightarrow> has_prefix (snd l) (role_prefix (pj_Name P))" for l
    using role_links_owned [of l P] binding_links_owned [of l unmarshal P] by (auto simp: group_link_def)
  then show ?thesis
    using casbin_engine.load_effect [OF E r4 L] unfolding eng
    by (simp add: casbin_engine.foreign_rules_def [OF E] casbin_engine.own_rules_def [OF E]
        casbin_engine.kept_links_def [OF E]) blast
qed

theorem load_touches_only_own_project_witness:
  "\<exists>err pe'. LoadProjectPolicies mem_lib memory_cache_ops no_bindings (Some demo_alpha)
      (demo_pe [[''proj:alphabet:dev'', ''instances/alphabet/*'', ''get'', ''allow'']]) = (err, pe') \<and>
    [''proj:alphabet:dev'', ''instances/alphabet/*'', ''get'', ''allow''] \<in> mem_pol (pe_engine pe')"
proof -
  let ?r = "[''proj:alphabet:dev'', ''instances/alphabet/*'', ''get'', ''allow'']"
  obtain err pe' where L: "LoadProjectPolicies mem_lib memory_cache_ops no_bindings (Some demo_alpha)
      (demo_pe [?r]) = (err, pe')" by fastforce
  have "pj_Name demo_alpha \<noteq> []" "\<not> owned (pj_Name demo_alpha) ?r"
    by (simp_all add: demo_alpha_def demo_project_def owned_def role_prefix_def)
  moreover have "mem_pol (pe_engine (demo_pe [?r])) = {?r}" by (simp add: demo_pe_def)
  ultimately show ?thesis
    using load_touches_only_own_project [OF mem.casbin_engine_axioms _ _ L] L by fastforce
qed

text \<open>
  C2: a load that reports no error leaves exactly what the project declares, and repeating it changes
  nothing. The rules of the project in the engine are then \<open>project_rules P\<close>; the links are those that
  were there and do not give one of the project's roles to an OIDC group, with the role groups and
  the role bindings of the annotations. A second load succeeds and leaves the same rules, the same
  links and the same set of loaded projects.
\<close>

theorem load_success_exact_and_idempotent:
  assumes "casbin_engine lib pol grp grp2 hl hl2 km" "\<forall>q \<in> pol (pe_engine pe). length q = 4"
    and "pj_Name P \<noteq> []" "LoadProjectPolicies lib ops unmarshal (Some P) pe = (None, pe')"
  shows "{q \<in> pol (pe_engine pe'). owned (pj_Name P) q} = project_rules P \<and>
         grp (pe_engine pe') = {l \<in> grp (pe_engine pe). \<not> group_link (pj_Name P) l}
                                 \<union> project_role_links P \<union> binding_links unmarshal P \<and>
         (\<exists>pe2. LoadProjectPolicies lib ops unmarshal (Some P) pe' = (None, pe2) \<and>
            pol (pe_engine pe2) = pol (pe_engine pe') \<and> grp (pe_engine pe2) = grp (pe_engine pe') \<and>
            set (pe_loaded pe2) = set (pe_loaded pe'))"
proof -
  note E = assms(1)
  note defs = casbin_engine.foreign_rules_def [OF E] casbin_engine.own_rules_def [OF E]
    casbin_engine.kept_links_def [OF E]
  obtain pe1 where L: "loadProjectPoliciesLocked lib unmarshal P pe = (None, pe1)"
      and eng: "pe_engine pe' = pe_engine pe1" and ldd: "pe_loaded pe' = pe_loaded pe1"
    using LoadProjectPolicies_cases [OF assms(4,3)] by blast
  have r4: "casbin_engine.rules4 pol (pe_engine pe)"
    using assms(2) by (simp add: casbin_engine.rules4_def [OF E])
  note eff = casbin_engine.load_effect [OF E r4 L, folded eng ldd, unfolded defs]
  have r4': "casbin_engine.rules4 pol (pe_engine pe')" using eff by blast
  obtain pe3 where L2: "loadProjectPoliciesLocked lib unmarshal P pe' = (None, pe3)"
    using casbin_engine.load_again_succeeds [OF E r4 r4' L] by blast
  note eff2 = casbin_engine.load_effect [OF E r4' L2, unfolded defs]
  let ?pe2 = "IncrementPolicyReloads (clear_cache_if_enabled ops pe3)"
  have "LoadProjectPolicies lib ops unmarshal (Some P) pe' = (None, ?pe2)"
    using L2 assms(3) by (simp add: LoadProjectPolicies_def)
  moreover have "pol (pe_engine pe3) = pol (pe_engine pe')"
    using eff eff2 by blast
  moreover have "grp (pe_engine pe3) = grp (pe_engine pe')"
    using eff eff2 by auto
  moreover have "set (pe_loaded pe3) = set (pe_loaded pe')"
    using eff eff2 by auto
  ultimately show ?thesis using eff by auto
qed

theorem load_success_exact_and_idempotent_witness:
  "\<exists>pe'. LoadProjectPolicies mem_lib memory_cache_ops no_bindings (Some demo_alpha) (demo_pe []) = (None, pe') \<and>
     {q \<in> mem_pol (pe_engine pe'). owned ''alpha'' q} = project_rules demo_alpha \<and> project_rules demo_alpha \<noteq> {}"
proof -
  have "fst (LoadProjectPolicies mem_lib memory_cache_ops no_bindings (Some demo_alpha) (demo_pe [])) = None"
    by code_simp
  then obtain pe' where L: "LoadProjectPolicies mem_lib memory_cache_ops no_bindings (Some demo_alpha)
      (demo_pe []) = (None, pe')"
    by (metis prod.collapse)
  have nm: "pj_Name demo_alpha = ''alpha''" by (simp add: demo_alpha_def demo_project_def)
  have "{q \<in> mem_pol (pe_engine pe'). owned ''alpha'' q} = project_rules demo_alpha"
    using load_success_exact_and_idempotent [OF mem.casbin_engine_axioms _ _ L] nm
    by (simp add: demo_pe_def)
  moreover have "[''proj:alpha:dev'', ''instances/alpha/*'', ''get'', ''allow''] \<in> project_rules demo_alpha"
    by code_simp
  ultimately show ?thesis using L by blast
qed

text \<open>
  C3: removing a project removes exactly its rules. \<open>RemoveProjectPolicies\<close> succeeds; the rules left
  are those whose subject is not a role of the project, and the links left are those that do not give
  one of its roles to an OIDC group, so the assignments of users survive; the project is no longer
  loaded, and an enabled cache has been cleared.
\<close>

theorem remove_project_policies_exact:
  assumes "casbin_engine lib pol grp grp2 hl hl2 km" "\<forall>q \<in> pol (pe_engine pe). length q = 4" "p \<noteq> []"
  shows "\<exists>pe'. RemoveProjectPolicies lib ops p pe = (None, pe') \<and>
           pol (pe_engine pe') = {q \<in> pol (pe_engine pe). \<not> owned p q} \<and>
           grp (pe_engine pe') = {l \<in> grp (pe_engine pe). \<not> group_link p l} \<and>
           p \<notin> set (pe_loaded pe') \<and>
           pe_cache pe' = (if pe_cacheEnabled pe then map_option (co_Clear ops) (pe_cache pe) else pe_cache pe)"
proof -
  note E = assms(1)
  have r4: "casbin_engine.rules4 pol (pe_engine pe)"
    using assms(2) by (simp add: casbin_engine.rules4_def [OF E])
  obtain s where s: "removeProjectPoliciesLocked lib p (pe_engine pe) = (None, s)"
      "pol s = {q \<in> pol (pe_engine pe). \<not> owned p q}" "grp s = {l \<in> grp (pe_engine pe). \<not> group_link p l}"
    using casbin_engine.remove_effect [OF E r4] by blast
  then show ?thesis
    using assms(3) by (simp add: RemoveProjectPolicies_def Let_def clear_cache_if_enabled_def)
qed

theorem remove_project_policies_exact_witness:
  "\<exists>pe'. RemoveProjectPolicies mem_lib memory_cache_ops ''alpha''
      (demo_pe [[''proj:alpha:dev'', ''instances/alpha/*'', ''get'', ''allow''],
                [''role:operator'', ''rgds/storage/*'', ''get'', ''allow'']]) = (None, pe') \<and>
     mem_pol (pe_engine pe') = {[''role:operator'', ''rgds/storage/*'', ''get'', ''allow'']}"
proof -
  let ?pe = "demo_pe [[''proj:alpha:dev'', ''instances/alpha/*'', ''get'', ''allow''],
                [''role:operator'', ''rgds/storage/*'', ''get'', ''allow'']]"
  have l: "\<forall>q \<in> mem_pol (pe_engine ?pe). length q = 4" by (simp add: demo_pe_def)
  have "{q \<in> mem_pol (pe_engine ?pe). \<not> owned ''alpha'' q} = {[''role:operator'', ''rgds/storage/*'', ''get'', ''allow'']}"
    by (auto simp: demo_pe_def owned_def role_prefix_def)
  then show ?thesis
    using remove_project_policies_exact [OF mem.casbin_engine_axioms l, of "''alpha''" memory_cache_ops] by auto
qed

text \<open>
  C4: a synchronisation leaves no rule of a project that is gone. Suppose project names are distinct,
  non-empty and without colons, and every project rule in the engine belongs to a loaded project.
  After \<open>SyncPolicies\<close> has listed the projects, every rule with a project role as its subject is one
  that a listed project declares, whatever errors occurred; all other rules are untouched; and if
  no error is reported, the project rules are exactly those the listed projects declare, and the
  loaded projects are exactly the listed ones.
\<close>

theorem sync_leaves_no_stale_rules:
  assumes "casbin_engine lib pol grp grp2 hl hl2 km" "\<forall>q \<in> pol (pe_engine pe). length q = 4"
    and "listed ps" "\<forall>nm \<in> set (pe_loaded pe). CHR '':'' \<notin> set nm"
    and "\<forall>q \<in> pol (pe_engine pe). has_prefix (hd q) ''proj:'' \<longrightarrow> (\<exists>nm \<in> set (pe_loaded pe). owned nm q)"
    and "pr_ListProjects rd = Inr ps" "SyncPolicies lib ops unmarshal (Some rd) pe = (err, pe')"
  shows "{q \<in> pol (pe_engine pe'). has_prefix (hd q) ''proj:''} \<subseteq> (\<Union>P \<in> set ps. project_rules P) \<and>
         {q \<in> pol (pe_engine pe'). \<not> has_prefix (hd q) ''proj:''}
           = {q \<in> pol (pe_engine pe). \<not> has_prefix (hd q) ''proj:''} \<and>
         (err = None \<longrightarrow>
            {q \<in> pol (pe_engine pe'). has_prefix (hd q) ''proj:''} = (\<Union>P \<in> set ps. project_rules P) \<and>
            set (pe_loaded pe') = pj_Name ` set ps)"
proof -
  note E = assms(1)
  note own_def = casbin_engine.own_rules_def [OF E]
  have r4: "casbin_engine.rules4 pol (pe_engine pe)"
    using assms(2) by (simp add: casbin_engine.rules4_def [OF E])
  obtain n1 pe1 where l: "sync_load lib unmarshal ps 0 pe = (n1, pe1)" by fastforce
  note L = casbin_engine.sync_load_effect [OF E r4 assms(3) l, unfolded own_def]
  obtain n2 pe2 where m: "sync_remove lib (map pj_Name ps) (pe_loaded pe1) n1 pe1 = (n2, pe2)" by fastforce
  have r41: "casbin_engine.rules4 pol (pe_engine pe1)" using L by simp
  note R = casbin_engine.sync_remove_effect [OF E r41 m]
  let ?N = "pj_Name ` set ps"
  have pe': "pe_engine pe' = pe_engine pe2" "pe_loaded pe' = pe_loaded pe2" and err: "err = None \<longleftrightarrow> n1 = 0"
    using assms(6,7) l m R by (auto simp: SyncPolicies_def split: if_splits)
  have F: "{q \<in> pol (pe_engine pe1). \<forall>P \<in> set ps. \<not> owned (pj_Name P) q}
         = {q \<in> pol (pe_engine pe). \<forall>P \<in> set ps. \<not> owned (pj_Name P) q}"
    using L by (elim conjE)
  have subs: "set (pe_loaded pe) \<subseteq> set (pe_loaded pe1)" "set (pe_loaded pe1) \<subseteq> set (pe_loaded pe) \<union> ?N"
    using L by simp_all
  have own: "\<And>P. P \<in> set ps \<Longrightarrow> {q \<in> pol (pe_engine pe1). owned (pj_Name P) q} \<subseteq> project_rules P"
    using L by simp
  have proj: "owned nm q \<Longrightarrow> has_prefix (hd q) ''proj:''" for nm q
    by (auto simp: owned_def role_prefix_def prefix_def)
  have P2: "pol (pe_engine pe2) = {q \<in> pol (pe_engine pe1). \<forall>nm \<in> set (pe_loaded pe1) - ?N. \<not> owned nm q}"
    using R by simp
  have sub: "{q \<in> pol (pe_engine pe2). has_prefix (hd q) ''proj:''} \<subseteq> (\<Union>P \<in> set ps. project_rules P)"
  proof
    fix q
    assume "q \<in> {q \<in> pol (pe_engine pe2). has_prefix (hd q) ''proj:''}"
    then have q: "q \<in> pol (pe_engine pe1)" "has_prefix (hd q) ''proj:''"
        "\<forall>nm \<in> set (pe_loaded pe1) - ?N. \<not> owned nm q" using P2 by auto
    show "q \<in> (\<Union>P \<in> set ps. project_rules P)"
    proof (cases "\<exists>P \<in> set ps. owned (pj_Name P) q")
      case True
      then show ?thesis using own q(1) by blast
    next
      case False
      then have "q \<in> pol (pe_engine pe)" using F q(1) by blast
      then obtain nm where "nm \<in> set (pe_loaded pe)" "owned nm q" using assms(5) q(2) by blast
      then show ?thesis using q(3) subs(1) False by blast
    qed
  qed
  have other: "{q \<in> pol (pe_engine pe2). \<not> has_prefix (hd q) ''proj:''}
           = {q \<in> pol (pe_engine pe). \<not> has_prefix (hd q) ''proj:''}"
    unfolding P2 using F proj by blast
  have full: "(\<Union>P \<in> set ps. project_rules P) \<subseteq> {q \<in> pol (pe_engine pe2). has_prefix (hd q) ''proj:''}" if "n1 = 0"
  proof
    fix q
    assume "q \<in> (\<Union>P \<in> set ps. project_rules P)"
    then obtain P where P: "P \<in> set ps" "q \<in> project_rules P" by blast
    have "{q \<in> pol (pe_engine pe1). owned (pj_Name P) q} = project_rules P"
      using L that P(1) by simp
    then have q: "q \<in> pol (pe_engine pe1)" "owned (pj_Name P) q" using P(2) by auto
    have "\<not> owned nm q" if nm: "nm \<in> set (pe_loaded pe1) - ?N" for nm
    proof (rule owned_disjoint [OF _ _ _ q(2)])
      show "CHR '':'' \<notin> set (pj_Name P)" using assms(3) P(1) by (simp add: listed_def)
      show "CHR '':'' \<notin> set nm" using nm subs(2) assms(4) by blast
      show "pj_Name P \<noteq> nm" using nm P(1) by blast
    qed
    then show "q \<in> {q \<in> pol (pe_engine pe2). has_prefix (hd q) ''proj:''}"
      using P2 q proj by blast
  qed
  have "set (pe_loaded pe2) = ?N" if "n1 = 0"
  proof -
    have "set (pe_loaded pe1) = set (pe_loaded pe) \<union> ?N" using L that by simp
    then show ?thesis using R by auto
  qed
  then show ?thesis using sub other full err pe' by auto
qed

theorem sync_leaves_no_stale_rules_witness:
  "\<exists>err pe'. SyncPolicies mem_lib memory_cache_ops no_bindings
      (Some \<lparr>pr_ListProjects = Inr [demo_alpha], pr_FindProjectForNamespace = \<lambda>_. Inr None\<rparr>)
      ((demo_pe [[''proj:gone:dev'', ''instances/gone/*'', ''get'', ''allow'']])\<lparr>pe_loaded := [''gone'']\<rparr>) = (err, pe') \<and>
     {q \<in> mem_pol (pe_engine pe'). has_prefix (hd q) ''proj:''} \<subseteq> project_rules demo_alpha"
proof -
  let ?rd = "\<lparr>pr_ListProjects = Inr [demo_alpha], pr_FindProjectForNamespace = \<lambda>_. Inr None\<rparr>"
  let ?pe = "(demo_pe [[''proj:gone:dev'', ''instances/gone/*'', ''get'', ''allow'']])\<lparr>pe_loaded := [''gone'']\<rparr>"
  obtain err pe' where S: "SyncPolicies mem_lib memory_cache_ops no_bindings (Some ?rd) ?pe = (err, pe')"
    by fastforce
  have "listed [demo_alpha]" by (simp add: listed_def demo_alpha_def demo_project_def)
  moreover have "\<forall>q \<in> mem_pol (pe_engine ?pe). length q = 4" "\<forall>nm \<in> set (pe_loaded ?pe). CHR '':'' \<notin> set nm"
      "\<forall>q \<in> mem_pol (pe_engine ?pe). has_prefix (hd q) ''proj:'' \<longrightarrow> (\<exists>nm \<in> set (pe_loaded ?pe). owned nm q)"
      "pr_ListProjects ?rd = Inr [demo_alpha]"
    by (simp_all add: demo_pe_def owned_def role_prefix_def)
  ultimately show ?thesis
    using sync_leaves_no_stale_rules [OF mem.casbin_engine_axioms, of ?pe "[demo_alpha]" ?rd] S by fastforce
qed

end
