(* ===== verification/Policy_Parser.thy ===== *)
theory Policy_Parser
  imports Project_Model
begin

text \<open>
  \<open>rbac/policy_parser.go\<close>: the parser and validator of policy strings and of policy subjects. A
  policy string is \<open>p, subject, object, action, effect\<close>; a subject has one, two or three parts
  separated by colons. The lemmas characterise the accepted subjects and objects, and show that
  what the parser returns passes the validator again, that printing and parsing agree, and that a
  parsed role always gets the subject of its own project.
\<close>

subsection \<open>Errors and limits\<close>

abbreviation "ErrInvalidFieldCount \<equiv> Err ''invalid field count''"
abbreviation "ErrInvalidEffect \<equiv> Err ''invalid effect''"
abbreviation "ErrEmptyField \<equiv> Err ''empty policy field''"
abbreviation "ErrInvalidSubjectType \<equiv> Err ''invalid subject type''"
abbreviation "ErrInvalidSubjectFormat \<equiv> Err ''invalid subject format''"
abbreviation "ErrInvalidObjectFormat \<equiv> Err ''invalid object format''"
abbreviation "ErrInputTooLarge \<equiv> Err ''input exceeds maximum size''"

definition MaxPolicyStringLength :: nat where "MaxPolicyStringLength = 1024"
definition MaxPoliciesPerRole :: nat where "MaxPoliciesPerRole = 100"
definition MaxObjectPathDepth :: nat where "MaxObjectPathDepth = 10"
definition MaxObjectWildcards :: nat where "MaxObjectWildcards = 5"

definition ValidSubjectTypes :: "string list" where
  "ValidSubjectTypes = [''role'', ''proj'', ''user'', ''group'']"

record PolicyFields =
  pf_Subject :: string
  pf_Object :: string
  pf_Action :: string
  pf_Effect :: string

subsection \<open>Field validation\<close>

definition validateSubjectFormat :: "string \<Rightarrow> gerror option" where
  "validateSubjectFormat subject =
     (if subject = [] then Some (Wrap ''subject cannot be empty'' ErrEmptyField)
      else if length subject > MaxSubjectIDLength
        then Some (Wrap ''subject exceeds maximum length'' ErrInputTooLarge)
      else (case split_n 3 (CHR '':'') subject of
              [a] \<Rightarrow> ValidateSubjectIdentifier a
            | [ty, a] \<Rightarrow>
                (if ty \<notin> set ValidSubjectTypes
                 then Some (Wrap ''not a valid subject type'' ErrInvalidSubjectType)
                 else ValidateSubjectIdentifier a)
            | [ty, a, b] \<Rightarrow>
                (if ty \<notin> set ValidSubjectTypes
                 then Some (Wrap ''not a valid subject type'' ErrInvalidSubjectType)
                 else if ty \<noteq> ''proj''
                 then Some (Wrap ''three-part subjects must use proj: prefix'' ErrInvalidSubjectFormat)
                 else first_err (wrap_err ''invalid project name'' (ValidateSubjectIdentifier a))
                                (ValidateSubjectIdentifier b))
            | _ \<Rightarrow> Some (Wrap ''invalid subject format'' ErrInvalidSubjectFormat)))"

definition validateObjectFormat :: "string \<Rightarrow> gerror option" where
  "validateObjectFormat object =
     (if object = ''*'' then None
      else if contains object ''..''
        then Some (Wrap ''path traversal patterns not allowed'' ErrInvalidObjectFormat)
      else if contains (to_lower object) ''%2e''
        then Some (Wrap ''URL-encoded path traversal not allowed'' ErrInvalidObjectFormat)
      else if count_list object (CHR ''*'') > MaxObjectWildcards
        then Some (Wrap ''too many wildcards'' ErrInvalidObjectFormat)
      else if length (split_on (CHR ''/'') object) > MaxObjectPathDepth
        then Some (Wrap ''path too deep'' ErrInvalidObjectFormat)
      else if \<not> contains object ''/'' \<and> \<not> contains object ''*''
        then Some (Err ''object must be in format resource/name or contain wildcard'')
      else None)"

definition validActions :: "string list" where
  "validActions = [''*'', ''get'', ''create'', ''update'', ''delete'', ''list'', ''sync'']"

definition validateAction :: "string \<Rightarrow> gerror option" where
  "validateAction action =
     (if action \<notin> set validActions then Some (Err ''invalid action name'') else None)"

definition validatePolicyFields :: "string \<Rightarrow> string \<Rightarrow> string \<Rightarrow> string \<Rightarrow> gerror option" where
  "validatePolicyFields subject object action eft =
     (if subject = [] then Some (Wrap ''subject cannot be empty'' ErrEmptyField) else
      first_err (wrap_err ''invalid subject'' (validateSubjectFormat subject))
     (if object = [] then Some (Wrap ''object cannot be empty'' ErrEmptyField) else
      first_err (wrap_err ''invalid object format'' (validateObjectFormat object))
     (if action = [] then Some (Wrap ''action cannot be empty'' ErrEmptyField) else
      first_err (wrap_err ''invalid action'' (validateAction action))
     (if eft \<noteq> ''allow'' \<and> eft \<noteq> ''deny'' then Some (Wrap ''effect must be allow or deny'' ErrInvalidEffect)
      else None))))"

definition ValidatePolicyFormat :: "string list \<Rightarrow> gerror option" where
  "ValidatePolicyFormat policy =
     (if length policy \<noteq> 4 then Some (Wrap ''policy must have 4 elements'' ErrInvalidFieldCount)
      else validatePolicyFields (policy ! 0) (policy ! 1) (policy ! 2) (policy ! 3))"

subsection \<open>Parsing\<close>

definition ParsePolicyString :: "string \<Rightarrow> gerror + string list" where
  "ParsePolicyString policyStr =
     (if length policyStr > MaxPolicyStringLength
      then Inl (Wrap ''policy string too long'' ErrInputTooLarge)
      else (let parts = split_on (CHR '','') (trim_space (trim_prefix (trim_space policyStr) ''p,''))
            in if length parts \<noteq> 4 then Inl (Wrap ''expected 4 fields'' ErrInvalidFieldCount)
               else (let fields = map trim_space parts
                     in case validatePolicyFields (fields ! 0) (fields ! 1) (fields ! 2) (fields ! 3) of
                          Some e \<Rightarrow> Inl e
                        | None \<Rightarrow> Inr [fields ! 0, fields ! 1, fields ! 2, fields ! 3])))"

fun parse_role_policies :: "string \<Rightarrow> string list \<Rightarrow> gerror + PolicyFields list" where
  "parse_role_policies subject [] = Inr []"
| "parse_role_policies subject (policyStr # rest) =
     (case ParsePolicyString policyStr of
        Inl e \<Rightarrow> Inl (Wrap ''failed to parse policy'' e)
      | Inr parts \<Rightarrow>
          (case parse_role_policies subject rest of
             Inl e \<Rightarrow> Inl e
           | Inr ps \<Rightarrow>
               Inr (\<lparr>pf_Subject = subject, pf_Object = parts ! 1, pf_Action = parts ! 2,
                     pf_Effect = parts ! 3\<rparr> # ps)))"

definition ParseProjectRole :: "string \<Rightarrow> ProjectRole \<Rightarrow> gerror + PolicyFields list" where
  "ParseProjectRole projectName role =
     (case ValidateSubjectIdentifier projectName of
        Some e \<Rightarrow> Inl (Wrap ''invalid project name'' e)
      | None \<Rightarrow>
          (case ValidateSubjectIdentifier (role_Name role) of
             Some e \<Rightarrow> Inl (Wrap ''invalid role name'' e)
           | None \<Rightarrow>
               (if length (role_Policies role) > MaxPoliciesPerRole
                then Inl (Wrap ''role has too many policies'' ErrInputTooLarge)
                else parse_role_policies (''proj:'' @ projectName @ '':'' @ role_Name role)
                       (role_Policies role))))"

subsection \<open>Subjects\<close>

definition NormalizePolicySubject :: "string \<Rightarrow> string" where
  "NormalizePolicySubject subject0 =
     (let subject = trim_space subject0
      in if has_prefix subject ''proj:'' \<or> has_prefix subject ''role:'' then subject
         else if has_prefix subject ''user:'' \<or> has_prefix subject ''group:'' then subject
         else ''role:'' @ subject)"

text \<open>
  The loop over the prefixes ranges over a Go map; the prefixes exclude each other, so the order
  does not matter.
\<close>

definition NormalizePolicySubjectSafe :: "string \<Rightarrow> gerror + string" where
  "NormalizePolicySubjectSafe subject0 =
     (let subject = trim_space subject0
      in if subject = [] then Inl (Wrap ''subject cannot be empty'' ErrEmptyField)
         else if length subject > MaxSubjectIDLength
           then Inl (Wrap ''subject exceeds maximum length'' ErrInputTooLarge)
         else if list_ex (\<lambda>p. has_prefix subject (p @ '':'')) ValidSubjectTypes
           then (case validateSubjectFormat subject of Some e \<Rightarrow> Inl e | None \<Rightarrow> Inr subject)
         else (case ValidateSubjectIdentifier subject of
                 Some e \<Rightarrow> Inl (Wrap ''invalid subject identifier'' e)
               | None \<Rightarrow> Inr (''role:'' @ subject)))"

fun subject_parts :: "string list \<Rightarrow> string \<times> string \<times> string" where
  "subject_parts [r] = (''role'', [], r)"
| "subject_parts [ty, r] = (ty, [], r)"
| "subject_parts [ty, p, r] = (ty, p, r)"
| "subject_parts _ = ([], [], [])"

definition SplitPolicySubject :: "string \<Rightarrow> string \<times> string \<times> string" where
  "SplitPolicySubject subject = subject_parts (split_n 3 (CHR '':'') subject)"

definition SplitPolicySubjectSafe :: "string \<Rightarrow> gerror + string \<times> string \<times> string" where
  "SplitPolicySubjectSafe subject =
     (if subject = [] then Inl (Wrap ''subject cannot be empty'' ErrEmptyField)
      else if length subject > MaxSubjectIDLength
        then Inl (Wrap ''subject exceeds maximum length'' ErrInputTooLarge)
      else (case split_n 3 (CHR '':'') subject of
              [r] \<Rightarrow>
                (case ValidateSubjectIdentifier r of
                   Some e \<Rightarrow> Inl (Wrap ''invalid role name'' e)
                 | None \<Rightarrow> Inr (''role'', [], r))
            | [ty, n] \<Rightarrow>
                (if ty \<notin> set ValidSubjectTypes
                 then Inl (Wrap ''not a valid subject type'' ErrInvalidSubjectType)
                 else (case ValidateSubjectIdentifier n of
                         Some e \<Rightarrow> Inl (Wrap ''invalid subject identifier'' e)
                       | None \<Rightarrow> Inr (ty, [], n)))
            | [ty, p, r] \<Rightarrow>
                (if ty \<noteq> ''proj''
                 then Inl (Wrap ''three-part subjects must use proj: prefix'' ErrInvalidSubjectFormat)
                 else (case ValidateSubjectIdentifier p of
                         Some e \<Rightarrow> Inl (Wrap ''invalid project name'' e)
                       | None \<Rightarrow>
                           (case ValidateSubjectIdentifier r of
                              Some e \<Rightarrow> Inl (Wrap ''invalid role name'' e)
                            | None \<Rightarrow> Inr (''proj'', p, r))))
            | _ \<Rightarrow> Inl (Wrap ''invalid subject format'' ErrInvalidSubjectFormat)))"

subsection \<open>Lemmas\<close>

text \<open>How a subject is split at its first two colons.\<close>

lemma split3_cases:
  fixes s :: string
  obtains (one) "CHR '':'' \<notin> set s" "split_n 3 (CHR '':'') s = [s]"
  | (two) a b where "s = a @ CHR '':'' # b" "CHR '':'' \<notin> set a" "CHR '':'' \<notin> set b"
      "split_n 3 (CHR '':'') s = [a, b]"
  | (three) a b c where "s = a @ CHR '':'' # b @ CHR '':'' # c" "CHR '':'' \<notin> set a" "CHR '':'' \<notin> set b"
      "split_n 3 (CHR '':'') s = [a, b, c]"
proof (cases "CHR '':'' \<in> set s")
  case False
  then show thesis using one by (simp add: eval_nat_numeral split_n_no_sep)
next
  case True
  then obtain a t where s: "s = a @ CHR '':'' # t" and a: "CHR '':'' \<notin> set a"
    by (meson split_list_first)
  have split: "split_n 3 (CHR '':'') s = a # split_n (Suc (Suc 0)) (CHR '':'') t"
    using split_n_append [OF a, of "Suc 0" t] s by (simp add: eval_nat_numeral del: split_n.simps)
  show thesis
  proof (cases "CHR '':'' \<in> set t")
    case False
    then show thesis using two s a split split_n_no_sep by simp
  next
    case True
    then obtain b c where t: "t = b @ CHR '':'' # c" and b: "CHR '':'' \<notin> set b"
      by (meson split_list_first)
    then show thesis using three s a split split_n_append [OF b, of 0 c] by simp
  qed
qed

definition valid_subject :: "string \<Rightarrow> bool" where
  "valid_subject s \<longleftrightarrow>
     length s \<le> 256 \<and>
     (valid_ident s \<or>
      (\<exists>ty \<in> set ValidSubjectTypes. \<exists>n. valid_ident n \<and> s = ty @ '':'' @ n) \<or>
      (\<exists>p r. valid_ident p \<and> valid_ident r \<and> s = ''proj:'' @ p @ '':'' @ r))"

lemma colon_unique:
  "a @ CHR '':'' # x = b @ CHR '':'' # y \<Longrightarrow> CHR '':'' \<notin> set a \<Longrightarrow> CHR '':'' \<notin> set b \<Longrightarrow> a = b \<and> x = y"
  by (rule sep_unique)

lemma types_no_colon: "ty \<in> set ValidSubjectTypes \<Longrightarrow> CHR '':'' \<notin> set ty"
  by (auto simp: ValidSubjectTypes_def)

lemma split3_two:
  "CHR '':'' \<notin> set a \<Longrightarrow> CHR '':'' \<notin> set b \<Longrightarrow> split_n 3 (CHR '':'') (a @ CHR '':'' # b) = [a, b]"
  using split_n_append [of "CHR '':''" a "Suc 0" b] split_n_no_sep [of "CHR '':''" b "Suc 0"]
  by (simp add: eval_nat_numeral del: split_n.simps)

lemma split3_three:
  "CHR '':'' \<notin> set a \<Longrightarrow> CHR '':'' \<notin> set b \<Longrightarrow>
   split_n 3 (CHR '':'') (a @ CHR '':'' # b @ CHR '':'' # c) = [a, b, c]"
  using split_n_append [of "CHR '':''" a "Suc 0" "b @ CHR '':'' # c"] split_n_append [of "CHR '':''" b 0 c]
  by (simp add: eval_nat_numeral del: split_n.simps(3))

lemma split3_one: "CHR '':'' \<notin> set a \<Longrightarrow> split_n 3 (CHR '':'') a = [a]"
  by (simp add: eval_nat_numeral split_n_no_sep)

lemma validateSubjectFormat_None [simp]: "validateSubjectFormat s = None \<longleftrightarrow> valid_subject s"
proof
  assume v: "validateSubjectFormat s = None"
  then have len: "length s \<le> 256"
    by (auto simp: validateSubjectFormat_def MaxSubjectIDLength_def split: if_splits)
  show "valid_subject s"
    using v len
    by (cases s rule: split3_cases)
       (auto simp: validateSubjectFormat_def valid_subject_def split: if_splits)
next
  assume v: "valid_subject s"
  then have len: "length s \<le> 256" by (simp add: valid_subject_def)
  from v consider "valid_ident s"
    | ty n where "ty \<in> set ValidSubjectTypes" "valid_ident n" "s = ty @ '':'' @ n"
    | p r where "valid_ident p" "valid_ident r" "s = ''proj:'' @ p @ '':'' @ r"
    by (auto simp: valid_subject_def)
  then show "validateSubjectFormat s = None"
  proof cases
    case 1
    then show ?thesis using len
      by (auto simp: validateSubjectFormat_def MaxSubjectIDLength_def split3_one valid_ident_no_colon
          valid_ident_def)
  next
    case 2
    then show ?thesis using len
      by (auto simp: validateSubjectFormat_def MaxSubjectIDLength_def split3_two types_no_colon
          valid_ident_no_colon)
  next
    case 3
    then have "split_n 3 (CHR '':'') s = [''proj'', p, r]"
      using split3_three [of "''proj''" p r] valid_ident_no_colon by simp
    then show ?thesis using 3 len
      by (auto simp: validateSubjectFormat_def MaxSubjectIDLength_def ValidSubjectTypes_def)
  qed
qed

definition valid_object :: "string \<Rightarrow> bool" where
  "valid_object obj \<longleftrightarrow>
     obj = ''*'' \<or>
     \<not> contains obj ''..'' \<and> \<not> contains (to_lower obj) ''%2e'' \<and>
     count_list obj (CHR ''*'') \<le> 5 \<and> count_list obj (CHR ''/'') \<le> 9 \<and>
     (CHR ''/'' \<in> set obj \<or> CHR ''*'' \<in> set obj)"

lemma validateObjectFormat_None [simp]: "validateObjectFormat obj = None \<longleftrightarrow> valid_object obj"
  by (auto simp: validateObjectFormat_def valid_object_def MaxObjectWildcards_def MaxObjectPathDepth_def
      length_split_on)

lemma validateAction_None [simp]: "validateAction a = None \<longleftrightarrow> a \<in> set validActions"
  by (simp add: validateAction_def)

lemma valid_subject_nonempty: "valid_subject s \<Longrightarrow> s \<noteq> []"
  by (auto simp: valid_subject_def valid_ident_def)

lemma valid_object_nonempty: "valid_object s \<Longrightarrow> s \<noteq> []"
  by (auto simp: valid_object_def)

lemma validatePolicyFields_None [simp]:
  "validatePolicyFields s obj a e = None \<longleftrightarrow>
     valid_subject s \<and> valid_object obj \<and> a \<in> set validActions \<and> (e = ''allow'' \<or> e = ''deny'')"
proof -
  have "[] \<notin> set validActions" by (simp add: validActions_def)
  then show ?thesis
    by (auto simp: validatePolicyFields_def dest: valid_subject_nonempty valid_object_nonempty)
qed

lemma ParsePolicyString_Inr:
  assumes "ParsePolicyString str = Inr fs"
  shows "\<exists>s obj a e. fs = [s, obj, a, e] \<and> valid_subject s \<and> valid_object obj \<and>
           a \<in> set validActions \<and> (e = ''allow'' \<or> e = ''deny'')"
  using assms by (auto simp: ParsePolicyString_def Let_def split: if_splits option.splits)

lemma ParsePolicyString_fields:
  assumes "ParsePolicyString str = Inr fs"
  shows "length fs = 4 \<and> valid_subject (fs ! 0) \<and> valid_object (fs ! 1) \<and>
         fs ! 2 \<in> set validActions \<and> (fs ! 3 = ''allow'' \<or> fs ! 3 = ''deny'')"
  using ParsePolicyString_Inr [OF assms] by auto

lemma parse_role_policies_Inr:
  "parse_role_policies subject strs = Inr ps \<longleftrightarrow>
     list_all2 (\<lambda>str p. \<exists>fs. ParsePolicyString str = Inr fs \<and>
        p = \<lparr>pf_Subject = subject, pf_Object = fs ! 1, pf_Action = fs ! 2, pf_Effect = fs ! 3\<rparr>) strs ps"
proof (induction strs arbitrary: ps)
  case Nil
  then show ?case by auto
next
  case (Cons str strs)
  then show ?case
    by (cases "parse_role_policies subject strs")
       (auto simp: list_all2_Cons1 split: sum.splits)
qed

subsection \<open>Printing\<close>

text \<open>Printable ASCII without white space and without a comma.\<close>

definition plain :: "string \<Rightarrow> bool" where
  "plain s \<longleftrightarrow> s \<noteq> [] \<and> list_all (\<lambda>c. 33 \<le> (of_char c :: nat) \<and> (of_char c :: nat) \<le> 126 \<and> c \<noteq> CHR '','') s"

definition print_policy :: "string \<Rightarrow> string \<Rightarrow> string \<Rightarrow> string \<Rightarrow> string" where
  "print_policy s obj a e = ''p, '' @ join_on '', '' [s, obj, a, e]"

lemma plain_char: "33 \<le> (of_char c :: nat) \<Longrightarrow> (of_char c :: nat) \<le> 126 \<Longrightarrow> c \<notin> space_lead \<and> c \<notin> space_trail"
  by (auto simp: space_lead_def space_trail_def)

lemma trim_space_ends:
  "s \<noteq> [] \<Longrightarrow> hd s \<notin> space_lead \<Longrightarrow> last s \<notin> space_trail \<Longrightarrow> trim_space s = s"
  by (rule trim_space_id) simp

lemma plain_ends: "plain s \<Longrightarrow> s \<noteq> [] \<and> hd s \<notin> space_lead \<and> last s \<notin> space_trail \<and> CHR '','' \<notin> set s"
  using plain_char hd_in_set [of s] last_in_set [of s] by (fastforce simp: plain_def list_all_iff)

lemma trim_space_plain: "plain s \<Longrightarrow> trim_space s = s"
  using trim_space_ends plain_ends by blast

lemma strip_blank: "strip_one space_runes (CHR '' '' # s) = Some s"
  by (simp add: space_runes_def)

lemma trim_space_blank: "trim_space (CHR '' '' # s) = trim_space s"
  using trim_left.simps [of space_runes "CHR '' '' # s"] by (simp add: trim_space_def strip_blank)

lemma split_on_Cons_append:
  "d \<noteq> c \<Longrightarrow> c \<notin> set a \<Longrightarrow> split_on c (d # a @ c # s) = (d # a) # split_on c s"
  using split_on_append [of c "d # a" s] by simp

lemma split_on_Cons_no_sep: "d \<noteq> c \<Longrightarrow> c \<notin> set a \<Longrightarrow> split_on c (d # a) = [d # a]"
  using split_on_no_sep [of c "d # a"] by simp

lemma print_parse:
  assumes "plain s" "plain obj" "plain a" "plain e" "length (print_policy s obj a e) \<le> 1024"
    and "validatePolicyFields s obj a e = None"
  shows "ParsePolicyString (print_policy s obj a e) = Inr [s, obj, a, e]"
proof -
  let ?body = "s @ '','' @ '' '' @ obj @ '','' @ '' '' @ a @ '','' @ '' '' @ e"
  have body: "print_policy s obj a e = ''p,'' @ '' '' @ ?body" by (simp add: print_policy_def)
  have e: "e \<noteq> []" "last e \<notin> space_trail" using plain_ends [OF assms(4)] by auto
  have trim1: "trim_space (print_policy s obj a e) = print_policy s obj a e"
    using e by (intro trim_space_ends) (auto simp: body space_lead_def)
  have trim2: "trim_space ('' '' @ ?body) = ?body"
    using e plain_ends [OF assms(1)] by (simp add: trim_space_blank trim_space_ends)
  have "split_on (CHR '','') ?body = [s, '' '' @ obj, '' '' @ a, '' '' @ e]"
    using plain_ends [OF assms(1)] plain_ends [OF assms(2)] plain_ends [OF assms(3)] plain_ends [OF assms(4)]
    by (simp add: split_on_append split_on_Cons_append split_on_Cons_no_sep del: split_on.simps)
  moreover have "trim_space (trim_prefix (trim_space (print_policy s obj a e)) ''p,'') = ?body"
    using trim1 trim2 by (simp add: trim_prefix_def body)
  ultimately show ?thesis
    using assms by (simp add: ParsePolicyString_def MaxPolicyStringLength_def Let_def
        trim_space_blank trim_space_plain del: validatePolicyFields_None)
qed

subsection \<open>Properties\<close>

text \<open>
  C10: printing and parsing agree. A policy made of four valid fields of printable characters
  without commas, printed in the documented form \<open>p, subject, object, action, effect\<close> in at most
  1024 bytes, is parsed back to the same four fields.
\<close>

theorem policy_print_parse_roundtrip:
  assumes "plain s" "plain obj" "plain a" "plain e"
    and "length (print_policy s obj a e) \<le> 1024" "ValidatePolicyFormat [s, obj, a, e] = None"
  shows "ParsePolicyString (print_policy s obj a e) = Inr [s, obj, a, e]"
  using print_parse [OF assms(1-5)] assms(6)
  by (simp add: ValidatePolicyFormat_def del: validatePolicyFields_None)

theorem policy_print_parse_roundtrip_witness:
  "ParsePolicyString ''p, proj:eng:dev, projects/eng, *, allow''
     = Inr [''proj:eng:dev'', ''projects/eng'', ''*'', ''allow'']"
proof -
  have "plain ''proj:eng:dev''" "plain ''projects/eng''" "plain ''*''" "plain ''allow''"
    "length (print_policy ''proj:eng:dev'' ''projects/eng'' ''*'' ''allow'') \<le> 1024"
    "ValidatePolicyFormat [''proj:eng:dev'', ''projects/eng'', ''*'', ''allow''] = None"
    by code_simp+
  from policy_print_parse_roundtrip [OF this] show ?thesis by (simp add: print_policy_def)
qed

text \<open>
  C11: whatever \<open>ParsePolicyString\<close> returns is a well-formed policy. It has four fields; its
  subject is a bare identifier, a typed identifier or a project role; its object is a star or a path
  without traversal, with at most five stars and ten segments; its action and effect are known; and
  \<open>ValidatePolicyFormat\<close> accepts it.
\<close>

theorem parsed_policy_is_valid:
  assumes "ParsePolicyString str = Inr fs"
  shows "ValidatePolicyFormat fs = None \<and>
         (\<exists>s obj a e. fs = [s, obj, a, e] \<and> valid_subject s \<and> valid_object obj \<and>
            a \<in> set validActions \<and> e \<in> {''allow'', ''deny''})"
  using ParsePolicyString_Inr [OF assms] by (auto simp: ValidatePolicyFormat_def)

theorem parsed_policy_is_valid_witness:
  "ValidatePolicyFormat [''role:x'', ''instances/*'', ''get'', ''deny''] = None"
proof -
  have "ParsePolicyString '' role:x,instances/*, get ,deny'' = Inr [''role:x'', ''instances/*'', ''get'', ''deny'']"
    by code_simp
  from parsed_policy_is_valid [OF this] show ?thesis by blast
qed

text \<open>
  A role definition cannot speak for another subject. Every policy that \<open>ParseProjectRole\<close>
  returns has the subject \<open>proj:project:role\<close> of the given project and role, whatever subject its
  string names; there is one policy per string, in order, and object, action and effect are those of
  the string.
\<close>

theorem parsed_role_keeps_its_subject:
  assumes "ParseProjectRole projectName role = Inr ps"
  shows "valid_ident projectName \<and> valid_ident (role_Name role) \<and>
         length (role_Policies role) \<le> 100 \<and>
         list_all2 (\<lambda>str p. pf_Subject p = role_prefix projectName @ role_Name role \<and>
            (\<exists>s. ParsePolicyString str = Inr [s, pf_Object p, pf_Action p, pf_Effect p]))
           (role_Policies role) ps"
proof -
  have v: "valid_ident projectName" "valid_ident (role_Name role)" "length (role_Policies role) \<le> 100"
    and ps: "parse_role_policies (role_prefix projectName @ role_Name role) (role_Policies role) = Inr ps"
    using assms by (auto simp: ParseProjectRole_def MaxPoliciesPerRole_def role_prefix_def
        simp del: ValidateSubjectIdentifier_None simp flip: ValidateSubjectIdentifier_None
        split: option.splits if_splits)
  have "list_all2 (\<lambda>str p. pf_Subject p = role_prefix projectName @ role_Name role \<and>
            (\<exists>s. ParsePolicyString str = Inr [s, pf_Object p, pf_Action p, pf_Effect p]))
           (role_Policies role) ps"
    using ps unfolding parse_role_policies_Inr
    by (rule list_all2_mono) (use ParsePolicyString_Inr in fastforce)
  then show ?thesis using v by blast
qed

theorem parsed_role_keeps_its_subject_witness:
  "\<exists>p. ParseProjectRole ''eng'' (\<lparr>role_Name = ''dev'', role_Description = [],
        role_Policies = [''p, role:serveradmin, instances/*, get, allow''], role_Groups = [],
        role_Destinations = []\<rparr>) = Inr [p] \<and> pf_Subject p = ''proj:eng:dev''"
proof -
  let ?role = "\<lparr>role_Name = ''dev'', role_Description = [],
        role_Policies = [''p, role:serveradmin, instances/*, get, allow''], role_Groups = [],
        role_Destinations = []\<rparr>"
  have eq: "ParseProjectRole ''eng'' ?role
          = Inr [\<lparr>pf_Subject = ''proj:eng:dev'', pf_Object = ''instances/*'', pf_Action = ''get'',
                  pf_Effect = ''allow''\<rparr>]"
    by code_simp
  from parsed_role_keeps_its_subject [OF eq] eq show ?thesis by (auto simp: role_prefix_def)
qed

text \<open>
  \<open>SplitPolicySubjectSafe\<close> takes a formatted project role apart again, and accepts exactly the
  subjects that \<open>validateSubjectFormat\<close> accepts; on those the unchecked \<open>SplitPolicySubject\<close> gives
  the same parts.
\<close>

theorem split_subject_roundtrip:
  assumes "FormatProjectRole p r = Inr x"
  shows "SplitPolicySubjectSafe x = Inr (''proj'', p, r) \<and> SplitPolicySubject x = (''proj'', p, r) \<and>
         validateSubjectFormat x = None \<and>
         ((\<exists>t. SplitPolicySubjectSafe s = Inr t) = (validateSubjectFormat s = None)) \<and>
         (validateSubjectFormat s = None \<longrightarrow> SplitPolicySubjectSafe s = Inr (SplitPolicySubject s))"
proof (intro conjI impI)
  have pr: "valid_ident p" "valid_ident r" "length p \<le> 128" "length r \<le> 64"
    and x: "x = ''proj:'' @ p @ '':'' @ r"
    using assms by (auto simp: FormatProjectRole_Inr MaxProjectNameLength_def MaxRoleNameLength_def role_prefix_def)
  have sp: "split_n 3 (CHR '':'') x = [''proj'', p, r]"
    using split3_three [of "''proj''" p r] valid_ident_no_colon pr x by simp
  show v: "validateSubjectFormat x = None" using pr x by (auto simp: valid_subject_def)
  have V: "ValidateSubjectIdentifier p = None" "ValidateSubjectIdentifier r = None" using pr by simp_all
  show "SplitPolicySubjectSafe x = Inr (''proj'', p, r)"
    using sp V pr x by (simp add: SplitPolicySubjectSafe_def MaxSubjectIDLength_def del: ValidateSubjectIdentifier_None)
  show "SplitPolicySubject x = (''proj'', p, r)" using sp by (simp add: SplitPolicySubject_def)
  show "(\<exists>t. SplitPolicySubjectSafe s = Inr t) = (validateSubjectFormat s = None)"
    by (cases s rule: split3_cases)
       (auto simp: SplitPolicySubjectSafe_def validateSubjectFormat_def ValidSubjectTypes_def
         simp del: ValidateSubjectIdentifier_None validateSubjectFormat_None split: option.splits)
  assume "validateSubjectFormat s = None"
  then show "SplitPolicySubjectSafe s = Inr (SplitPolicySubject s)"
    by (cases s rule: split3_cases)
       (auto simp: SplitPolicySubjectSafe_def validateSubjectFormat_def ValidSubjectTypes_def SplitPolicySubject_def
         simp del: ValidateSubjectIdentifier_None validateSubjectFormat_None split: option.splits if_splits)
qed

theorem split_subject_roundtrip_witness:
  "SplitPolicySubjectSafe ''proj:eng:dev'' = Inr (''proj'', ''eng'', ''dev'')"
proof -
  have "FormatProjectRole ''eng'' ''dev'' = Inr ''proj:eng:dev''" by code_simp
  from split_subject_roundtrip [OF this] show ?thesis by blast
qed

text \<open>
  The safe normaliser returns a subject that names its type and that passes validation as long
  as it is not too long. The \<open>role:\<close> prefix it puts in front of a bare identifier is not counted
  against the limit of 256 bytes, so an identifier of more than 251 bytes becomes a subject that
  validation rejects.
\<close>

theorem normalized_subject_valid_unless_long:
  assumes "NormalizePolicySubjectSafe s = Inr t"
  shows "(\<exists>ty \<in> set ValidSubjectTypes. has_prefix t (ty @ '':'')) \<and> length t \<le> 261 \<and>
         (validateSubjectFormat t = None) = (length t \<le> 256) \<and> t = NormalizePolicySubject s"
proof -
  let ?s = "trim_space s"
  have typed: "has_prefix ?s ''proj:'' \<or> has_prefix ?s ''role:'' \<or> has_prefix ?s ''user:'' \<or> has_prefix ?s ''group:''
      \<longleftrightarrow> list_ex (\<lambda>p. has_prefix ?s (p @ '':'')) ValidSubjectTypes"
    by (auto simp: ValidSubjectTypes_def)
  consider (given) "list_ex (\<lambda>p. has_prefix ?s (p @ '':'')) ValidSubjectTypes" "t = ?s" "valid_subject ?s"
    | (bare) "\<not> list_ex (\<lambda>p. has_prefix ?s (p @ '':'')) ValidSubjectTypes" "t = ''role:'' @ ?s" "valid_ident ?s"
    using assms
    by (auto simp: NormalizePolicySubjectSafe_def Let_def
          simp flip: ValidateSubjectIdentifier_None validateSubjectFormat_None
          simp del: ValidateSubjectIdentifier_None validateSubjectFormat_None
          split: if_splits option.splits)
  then show ?thesis
  proof cases
    case given
    then have "length t \<le> 256" by (simp add: valid_subject_def)
    then show ?thesis using given typed
      by (auto simp: list_ex_iff NormalizePolicySubject_def Let_def)
  next
    case bare
    then have "valid_subject t \<longleftrightarrow> length t \<le> 256"
      by (auto simp: valid_subject_def ValidSubjectTypes_def)
    moreover have "length ?s \<le> 256" using bare by (simp add: valid_ident_def)
    ultimately show ?thesis using bare typed
      by (auto simp: ValidSubjectTypes_def NormalizePolicySubject_def Let_def)
  qed
qed

theorem normalized_subject_valid_unless_long_witness:
  "validateSubjectFormat (''role:'' @ replicate 252 (CHR ''a'')) \<noteq> None"
proof -
  let ?s = "replicate 252 (CHR ''a'')"
  have trim: "trim_space ?s = ?s" by (rule trim_space_id) (simp add: space_lead_def space_trail_def)
  have v: "ValidateSubjectIdentifier ?s = None" by (simp add: valid_ident_def bad_ident_chars_def)
  have np: "\<not> list_ex (\<lambda>p. has_prefix ?s (p @ '':'')) ValidSubjectTypes"
    by (simp add: ValidSubjectTypes_def eval_nat_numeral)
  have "NormalizePolicySubjectSafe ?s = Inr (''role:'' @ ?s)"
    using v np trim by (simp add: NormalizePolicySubjectSafe_def MaxSubjectIDLength_def Let_def del: ValidateSubjectIdentifier_None)
  from normalized_subject_valid_unless_long [OF this]
  have "(validateSubjectFormat (''role:'' @ ?s) = None) = (length (''role:'' @ ?s) \<le> 256)" by blast
  then show ?thesis by simp
qed

end
