(* ===== verification/Tenant_Isolation.thy ===== *)
theory Tenant_Isolation
  imports Policy_Load Policy_Parser
begin

text \<open>
  What the rules of a loaded project can grant. The scoping of wildcard objects in
  \<open>rbac/policy_enforcer.go\<close> is meant to keep the roles of a project inside it; the theory proves that
  for roles whose policies name wildcards, RGDs or objects of their own project and whose
  destinations are plain namespaces, and shows by example what happens outside these bounds: explicit
  objects of another project, destinations that start with a star, and destinations with commas.
\<close>

subsection \<open>Inside a project\<close>

definition tenant_types :: "string list" where
  "tenant_types = [''instances'', ''secrets'', ''repositories'', ''compliance'', ''applications'']"

definition below_project :: "string \<Rightarrow> string \<Rightarrow> bool" where
  "below_project p ob \<longleftrightarrow> (\<exists>t \<in> set tenant_types. has_prefix ob (t @ ''/'' @ p @ ''/''))"

definition in_project :: "string \<Rightarrow> string \<Rightarrow> bool" where
  "in_project p ob \<longleftrightarrow> ob = ''projects/'' @ p \<or> below_project p ob \<or> has_prefix ob ''rgds/''"

text \<open>Objects a role may name so that scoping keeps it inside its project.\<close>

definition tenant_object :: "string \<Rightarrow> string \<Rightarrow> bool" where
  "tenant_object p ob \<longleftrightarrow>
     ob \<in> {''*'', p @ ''/*'', ''instances/*'', ''secrets/*'', ''repositories/*'', ''compliance/*'', ''projects/*''} \<or>
     in_project p ob"

definition tenant_role :: "string \<Rightarrow> ProjectRole \<Rightarrow> bool" where
  "tenant_role p role \<longleftrightarrow>
     list_all dns_label_regex (role_Destinations role) \<and>
     list_all (\<lambda>str. case policy_triple str of Inr (Some (ob, a, e)) \<Rightarrow> tenant_object p ob | _ \<Rightarrow> True)
       (role_Policies role)"

lemma label_chars: "dns_label_regex s \<Longrightarrow> c \<in> set s \<Longrightarrow> lower_alnum c \<or> c = CHR ''-''"
  by (auto simp: dns_label_regex_def list_all_iff)

lemma label_no_special:
  "dns_label_regex s \<Longrightarrow> CHR ''*'' \<notin> set s \<and> CHR ''/'' \<notin> set s \<and> CHR '','' \<notin> set s \<and> CHR '':'' \<notin> set s"
  using label_chars [of s "CHR ''*''"] label_chars [of s "CHR ''/''"] label_chars [of s "CHR '',''"]
    label_chars [of s "CHR '':''"]
  by (auto simp: lower_alnum_def is_lower_def is_digit_def)

lemma label_plain:
  assumes "dns_label_regex s"
  shows "plain s"
proof -
  have "33 \<le> (of_char c :: nat) \<and> (of_char c :: nat) \<le> 126 \<and> c \<noteq> CHR '',''" if "c \<in> set s" for c
    using label_chars [OF assms that] label_no_special [OF assms] that
    by (auto simp: lower_alnum_def is_lower_def is_digit_def)
  then show ?thesis using dns_label_nonempty [OF assms] by (auto simp: plain_def list_all_iff)
qed

lemma plain_append: "plain a \<Longrightarrow> plain b \<Longrightarrow> plain (a @ b)"
  by (simp add: plain_def)

subsection \<open>Scoped objects\<close>

lemma scopeResource_below:
  "so \<in> set (scopeResourceToDestinations t p ds) \<Longrightarrow> has_prefix so (t @ ''/'' @ p @ ''/'')"
  by (auto simp: scopeResourceToDestinations_def split: if_splits)

lemma below_intro: "t \<in> set tenant_types \<Longrightarrow> has_prefix ob (t @ ''/'' @ p @ ''/'') \<Longrightarrow> below_project p ob"
  by (auto simp: below_project_def)

lemma trim_types: "trim_suffix ''instances/'' ''/'' = ''instances''" "trim_suffix ''secrets/'' ''/'' = ''secrets''"
  "trim_suffix ''repositories/'' ''/'' = ''repositories''" "trim_suffix ''compliance/'' ''/'' = ''compliance''"
  by code_simp+

lemma scoped_in_project:
  assumes "tenant_object p ob" "so \<in> set (scopeObjectToProjectWithDestinations p ob ds)"
  shows "in_project p so"
proof -
  have sub: "so \<in> set (scopeResourceToDestinations t p ds) \<Longrightarrow> t \<in> set tenant_types \<Longrightarrow> in_project p so" for t
    using scopeResource_below below_intro in_project_def by blast
  have wide: "t \<in> set tenant_types \<Longrightarrow> in_project p (t @ ''/'' @ p @ ''/*'')" for t
    using below_intro [of t p "t @ ''/'' @ p @ ''/*''"] by (simp add: in_project_def)
  have types: "''instances'' \<in> set tenant_types" "''secrets'' \<in> set tenant_types"
     "''repositories'' \<in> set tenant_types" "''compliance'' \<in> set tenant_types"
    by (simp_all add: tenant_types_def)
  show ?thesis
  proof (cases "ob = ''*'' \<or> ob = p @ ''/*''")
    case True
    then have "scopeObjectToProjectWithDestinations p ob ds =
        [''projects/'' @ p] @ scopeResourceToDestinations ''instances'' p ds
        @ scopeResourceToDestinations ''secrets'' p ds
        @ [''repositories'' @ ''/'' @ p @ ''/*'', ''compliance'' @ ''/'' @ p @ ''/*'', ''rgds/*'']"
      by (simp add: scopeObjectToProjectWithDestinations_def)
    then have "so = ''repositories'' @ ''/'' @ p @ ''/*'' \<or> so = ''compliance'' @ ''/'' @ p @ ''/*'' \<or> so = ''rgds/*'' \<or>
        so = ''projects/'' @ p \<or> so \<in> set (scopeResourceToDestinations ''instances'' p ds) \<or>
        so \<in> set (scopeResourceToDestinations ''secrets'' p ds)"
      using assms(2) by (simp del: append_Cons append_Nil)
    then show ?thesis using sub types wide [OF types(3)] wide [OF types(4)] by (auto simp: in_project_def)
  next
    case other: False
    show ?thesis
    proof (cases "ob \<in> {''instances/*'', ''secrets/*'', ''repositories/*'', ''compliance/*''}")
      case True
      then have "so \<in> set (scopeResourceToDestinations ''instances'' p ds) \<or>
          so \<in> set (scopeResourceToDestinations ''secrets'' p ds) \<or>
          so = ''repositories'' @ ''/'' @ p @ ''/*'' \<or> so = ''compliance'' @ ''/'' @ p @ ''/*''"
        using assms(2) other
        by (elim insertE emptyE)
           (simp_all add: scopeObjectToProjectWithDestinations_def trim_types [simplified])
      then show ?thesis using sub types wide [OF types(3)] wide [OF types(4)] by (auto simp: in_project_def)
    next
      case False
      then have "so = (if ob = ''projects/*'' then ''projects/'' @ p else ob)"
        using assms(2) other by (simp add: scopeObjectToProjectWithDestinations_def split: if_splits)
      moreover have "ob = ''projects/*'' \<or> in_project p ob"
        using assms(1) other False by (simp add: tenant_object_def)
      ultimately show ?thesis by (auto simp: in_project_def)
    qed
  qed
qed

subsection \<open>Built-in policies\<close>

text \<open>A string of three plain fields parses to them, unless it is too long.\<close>

lemma policy_triple_three:
  assumes "plain ob" "plain a" "plain e" "policy_triple (ob @ '', '' @ a @ '', '' @ e) = Inr t"
  shows "t = Some (ob, a, e)"
proof -
  let ?s = "ob @ '', '' @ a @ '', '' @ e"
  have ends: "ob \<noteq> []" "hd ob \<notin> space_lead" "e \<noteq> []" "last e \<notin> space_trail"
    "CHR '','' \<notin> set ob" "CHR '','' \<notin> set a" "CHR '','' \<notin> set e"
    using plain_ends assms(1-3) by auto
  have trim: "trim_space ?s = ?s"
    using ends by (intro trim_space_ends) auto
  have split: "split_on (CHR '','') ?s = [ob, '' '' @ a, '' '' @ e]"
    using ends by (simp add: split_on_append split_on_Cons_append split_on_Cons_no_sep del: split_on.simps)
  have "map trim_space (split_on (CHR '','') ?s) = [ob, a, e]"
    unfolding split using assms(1-3) by (simp add: trim_space_blank trim_space_plain)
  then show ?thesis
    using assms(4) ends(1) unfolding policy_triple_def trim Let_def
    by (simp del: append.simps append_assoc split: if_splits)
qed

definition policy_of :: "string \<times> string \<Rightarrow> string" where
  "policy_of oa = fst oa @ '', '' @ snd oa @ '', '' @ ''allow''"

definition builtin_table :: "string \<Rightarrow> (string \<times> string) list" where
  "builtin_table p =
     [(''repositories/'' @ p @ ''/*'', ''*''), (''projects/'' @ p, ''update''), (''projects/'' @ p, ''member-add''),
      (''projects/'' @ p, ''member-remove''), (''instances/'' @ p @ ''/*'', ''*''), (''rgds/*'', ''get''),
      (''rgds/*'', ''list''), (''compliance/'' @ p @ ''/*'', ''get''), (''compliance/'' @ p @ ''/*'', ''list''),
      (''secrets/'' @ p @ ''/*'', ''*''),
      (''projects/'' @ p, ''get''), (''instances/'' @ p @ ''/*'', ''get''), (''instances/'' @ p @ ''/*'', ''list''),
      (''repositories/'' @ p @ ''/*'', ''get''), (''repositories/'' @ p @ ''/*'', ''list''),
      (''applications/'' @ p @ ''/*'', ''get''), (''applications/'' @ p @ ''/*'', ''list''),
      (''secrets/'' @ p @ ''/*'', ''get''), (''secrets/'' @ p @ ''/*'', ''list'')]"

lemma builtin_strings_table:
  "str \<in> set (getBuiltInAdminPolicies p) \<union> set (getBuiltInReadonlyPolicies p) \<Longrightarrow>
   str \<in> policy_of ` set (builtin_table p)"
  by (auto simp: getBuiltInAdminPolicies_def getBuiltInReadonlyPolicies_def builtin_table_def policy_of_def)

definition good_entry :: "string \<Rightarrow> string \<times> string \<Rightarrow> bool" where
  "good_entry p oa \<longleftrightarrow> plain (fst oa) \<and> plain (snd oa) \<and> in_project p (fst oa)"

lemma plain_consts:
  "plain ''*''" "plain ''update''" "plain ''member-add''" "plain ''member-remove''" "plain ''get''" "plain ''list''"
  "plain ''rgds/*''" "plain ''projects/''" "plain ''instances/''" "plain ''secrets/''" "plain ''repositories/''"
  "plain ''compliance/''" "plain ''applications/''" "plain ''/*''" "plain ''allow''" "plain ''/''"
  by code_simp+

lemma below_consts:
  "t \<in> set tenant_types \<Longrightarrow> in_project p (t @ ''/'' @ p @ ''/'' @ rest)"
  using below_intro [of t p "t @ ''/'' @ p @ ''/'' @ rest"] by (simp add: in_project_def)

lemma table_good:
  assumes "dns_label_regex p"
  shows "list_all (good_entry p) (builtin_table p)"
proof -
  have types: "''instances'' \<in> set tenant_types" "''secrets'' \<in> set tenant_types" "''repositories'' \<in> set tenant_types"
    "''compliance'' \<in> set tenant_types" "''applications'' \<in> set tenant_types"
    by (simp_all add: tenant_types_def)
  have wide: "plain c \<Longrightarrow> plain a \<Longrightarrow> t \<in> set tenant_types \<Longrightarrow> c = t @ ''/'' \<Longrightarrow> good_entry p (c @ p @ ''/*'', a)" for c a t
  proof -
    assume c: "plain c" "plain a" "t \<in> set tenant_types" "c = t @ ''/''"
    have "plain (c @ p @ ''/*'')" by (intro plain_append label_plain assms c(1) plain_consts)
    then show "good_entry p (c @ p @ ''/*'', a)"
      using below_consts [of t p "''*''"] c by (simp add: good_entry_def)
  qed
  have proj: "plain a \<Longrightarrow> good_entry p (''projects/'' @ p, a)" for a
    using plain_append [OF plain_consts(8) label_plain [OF assms]] by (simp add: good_entry_def in_project_def)
  have rgd: "plain a \<Longrightarrow> good_entry p (''rgds/*'', a)" for a
    using plain_consts(7) by (simp add: good_entry_def in_project_def)
  show ?thesis
    unfolding builtin_table_def list.pred_inject
    by (intro conjI TrueI proj rgd plain_consts
        wide [OF plain_consts(9) _ types(1)] wide [OF plain_consts(10) _ types(2)]
        wide [OF plain_consts(11) _ types(3)] wide [OF plain_consts(12) _ types(4)]
        wide [OF plain_consts(13) _ types(5)]) simp_all
qed

lemma policy_of_parts:
  assumes "good_entry p oa"
  shows "trim_space (policy_of oa) = policy_of oa \<and>
         map trim_space (split_on (CHR '','') (policy_of oa)) = [fst oa, snd oa, ''allow''] \<and>
         policy_of oa \<noteq> []"
proof -
  have pl: "plain (fst oa)" "plain (snd oa)" using assms by (simp_all add: good_entry_def)
  note e = plain_ends [OF pl(1)] plain_ends [OF pl(2)] plain_ends [OF plain_consts(15)]
  have "trim_space (policy_of oa) = policy_of oa"
    using e by (intro trim_space_ends) (auto simp: policy_of_def)
  moreover have "split_on (CHR '','') (policy_of oa) = [fst oa, '' '' @ snd oa, '' '' @ ''allow'']"
    using e by (simp add: policy_of_def split_on_append split_on_Cons_append split_on_Cons_no_sep del: split_on.simps)
  ultimately show ?thesis
    using e pl plain_consts(15) by (simp add: trim_space_blank trim_space_plain) (simp add: policy_of_def)
qed

lemma dest_strings_good:
  assumes "good_entry p oa" "dns_label_regex p" "list_all dns_label_regex ds"
    and "x \<in> set (dest_strings p ds (policy_of oa))"
  shows "\<exists>oa'. x = policy_of oa' \<and> good_entry p oa'"
proof (cases "ds = [] \<or> x = policy_of oa")
  case True
  then have "x = policy_of oa" using assms(4) by (auto simp: dest_strings_def)
  then show ?thesis using assms(1) by blast
next
  case False
  note P = policy_of_parts [OF assms(1)]
  have dest: "\<exists>oa'. x = policy_of oa' \<and> good_entry p oa'"
    if "t \<in> set tenant_types" "plain t"
      and x: "x \<in> (\<lambda>dest. t @ ''/'' @ p @ ''/'' @ dest @ ''/*'' @ '', '' @ snd oa @ '', '' @ ''allow'') ` set ds" for t
  proof -
    obtain d where d: "d \<in> set ds" "x = policy_of (t @ ''/'' @ p @ ''/'' @ d @ ''/*'', snd oa)"
      using x by (auto simp: policy_of_def)
    have pd: "plain p" "plain d" using assms(2,3) d(1) label_plain by (auto simp: list_all_iff)
    have "plain (t @ ''/'' @ p @ ''/'' @ d @ ''/*'')"
      by (intro plain_append plain_consts pd that(2))
    then have "good_entry p (t @ ''/'' @ p @ ''/'' @ d @ ''/*'', snd oa)"
      using assms(1) below_consts [OF that(1)] by (simp add: good_entry_def)
    then show ?thesis using d(2) by blast
  qed
  have "x \<in> (\<lambda>dest. ''instances'' @ ''/'' @ p @ ''/'' @ dest @ ''/*'' @ '', '' @ snd oa @ '', '' @ ''allow'') ` set ds \<or>
        x \<in> (\<lambda>dest. ''secrets'' @ ''/'' @ p @ ''/'' @ dest @ ''/*'' @ '', '' @ snd oa @ '', '' @ ''allow'') ` set ds"
    using assms(4) False P
    by (auto simp: dest_strings_def Let_def trim_types [simplified] split: option.splits if_splits)
  then show ?thesis
    using dest [of "''instances''"] dest [of "''secrets''"] by (auto simp: tenant_types_def plain_def list_all_iff)
qed

lemma plain_rules_good:
  assumes "good_entry p oa" "q \<in> plain_rules rn (policy_of oa)"
  shows "\<exists>ob a e. q = [rn, ob, a, e] \<and> in_project p ob"
proof -
  obtain t where t: "policy_triple (policy_of oa) = Inr t"
    using assms(2) by (auto simp: plain_rules_def split: sum.splits)
  have "t = Some (fst oa, snd oa, ''allow'')"
    using policy_triple_three [of "fst oa" "snd oa" "''allow''" t] assms(1) t plain_consts(15)
    by (simp add: good_entry_def policy_of_def)
  then show ?thesis using assms t by (auto simp: plain_rules_def good_entry_def)
qed

lemma role_rules_in_project:
  assumes "dns_label_regex p" "tenant_role p role" "q \<in> role_rules p role"
  shows "\<exists>rn ob a e. q = [rn, ob, a, e] \<and> in_project p ob"
proof -
  let ?rn = "role_prefix p @ role_Name role"
  consider (custom) str where "str \<in> set (role_Policies role)" "q \<in> scoped_rules p (role_Destinations role) ?rn str"
    | (builtin) str where "str \<in> set (role_strings p role)" "q \<in> plain_rules ?rn str"
    using assms(3) by (auto simp: role_rules_def split: if_splits)
  then show ?thesis
  proof cases
    case custom
    then obtain ob a e so na where "policy_triple str = Inr (Some (ob, a, e))"
        "so \<in> set (scopeObjectToProjectWithDestinations p ob (role_Destinations role))" "q = [?rn, so, na, e]"
      by (auto simp: scoped_rules_def split: sum.splits option.splits if_splits)
    moreover have "tenant_object p ob"
      using assms(2) custom(1) calculation(1) by (fastforce simp: tenant_role_def list_all_iff)
    ultimately show ?thesis using scoped_in_project by blast
  next
    case builtin
    then obtain str0 where "str0 \<in> set (getBuiltInAdminPolicies p) \<union> set (getBuiltInReadonlyPolicies p)"
        "str \<in> set (dest_strings p (role_Destinations role) str0)"
      by (auto simp: role_strings_def split: if_splits)
    moreover then obtain oa where "oa \<in> set (builtin_table p)" "str0 = policy_of oa"
      using builtin_strings_table by blast
    moreover have "good_entry p oa"
      using table_good [OF assms(1)] calculation(3) by (simp add: list_all_iff)
    moreover have "list_all dns_label_regex (role_Destinations role)" using assms(2) by (simp add: tenant_role_def)
    ultimately obtain oa' where "str = policy_of oa'" "good_entry p oa'"
      using dest_strings_good assms(1) by blast
    then show ?thesis using plain_rules_good builtin(2) by blast
  qed
qed

subsection \<open>Requests that the rules match\<close>

context casbin_engine begin

lemma km_literal_prefix:
  assumes "CHR ''*'' \<notin> set a" "km req (a @ rest)"
  shows "prefix a req"
proof (cases "CHR ''*'' \<in> set rest")
  case True
  then obtain u v where uv: "rest = u @ CHR ''*'' # v" "CHR ''*'' \<notin> set u"
    by (meson split_list_first)
  have "km req ((a @ u) @ ''*'' @ v)" using assms(2) uv by simp
  then have "prefix (a @ u) req" using km_star [of "a @ u" req v] assms(1) uv(2) by simp
  then show ?thesis by (rule prefix_appendD)
next
  case False
  then have "req = a @ rest" using km_exact [of "a @ rest" req] assms by simp
  then show ?thesis by simp
qed

lemma km_in_project:
  assumes "CHR ''*'' \<notin> set p" "in_project p ob" "km req ob"
  shows "in_project p req"
proof -
  have lit: "prefix a ob \<Longrightarrow> CHR ''*'' \<notin> set a \<Longrightarrow> prefix a req" for a
    using km_literal_prefix assms(3) by (auto simp: prefix_def)
  have types: "t \<in> set tenant_types \<Longrightarrow> CHR ''*'' \<notin> set t" for t by (auto simp: tenant_types_def)
  consider "ob = ''projects/'' @ p" | t where "t \<in> set tenant_types" "prefix (t @ ''/'' @ p @ ''/'') ob"
    | "prefix ''rgds/'' ob"
    using assms(2) by (auto simp: in_project_def below_project_def)
  then show ?thesis
  proof cases
    case 1
    then show ?thesis using km_exact [of ob req] assms(1,3) by (simp add: in_project_def)
  next
    case 2
    have "CHR ''*'' \<notin> set (t @ ''/'' @ p @ ''/'')" using types [OF 2(1)] assms(1) by simp
    then show ?thesis using lit [OF 2(2)] 2(1) below_intro in_project_def by blast
  next
    case 3
    then show ?thesis using lit [of "''rgds/''"] by (simp add: in_project_def)
  qed
qed

text \<open>A subject without links of its own is linked to itself only.\<close>

lemma only_itself:
  assumes "\<forall>x. (a, x) \<notin> grp s \<and> (a, x) \<notin> grp2 s" "hl s a b \<or> hl2 s a b"
  shows "a = b"
proof -
  have "(a, b) \<in> (grp s)\<^sup>* \<or> (a, b) \<in> (grp2 s)\<^sup>*" using assms(2) hl_sound hl2_sound by blast
  then show ?thesis using assms(1) by (auto elim: converse_rtranclE)
qed

end

subsection \<open>Properties\<close>



definition demo_escape :: Project where
  "demo_escape = demo_project ''alpha'' [demo_role ''dev'' [''instances/beta/*, *, allow''] []]"

text \<open>
  An object that names another project explicitly is not scoped. A project \<open>alpha\<close> whose role
  \<open>dev\<close> has the policy \<open>instances/beta/*, *, allow\<close> is loaded without an error, and from then on the
  role may delete the instances of project \<open>beta\<close>: the loader passes explicit objects through, and
  nothing later rejects them.
\<close>

theorem explicit_foreign_object_is_granted:
  assumes "casbin_engine lib pol grp grp2 hl hl2 km" "pol (pe_engine pe) = {}"
    and "LoadProjectPolicies lib ops unmarshal (Some demo_escape) pe = (None, pe')"
    and "\<forall>x. (''proj:alpha:dev'', x) \<notin> grp (pe_engine pe') \<and> (''proj:alpha:dev'', x) \<notin> grp2 (pe_engine pe')"
  shows "ce_Enforce lib (pe_engine pe') ''proj:alpha:dev'' (''instances/beta/'' @ nm) ''delete'' = Inr True"
proof -
  note E = assms(1)
  have nm: "pj_Name demo_escape = ''alpha''" by (simp add: demo_escape_def demo_project_def)
  obtain e pe1 where L: "loadProjectPoliciesLocked lib unmarshal demo_escape pe = (e, pe1)" "e = None"
      and eng: "pe_engine pe' = pe_engine pe1"
    using LoadProjectPolicies_cases [OF assms(3)] nm by auto
  have r4: "casbin_engine.rules4 pol (pe_engine pe)"
    using assms(2) by (simp add: casbin_engine.rules4_def [OF E])
  have R: "project_rules demo_escape = {[''proj:alpha:dev'', ''instances/beta/*'', ''*'', ''allow'']}"
    by code_simp
  have own: "{q \<in> pol (pe_engine pe'). owned ''alpha'' q} = project_rules demo_escape"
    and "{q \<in> pol (pe_engine pe'). \<not> owned ''alpha'' q} = {}"
    using casbin_engine.load_effect [OF E r4 L(1)] assms(2) L(2) nm unfolding eng
    by (simp_all add: casbin_engine.own_rules_def [OF E] casbin_engine.foreign_rules_def [OF E])
  then have pol: "pol (pe_engine pe') = {[''proj:alpha:dev'', ''instances/beta/*'', ''*'', ''allow'']}"
    using R by blast
  have "km (''instances/beta/'' @ nm) (''instances/beta/'' @ ''*'' @ [])"
    using casbin_engine.km_star [OF E, of "''instances/beta/''" "''instances/beta/'' @ nm" "[]"] by simp
  moreover have "km ''delete'' ''*''" by (rule casbin_engine.km_any [OF E])
  moreover have "hl (pe_engine pe') ''proj:alpha:dev'' ''proj:alpha:dev''" by (rule casbin_engine.hl_refl [OF E])
  ultimately show ?thesis
    unfolding ce_Enforce_def casbin_engine.Enforce_iff [OF E] pol by simp
qed

theorem explicit_foreign_object_is_granted_witness:
  "ce_Enforce mem_lib (pe_engine (snd (LoadProjectPolicies mem_lib memory_cache_ops no_bindings (Some demo_escape)
      (demo_pe [])))) ''proj:alpha:dev'' ''instances/beta/x'' ''delete'' = Inr True"
proof -
  let ?r = "LoadProjectPolicies mem_lib memory_cache_ops no_bindings (Some demo_escape) (demo_pe [])"
  have "fst ?r = None" "mem_g (pe_engine (snd ?r)) = []" "mem_g2 (pe_engine (snd ?r)) = []"
    by code_simp+
  moreover then have "?r = (None, snd ?r)" by (metis prod.collapse)
  moreover have "mem_pol (pe_engine (demo_pe [])) = {}" by (simp add: demo_pe_def)
  ultimately show ?thesis
    using explicit_foreign_object_is_granted [OF mem.casbin_engine_axioms, of "demo_pe []" memory_cache_ops
        no_bindings "snd ?r" "''x''"] by simp
qed

text \<open>
  A role destination that starts with a star does not narrow a role. The object it is expanded to
  has its first star right after the project, and \<open>keyMatch\<close> ignores what follows the first star, so
  the engine matches it against exactly the requests that the project-wide object matches.
\<close>

theorem leading_star_destination_is_project_wide:
  assumes "casbin_engine lib pol grp grp2 hl hl2 km" "CHR ''*'' \<notin> set t" "CHR ''*'' \<notin> set p"
  shows "\<exists>so. scopeResourceToDestinations t p [''*'' @ d] = [so] \<and>
           scopeResourceToDestinations t p [] = [t @ ''/'' @ p @ ''/*''] \<and>
           km req so = km req (t @ ''/'' @ p @ ''/*'') \<and> km req so = has_prefix req (t @ ''/'' @ p @ ''/'')"
proof -
  have lit: "CHR ''*'' \<notin> set (t @ ''/'' @ p @ ''/'')" using assms(2,3) by simp
  have "km req ((t @ ''/'' @ p @ ''/'') @ ''*'' @ rest) = has_prefix req (t @ ''/'' @ p @ ''/'')" for rest
    by (rule casbin_engine.km_star [OF assms(1) lit])
  from this [of "d @ ''/*''"] this [of "[]"] show ?thesis
    by (simp add: scopeResourceToDestinations_def)
qed

theorem leading_star_destination_is_project_wide_witness:
  "\<exists>so. scopeResourceToDestinations ''instances'' ''alpha'' [''*-prod''] = [so] \<and>
     mem_keyMatch ''instances/alpha/team-dev/x'' so"
  using leading_star_destination_is_project_wide [OF mem.casbin_engine_axioms, of "''instances''" "''alpha''" "''-prod''"
      "''instances/alpha/team-dev/x''"] by auto

definition demo_injection :: ProjectSpec where
  "demo_injection =
     (pj_Spec (demo_project ''alpha'' []))
       \<lparr>spec_Destinations := [\<lparr>dest_Namespace = ''x,y,settings,*'', dest_Name = []\<rparr>],
        spec_Roles := [(demo_role ''admin'' [''projects/*, get, allow''] [])
                         \<lparr>role_Destinations := [''x,y,settings,*'']\<rparr>]\<rparr>"


definition demo_broken :: Project where
  "demo_broken = demo_project ''alpha'' [demo_role ''dev'' [''instances/*, get, allow'', ''broken''] []]"

text \<open>
  A load that fails half way leaves rules that no synchronisation finds. The project below has a
  good and a malformed policy; loading it reports an error but keeps the rule of the first policy, and
  since the project is not recorded as loaded, a later \<open>SyncPolicies\<close> that finds the project gone
  reports success and keeps the rule.
\<close>

theorem failed_load_leaves_untracked_rules:
  "case LoadProjectPolicies mem_lib memory_cache_ops no_bindings (Some demo_broken) (demo_pe []) of
     (err, pe) \<Rightarrow>
       err \<noteq> None \<and>
       (case SyncPolicies mem_lib memory_cache_ops no_bindings
               (Some \<lparr>pr_ListProjects = Inr [], pr_FindProjectForNamespace = \<lambda>_. Inr None\<rparr>) pe of
          (err', pe') \<Rightarrow>
            err' = None \<and>
            mem_p (pe_engine pe') = [[''proj:alpha:dev'', ''instances/alpha/*'', ''get'', ''allow'']])"
  by code_simp

end
