(* ===== verification/Policy_Enforce.thy ===== *)
theory Policy_Enforce
  imports Policy_Load
begin

text \<open>
  The deciding half of \<open>rbac/policy_enforcer.go\<close>: \<open>CanAccess\<close>, \<open>CanAccessWithGroups\<close> and what they
  build on, the assignment of roles to users, and the invalidation of cached decisions. A decision is
  compared with the plain question asked of the engine, without cache; the cache is any
  implementation of \<open>cache_ops\<close> with the contract \<open>authz_cache\<close>, and \<open>pe_coherent\<close> says that it can
  only answer what the engine would. One request reads the clock once (\<open>now\<close>); the interval between
  the reads of one request in the code is ignored.
\<close>

subsection \<open>The cache around a request\<close>

text \<open>\<open>pe.cache.Get\<close> under \<open>pe.cacheEnabled && pe.cache != nil\<close>: the decision on a hit.\<close>

definition cached ::
  "'c cache_ops \<Rightarrow> int \<Rightarrow> string \<Rightarrow> string \<Rightarrow> string \<Rightarrow> ('s, 'c) policyEnforcer \<Rightarrow>
   bool option \<times> ('s, 'c) policyEnforcer" where
  "cached ops now subject object action pe =
     (case pe_cache pe of
        None \<Rightarrow> (None, pe)
      | Some c \<Rightarrow>
          (if \<not> pe_cacheEnabled pe then (None, pe)
           else (case co_Get ops c now subject object action of
                   ((allowed, found), c') \<Rightarrow>
                     (if found then Some allowed else None, pe\<lparr>pe_cache := Some c'\<rparr>))))"

definition store_decision ::
  "'c cache_ops \<Rightarrow> int \<Rightarrow> string \<Rightarrow> string \<Rightarrow> string \<Rightarrow> bool \<Rightarrow> ('s, 'c) policyEnforcer \<Rightarrow>
   ('s, 'c) policyEnforcer" where
  "store_decision ops now subject object action allowed pe =
     (case pe_cache pe of
        None \<Rightarrow> pe
      | Some c \<Rightarrow>
          (if pe_cacheEnabled pe \<and> pe_cacheTTL pe > 0
           then pe\<lparr>pe_cache := Some (co_Set ops c now subject object action allowed (pe_cacheTTL pe))\<rparr>
           else pe))"

subsection \<open>\<open>CanAccess\<close>\<close>

definition CanAccess ::
  "'s casbin_lib \<Rightarrow> 'c cache_ops \<Rightarrow> int \<Rightarrow> string \<Rightarrow> string \<Rightarrow> string \<Rightarrow> ('s, 'c) policyEnforcer \<Rightarrow>
   (gerror + bool) \<times> ('s, 'c) policyEnforcer" where
  "CanAccess lib ops now user object action pe =
     (if user = [] then (Inl (Wrap ''user cannot be empty'' ErrAccessDenied), pe)
      else if object = [] then (Inl (Wrap ''object cannot be empty'' ErrAccessDenied), pe)
      else if action = [] then (Inl (Wrap ''action cannot be empty'' ErrAccessDenied), pe)
      else (case cached ops now user object action pe of
              (Some allowed, pe1) \<Rightarrow> (Inr allowed, pe1)
            | (None, pe1) \<Rightarrow>
                (case ce_Enforce lib (pe_engine pe1) user object action of
                   Inl e \<Rightarrow> (Inl (Wrap ''policy enforcement error'' e), pe1)
                 | Inr allowed \<Rightarrow>
                     (Inr allowed, store_decision ops now user object action allowed pe1))))"

subsection \<open>\<open>CanAccessWithGroups\<close>\<close>

definition resolveNamespaceToProjectObject :: "project_reader option \<Rightarrow> string \<Rightarrow> string" where
  "resolveNamespaceToProjectObject reader object =
     (if \<not> has_prefix object ''instances/'' then []
      else (let parts = split_on (CHR ''/'') object
            in if length parts < 2 then []
               else if parts ! 1 = [] \<or> parts ! 1 = ''*'' then []
               else (case reader of
                       None \<Rightarrow> []
                     | Some rd \<Rightarrow>
                         (case pr_FindProjectForNamespace rd (parts ! 1) of
                            Inl _ \<Rightarrow> []
                          | Inr None \<Rightarrow> []
                          | Inr (Some project) \<Rightarrow>
                              parts ! 0 @ ''/'' @ pj_Name project @ ''/'' @ join_on ''/'' (tl parts)))))"

text \<open>
  The loops of \<open>getProjectScopedWildcards\<close>; the accumulator holds \<open>seenProjects\<close>, \<open>seenObjects\<close> and
  \<open>wildcards\<close>.
\<close>

fun add_policy_objects ::
  "string \<Rightarrow> string list list \<Rightarrow> string list \<times> string list \<times> string list \<Rightarrow>
   string list \<times> string list \<times> string list" where
  "add_policy_objects pre [] acc = acc"
| "add_policy_objects pre (policy # rest) (sp, so, ws) =
     add_policy_objects pre rest
       (if length policy \<ge> 2 \<and> has_prefix (policy ! 1) pre \<and> policy ! 1 \<noteq> pre @ ''*'' \<and> policy ! 1 \<notin> set so
        then (sp, policy ! 1 # so, ws @ [policy ! 1]) else (sp, so, ws))"

fun add_role_wildcards ::
  "'s casbin_lib \<Rightarrow> 's \<Rightarrow> string \<Rightarrow> string list \<Rightarrow> string list \<times> string list \<times> string list \<Rightarrow>
   string list \<times> string list \<times> string list" where
  "add_role_wildcards lib s resourceType [] acc = acc"
| "add_role_wildcards lib s resourceType (role # roles) (sp, so, ws) =
     add_role_wildcards lib s resourceType roles
       (let acc1 =
          (if has_prefix role ''proj:''
           then (let parts = split_on (CHR '':'') role
                 in if length parts \<ge> 2 \<and> parts ! 1 \<notin> set sp
                    then (parts ! 1 # sp, so, ws @ [resourceType @ ''/'' @ parts ! 1 @ ''/*''])
                    else (sp, so, ws))
           else (sp, so, ws))
        in case ce_GetPoliciesForRole lib s role of
             Inl _ \<Rightarrow> acc1
           | Inr rolePolicies \<Rightarrow> add_policy_objects (resourceType @ ''/'') rolePolicies acc1)"

fun add_group_wildcards ::
  "'s casbin_lib \<Rightarrow> 's \<Rightarrow> string \<Rightarrow> string list \<Rightarrow> string list \<times> string list \<times> string list \<Rightarrow>
   string list \<times> string list \<times> string list" where
  "add_group_wildcards lib s resourceType [] acc = acc"
| "add_group_wildcards lib s resourceType (g # gs) acc =
     add_group_wildcards lib s resourceType gs
       (if g = [] then acc
        else (case FormatGroupSubject g of
                Inl _ \<Rightarrow> acc
              | Inr groupSubject \<Rightarrow>
                  (case ce_GetRolesForUser lib s groupSubject of
                     Inl _ \<Rightarrow> acc
                   | Inr roles \<Rightarrow> add_role_wildcards lib s resourceType roles acc)))"

definition getProjectScopedWildcards :: "'s casbin_lib \<Rightarrow> 's \<Rightarrow> string list \<Rightarrow> string \<Rightarrow> string list" where
  "getProjectScopedWildcards lib s groups resourceType =
     (case add_group_wildcards lib s resourceType groups ([], [], []) of (_, _, wildcards) \<Rightarrow> wildcards)"

definition objectsToCheck ::
  "'s casbin_lib \<Rightarrow> project_reader option \<Rightarrow> string list \<Rightarrow> string \<Rightarrow> string \<Rightarrow> 's \<Rightarrow> string list" where
  "objectsToCheck lib reader groups object action s =
     [object]
     @ (let scoped = resolveNamespaceToProjectObject reader object in if scoped \<noteq> [] then [scoped] else [])
     @ (if action = ''list'' \<and> has_suffix object ''/*'' \<and> reader \<noteq> None
        then getProjectScopedWildcards lib s groups (trim_suffix object ''/*'') else [])"

text \<open>Step 1: the user, where an error ends the request.\<close>

fun check_user ::
  "'s casbin_lib \<Rightarrow> 'c cache_ops \<Rightarrow> int \<Rightarrow> string \<Rightarrow> string \<Rightarrow> string list \<Rightarrow> ('s, 'c) policyEnforcer \<Rightarrow>
   (gerror + bool) \<times> ('s, 'c) policyEnforcer" where
  "check_user lib ops now user action [] pe = (Inr False, pe)"
| "check_user lib ops now user action (ob # obs) pe =
     (case CanAccess lib ops now user ob action pe of
        (Inl e, pe1) \<Rightarrow> (Inl e, pe1)
      | (Inr True, pe1) \<Rightarrow> (Inr True, pe1)
      | (Inr False, pe1) \<Rightarrow> check_user lib ops now user action obs pe1)"

text \<open>The inner loop of steps 2 and 3, for one group or role, where an error skips the object.\<close>

fun check_subject ::
  "'s casbin_lib \<Rightarrow> 'c cache_ops \<Rightarrow> int \<Rightarrow> string \<Rightarrow> string \<Rightarrow> string list \<Rightarrow> ('s, 'c) policyEnforcer \<Rightarrow>
   bool \<times> ('s, 'c) policyEnforcer" where
  "check_subject lib ops now subject action [] pe = (False, pe)"
| "check_subject lib ops now subject action (ob # obs) pe =
     (case cached ops now subject ob action pe of
        (Some True, pe1) \<Rightarrow> (True, pe1)
      | (Some False, pe1) \<Rightarrow> check_subject lib ops now subject action obs pe1
      | (None, pe1) \<Rightarrow>
          (case ce_Enforce lib (pe_engine pe1) subject ob action of
             Inl _ \<Rightarrow> check_subject lib ops now subject action obs pe1
           | Inr allowed \<Rightarrow>
               (let pe2 = store_decision ops now subject ob action allowed pe1
                in if allowed then (True, pe2) else check_subject lib ops now subject action obs pe2)))"

fun check_subjects ::
  "'s casbin_lib \<Rightarrow> 'c cache_ops \<Rightarrow> int \<Rightarrow> string list \<Rightarrow> string \<Rightarrow> string list \<Rightarrow> ('s, 'c) policyEnforcer \<Rightarrow>
   bool \<times> ('s, 'c) policyEnforcer" where
  "check_subjects lib ops now [] action obs pe = (False, pe)"
| "check_subjects lib ops now (subj # subjs) action obs pe =
     (case check_subject lib ops now subj action obs pe of
        (True, pe1) \<Rightarrow> (True, pe1)
      | (False, pe1) \<Rightarrow> check_subjects lib ops now subjs action obs pe1)"

text \<open>The subjects of the group loop: empty and invalid names are skipped.\<close>

fun group_subjects :: "string list \<Rightarrow> string list" where
  "group_subjects [] = []"
| "group_subjects (g # gs) =
     (if g = [] then group_subjects gs
      else (case FormatGroupSubject g of
              Inl _ \<Rightarrow> group_subjects gs
            | Inr subject \<Rightarrow> subject # group_subjects gs))"

text \<open>The server-side roles: those of the user, or of the user with the prefix \<open>user:\<close> toggled.\<close>

definition server_roles :: "'s casbin_lib \<Rightarrow> 's \<Rightarrow> string \<Rightarrow> gerror + string list" where
  "server_roles lib s user =
     (case ce_GetImplicitRolesForUser lib s user of
        Inl e \<Rightarrow> Inl e
      | Inr roles \<Rightarrow>
          (if length roles = 0
           then (let altUser = (if has_prefix user ''user:'' then trim_prefix user ''user:'' else ''user:'' @ user)
                 in case ce_GetImplicitRolesForUser lib s altUser of
                      Inl _ \<Rightarrow> Inr roles
                    | Inr altRoles \<Rightarrow> Inr (if length altRoles > 0 then altRoles else roles))
           else Inr roles))"

definition CanAccessWithGroups ::
  "'s casbin_lib \<Rightarrow> 'c cache_ops \<Rightarrow> project_reader option \<Rightarrow> int \<Rightarrow> string \<Rightarrow> string list \<Rightarrow> string \<Rightarrow> string \<Rightarrow>
   ('s, 'c) policyEnforcer \<Rightarrow> (gerror + bool) \<times> ('s, 'c) policyEnforcer" where
  "CanAccessWithGroups lib ops reader now user groups object action pe =
     (let obs = objectsToCheck lib reader groups object action (pe_engine pe)
      in case check_user lib ops now user action obs pe of
           (Inl e, pe1) \<Rightarrow> (Inl e, pe1)
         | (Inr True, pe1) \<Rightarrow> (Inr True, pe1)
         | (Inr False, pe1) \<Rightarrow>
             (case check_subjects lib ops now (group_subjects groups) action obs pe1 of
                (True, pe2) \<Rightarrow> (Inr True, pe2)
              | (False, pe2) \<Rightarrow>
                  (case server_roles lib (pe_engine pe2) user of
                     Inl _ \<Rightarrow> (Inr False, pe2)
                   | Inr roles \<Rightarrow>
                       (case check_subjects lib ops now (filter (\<lambda>r. r \<noteq> []) roles) action obs pe2 of
                          (b, pe3) \<Rightarrow> (Inr b, pe3)))))"

definition EnforceProjectAccess ::
  "'s casbin_lib \<Rightarrow> 'c cache_ops \<Rightarrow> int \<Rightarrow> string \<Rightarrow> string \<Rightarrow> string \<Rightarrow> ('s, 'c) policyEnforcer \<Rightarrow>
   gerror option \<times> ('s, 'c) policyEnforcer" where
  "EnforceProjectAccess lib ops now user projectName action pe =
     (if projectName = [] then (Some (Wrap ''project name cannot be empty'' ErrProjectNotFound), pe)
      else (case FormatObject ''projects'' projectName of
              Inl e \<Rightarrow> (Some (Wrap ''invalid project name'' e), pe)
            | Inr object \<Rightarrow>
                (case CanAccess lib ops now user object action pe of
                   (Inl e, pe1) \<Rightarrow> (Some (Wrap ''enforce project access'' e), pe1)
                 | (Inr True, pe1) \<Rightarrow> (None, pe1)
                 | (Inr False, pe1) \<Rightarrow> (Some (Wrap ''user cannot act on project'' ErrAccessDenied), pe1))))"

subsection \<open>\<open>GetAccessibleProjects\<close>\<close>

fun accessible_projects ::
  "'s casbin_lib \<Rightarrow> 'c cache_ops \<Rightarrow> project_reader option \<Rightarrow> int \<Rightarrow> string \<Rightarrow> string list \<Rightarrow> Project list \<Rightarrow>
   ('s, 'c) policyEnforcer \<Rightarrow> string list \<times> ('s, 'c) policyEnforcer" where
  "accessible_projects lib ops reader now user groups [] pe = ([], pe)"
| "accessible_projects lib ops reader now user groups (p # ps) pe =
     (case CanAccessWithGroups lib ops reader now user groups (''projects/'' @ pj_Name p) ''get'' pe of
        (r, pe1) \<Rightarrow>
          (case accessible_projects lib ops reader now user groups ps pe1 of
             (names, pe2) \<Rightarrow> (if r = Inr True then pj_Name p # names else names, pe2)))"

definition GetAccessibleProjects ::
  "'s casbin_lib \<Rightarrow> 'c cache_ops \<Rightarrow> project_reader option \<Rightarrow> int \<Rightarrow> string \<Rightarrow> string list \<Rightarrow>
   ('s, 'c) policyEnforcer \<Rightarrow> (gerror + string list) \<times> ('s, 'c) policyEnforcer" where
  "GetAccessibleProjects lib ops reader now user groups pe =
     (case reader of
        None \<Rightarrow> (Inr [], pe)
      | Some rd \<Rightarrow>
          (case pr_ListProjects rd of
             Inl e \<Rightarrow> (Inl (Wrap ''failed to list projects'' e), pe)
           | Inr projects \<Rightarrow>
               (case CanAccessWithGroups lib ops reader now user groups ''projects/*'' ''get'' pe of
                  (r, pe1) \<Rightarrow>
                    (if r = Inr True then (Inr (map pj_Name projects), pe1)
                     else (case accessible_projects lib ops reader now user groups projects pe1 of
                             (names, pe2) \<Rightarrow> (Inr names, pe2))))))"

subsection \<open>Roles of users\<close>

text \<open>
  What the enforcer asks of \<open>RedisRoleStore\<close>, whose methods swallow their errors (graceful
  degradation); \<open>None\<close> stands for a nil role store.
\<close>

record 'r role_store_ops =
  rs_SaveUserRoles :: "'r \<Rightarrow> string \<Rightarrow> string list \<Rightarrow> 'r"
  rs_DeleteUserRoles :: "'r \<Rightarrow> string \<Rightarrow> 'r"
  rs_LoadAllUserRoles :: "'r \<Rightarrow> gerror + (string \<times> string list) list"

definition isValidRoleFormat :: "string \<Rightarrow> bool" where
  "isValidRoleFormat role =
     (if has_prefix role ''role:'' then length role > 5
      else if has_prefix role ''proj:''
        then (let parts = split_n 3 (CHR '':'') role in length parts = 3 \<and> parts ! 1 \<noteq> [] \<and> parts ! 2 \<noteq> [])
      else False)"

definition remove_user_link :: "'s casbin_lib \<Rightarrow> string \<Rightarrow> string \<Rightarrow> 's \<Rightarrow> gerror option \<times> 's" where
  "remove_user_link lib user role s =
     wrap_st ''failed to remove role'' (err_st (ce_RemoveUserRole lib s user role))"

definition assign_one :: "'s casbin_lib \<Rightarrow> string \<Rightarrow> string \<Rightarrow> 's \<Rightarrow> gerror option \<times> 's" where
  "assign_one lib user role s =
     (if role = [] then (None, s)
      else if \<not> isValidRoleFormat role then (Some (Wrap ''invalid role format'' ErrInvalidRole), s)
      else wrap_st ''failed to assign role'' (err_st (ce_AddUserRole lib s user role)))"

definition removeUserRolesInCasbin :: "'s casbin_lib \<Rightarrow> string \<Rightarrow> 's \<Rightarrow> gerror option \<times> 's" where
  "removeUserRolesInCasbin lib user s =
     (case ce_GetRolesForUser lib s user of
        Inl e \<Rightarrow> (Some (Wrap ''failed to get existing roles'' e), s)
      | Inr existingRoles \<Rightarrow> each_st (remove_user_link lib user) existingRoles s)"

definition assignUserRolesInCasbin :: "'s casbin_lib \<Rightarrow> string \<Rightarrow> string list \<Rightarrow> 's \<Rightarrow> gerror option \<times> 's" where
  "assignUserRolesInCasbin lib user roles s =
     (case ce_GetRolesForUser lib s user of
        Inl e \<Rightarrow> (Some (Wrap ''failed to get existing roles'' e), s)
      | Inr existingRoles \<Rightarrow>
          seq_st (each_st (remove_user_link lib user) existingRoles s) (each_st (assign_one lib user) roles))"

definition InvalidateCache :: "'c cache_ops \<Rightarrow> ('s, 'c) policyEnforcer \<Rightarrow> ('s, 'c) policyEnforcer" where
  "InvalidateCache ops pe = pe\<lparr>pe_cache := map_option (co_Clear ops) (pe_cache pe)\<rparr>"

definition InvalidateCacheForUser ::
  "'c cache_ops \<Rightarrow> string \<Rightarrow> ('s, 'c) policyEnforcer \<Rightarrow> nat \<times> ('s, 'c) policyEnforcer" where
  "InvalidateCacheForUser ops user pe =
     (case pe_cache pe of
        None \<Rightarrow> (0, pe)
      | Some c \<Rightarrow>
          (case co_InvalidateByPrefix ops c (user @ [CHR 0x00]) of
             (count, c') \<Rightarrow> (count, pe\<lparr>pe_cache := Some c'\<rparr>)))"

definition InvalidateCacheForProject ::
  "'c cache_ops \<Rightarrow> string \<Rightarrow> ('s, 'c) policyEnforcer \<Rightarrow> int \<times> ('s, 'c) policyEnforcer" where
  "InvalidateCacheForProject ops projectName pe =
     (case pe_cache pe of
        None \<Rightarrow> (0, pe)
      | Some c \<Rightarrow> (-1, pe\<lparr>pe_cache := Some (co_Clear ops c)\<rparr>))"

definition AssignUserRoles ::
  "'s casbin_lib \<Rightarrow> 'c cache_ops \<Rightarrow> 'r role_store_ops option \<Rightarrow> string \<Rightarrow> string list \<Rightarrow>
   ('s, 'c) policyEnforcer \<times> 'r \<Rightarrow> gerror option \<times> ('s, 'c) policyEnforcer \<times> 'r" where
  "AssignUserRoles lib ops store user roles st =
     (case st of (pe, r) \<Rightarrow>
        if user = [] then (Some (Err ''user cannot be empty''), pe, r)
        else (case assignUserRolesInCasbin lib user roles (pe_engine pe) of
                (Some e, s) \<Rightarrow> (Some (Wrap ''assign user roles'' e), pe\<lparr>pe_engine := s\<rparr>, r)
              | (None, s) \<Rightarrow>
                  (None, snd (InvalidateCacheForUser ops user (pe\<lparr>pe_engine := s\<rparr>)),
                   case store of None \<Rightarrow> r | Some so \<Rightarrow> rs_SaveUserRoles so r user roles)))"

definition RemoveUserRoles ::
  "'s casbin_lib \<Rightarrow> 'c cache_ops \<Rightarrow> 'r role_store_ops option \<Rightarrow> string \<Rightarrow>
   ('s, 'c) policyEnforcer \<times> 'r \<Rightarrow> gerror option \<times> ('s, 'c) policyEnforcer \<times> 'r" where
  "RemoveUserRoles lib ops store user st =
     (case st of (pe, r) \<Rightarrow>
        if user = [] then (Some (Err ''user cannot be empty''), pe, r)
        else (case removeUserRolesInCasbin lib user (pe_engine pe) of
                (Some e, s) \<Rightarrow> (Some (Wrap ''remove user roles'' e), pe\<lparr>pe_engine := s\<rparr>, r)
              | (None, s) \<Rightarrow>
                  (None, clear_cache_if_enabled ops (pe\<lparr>pe_engine := s\<rparr>),
                   case store of None \<Rightarrow> r | Some so \<Rightarrow> rs_DeleteUserRoles so r user)))"

text \<open>
  The remaining roles are \<open>None\<close> (nil) without a role store or when they cannot be read; the list the
  engine returns is taken to be non-nil.
\<close>

definition removeUserRoleInCasbin ::
  "'s casbin_lib \<Rightarrow> bool \<Rightarrow> string \<Rightarrow> string \<Rightarrow> 's \<Rightarrow> (gerror + string list option) \<times> 's" where
  "removeUserRoleInCasbin lib hasStore user role s =
     (case ce_RemoveUserRole lib s user role of
        (Inl e, s') \<Rightarrow> (Inl (Wrap ''failed to remove role from user'' e), s')
      | (Inr _, s') \<Rightarrow>
          (if hasStore
           then (case ce_GetRolesForUser lib s' user of
                   Inl _ \<Rightarrow> (Inr None, s')
                 | Inr remaining \<Rightarrow> (Inr (Some remaining), s'))
           else (Inr None, s')))"

definition RemoveUserRole ::
  "'s casbin_lib \<Rightarrow> 'c cache_ops \<Rightarrow> 'r role_store_ops option \<Rightarrow> string \<Rightarrow> string \<Rightarrow>
   ('s, 'c) policyEnforcer \<times> 'r \<Rightarrow> gerror option \<times> ('s, 'c) policyEnforcer \<times> 'r" where
  "RemoveUserRole lib ops store user role st =
     (case st of (pe, r) \<Rightarrow>
        if user = [] then (Some (Err ''user cannot be empty''), pe, r)
        else if role = [] then (Some (Err ''role cannot be empty''), pe, r)
        else (case removeUserRoleInCasbin lib (store \<noteq> None) user role (pe_engine pe) of
                (Inl e, s) \<Rightarrow> (Some (Wrap ''remove user role'' e), pe\<lparr>pe_engine := s\<rparr>, r)
              | (Inr remaining, s) \<Rightarrow>
                  (None, clear_cache_if_enabled ops (pe\<lparr>pe_engine := s\<rparr>),
                   case (store, remaining) of
                     (Some so, Some roles) \<Rightarrow> rs_SaveUserRoles so r user roles
                   | _ \<Rightarrow> r)))"

text \<open>The loops of \<open>RestorePersistedRoles\<close>, which skip invalid roles and errors.\<close>

fun restore_roles :: "'s casbin_lib \<Rightarrow> string \<Rightarrow> string list \<Rightarrow> 's \<Rightarrow> 's" where
  "restore_roles lib user [] s = s"
| "restore_roles lib user (role # roles) s =
     restore_roles lib user roles
       (if role = [] \<or> \<not> isValidRoleFormat role then s else snd (ce_AddUserRole lib s user role))"

fun restore_users :: "'s casbin_lib \<Rightarrow> (string \<times> string list) list \<Rightarrow> 's \<Rightarrow> 's" where
  "restore_users lib [] s = s"
| "restore_users lib ((user, roles) # rest) s = restore_users lib rest (restore_roles lib user roles s)"

definition RestorePersistedRoles ::
  "'s casbin_lib \<Rightarrow> 'c cache_ops \<Rightarrow> 'r role_store_ops option \<Rightarrow> 'r \<Rightarrow> ('s, 'c) policyEnforcer \<Rightarrow>
   gerror option \<times> ('s, 'c) policyEnforcer" where
  "RestorePersistedRoles lib ops store r pe =
     (case store of
        None \<Rightarrow> (None, pe)
      | Some so \<Rightarrow>
          (case rs_LoadAllUserRoles so r of
             Inl e \<Rightarrow> (Some (Wrap ''failed to load persisted roles from Redis'' e), pe)
           | Inr allRoles \<Rightarrow>
               (if length allRoles = 0 then (None, pe)
                else (None, clear_cache_if_enabled ops
                        (pe\<lparr>pe_engine := restore_users lib allRoles (pe_engine pe)\<rparr>)))))"

definition GetUserRoles :: "'s casbin_lib \<Rightarrow> string \<Rightarrow> ('s, 'c) policyEnforcer \<Rightarrow> gerror + string list" where
  "GetUserRoles lib user pe =
     (if user = [] then Inl (Err ''user cannot be empty'')
      else (case ce_GetImplicitRolesForUser lib (pe_engine pe) user of
              Inl e \<Rightarrow> Inl (Wrap ''failed to get user roles'' e)
            | Inr roles \<Rightarrow> Inr roles))"

definition HasRole :: "'s casbin_lib \<Rightarrow> string \<Rightarrow> string \<Rightarrow> ('s, 'c) policyEnforcer \<Rightarrow> gerror + bool" where
  "HasRole lib user role pe =
     (if user = [] \<or> role = [] then Inr False
      else (case ce_HasUserRole lib (pe_engine pe) user role of
              Inl e \<Rightarrow> Inl (Wrap ''failed to check role'' e)
            | Inr True \<Rightarrow> Inr True
            | Inr False \<Rightarrow>
                (case ce_GetImplicitRolesForUser lib (pe_engine pe) user of
                   Inl e \<Rightarrow> Inl (Wrap ''failed to get implicit roles'' e)
                 | Inr implicitRoles \<Rightarrow> Inr (role \<in> set implicitRoles))))"

text \<open>\<open>NewPolicyEnforcerWithConfig\<close>; \<open>newCache\<close> is what \<open>NewAuthorizationCache\<close> returns.\<close>

definition NewPolicyEnforcerWithConfig :: "'s \<Rightarrow> bool \<Rightarrow> int \<Rightarrow> 'c \<Rightarrow> ('s, 'c) policyEnforcer" where
  "NewPolicyEnforcerWithConfig enforcer cacheEnabled cacheTTL newCache =
     \<lparr>pe_engine = enforcer, pe_loaded = [], pe_cache = (if cacheEnabled then Some newCache else None),
      pe_cacheEnabled = cacheEnabled, pe_cacheTTL = cacheTTL, pe_PolicyReloads = 0, pe_BackgroundSyncs = 0,
      pe_WatcherRestarts = 0\<rparr>"

definition NewPolicyEnforcer :: "'s \<Rightarrow> 'c \<Rightarrow> ('s, 'c) policyEnforcer" where
  "NewPolicyEnforcer enforcer newCache = NewPolicyEnforcerWithConfig enforcer True DefaultCacheTTL newCache"

subsection \<open>Coherence of the enforcer's cache\<close>

text \<open>
  Every decision the cache can still hand out for a clean request is the one the engine would take.
\<close>

definition pe_coherent ::
  "'s casbin_lib \<Rightarrow> ('c \<Rightarrow> bool) \<Rightarrow> ('c \<Rightarrow> int \<Rightarrow> string \<times> string \<times> string \<Rightarrow> bool option) \<Rightarrow> int \<Rightarrow>
   ('s, 'c) policyEnforcer \<Rightarrow> bool" where
  "pe_coherent lib cinv look now pe \<longleftrightarrow>
     (case pe_cache pe of
        None \<Rightarrow> True
      | Some c \<Rightarrow>
          cinv c \<and>
          (pe_cacheEnabled pe \<longrightarrow>
             (\<forall>t u ob a b. now \<le> t \<longrightarrow> clean (u, ob, a) \<longrightarrow> look c t (u, ob, a) = Some b \<longrightarrow>
                b = (lib_Enforce lib (pe_engine pe) u ob a = Inr True))))"

text \<open>A request changes nothing but the content of the cache.\<close>

definition only_cache :: "('s, 'c) policyEnforcer \<Rightarrow> ('s, 'c) policyEnforcer \<Rightarrow> bool" where
  "only_cache pe pe' \<longleftrightarrow> (\<exists>c. pe' = pe\<lparr>pe_cache := c\<rparr>)"

lemma only_cache_refl: "only_cache pe pe"
  by (auto simp: only_cache_def intro: exI [of _ "pe_cache pe"])

lemma only_cache_upd: "only_cache pe (pe\<lparr>pe_cache := c\<rparr>)"
  unfolding only_cache_def by blast

lemma only_cache_trans: "only_cache a b \<Longrightarrow> only_cache b c \<Longrightarrow> only_cache a c"
  by (auto simp: only_cache_def)

lemma only_cache_engine [simp]: "only_cache pe pe' \<Longrightarrow> pe_engine pe' = pe_engine pe"
  by (auto simp: only_cache_def)

definition access_subjects :: "'s casbin_lib \<Rightarrow> 's \<Rightarrow> string \<Rightarrow> string list \<Rightarrow> string list" where
  "access_subjects lib s user groups =
     user # group_subjects groups
     @ (case server_roles lib s user of Inl _ \<Rightarrow> [] | Inr roles \<Rightarrow> filter (\<lambda>r. r \<noteq> []) roles)"

definition nonempty_acc :: "string list \<times> string list \<times> string list \<Rightarrow> bool" where
  "nonempty_acc acc \<longleftrightarrow> [] \<notin> set (snd (snd acc))"

lemma add_policy_objects_nonempty:
  "nonempty_acc acc \<Longrightarrow> pre \<noteq> [] \<Longrightarrow> nonempty_acc (add_policy_objects pre ps acc)"
proof (induction pre ps acc rule: add_policy_objects.induct)
  case (1 pre acc)
  then show ?case by simp
next
  case (2 pre policy rest sp so ws)
  show ?case
    unfolding add_policy_objects.simps
    by (rule "2.IH") (use "2.prems" in \<open>auto simp: nonempty_acc_def\<close>)
qed

lemma add_role_wildcards_nonempty:
  "nonempty_acc acc \<Longrightarrow> nonempty_acc (add_role_wildcards lib s rt rs acc)"
proof (induction rs arbitrary: acc)
  case Nil
  then show ?case by simp
next
  case (Cons role rs)
  obtain sp so ws where acc: "acc = (sp, so, ws)" by (cases acc)
  have add: "nonempty_acc x \<Longrightarrow>
      nonempty_acc (case ce_GetPoliciesForRole lib s role of Inl _ \<Rightarrow> x | Inr ps \<Rightarrow> add_policy_objects (rt @ ''/'') ps x)" for x
    by (auto split: sum.splits intro: add_policy_objects_nonempty)
  show ?case
    unfolding acc add_role_wildcards.simps Let_def
    by (rule Cons.IH, rule add) (use Cons.prems acc in \<open>simp add: nonempty_acc_def\<close>)
qed

lemma add_group_wildcards_nonempty:
  "nonempty_acc acc \<Longrightarrow> nonempty_acc (add_group_wildcards lib s rt gs acc)"
proof (induction gs arbitrary: acc)
  case Nil
  then show ?case by simp
next
  case (Cons g gs)
  show ?case
    unfolding add_group_wildcards.simps
    by (rule Cons.IH) (use Cons.prems in \<open>auto split: sum.splits intro: add_role_wildcards_nonempty\<close>)
qed

lemma objectsToCheck_nonempty:
  assumes "object \<noteq> []" "ob \<in> set (objectsToCheck lib reader groups object action s)"
  shows "ob \<noteq> []"
  using assms add_group_wildcards_nonempty [of "([], [], [])" lib s "trim_suffix object ''/*''" groups]
  by (cases "add_group_wildcards lib s (trim_suffix object ''/*'') groups ([], [], [])")
     (auto simp: nonempty_acc_def objectsToCheck_def Let_def getProjectScopedWildcards_def split: if_splits prod.splits)

text \<open>
  The roles that an assignment adds: those before the first one with an invalid format. Empty names
  are skipped.
\<close>

definition valid_role :: "string \<Rightarrow> bool" where
  "valid_role r \<longleftrightarrow> r = [] \<or> isValidRoleFormat r"

definition good_links :: "string \<Rightarrow> string list \<Rightarrow> (string \<times> string) set" where
  "good_links u roles = (\<lambda>r. (u, r)) ` {r \<in> set (takeWhile valid_role roles). r \<noteq> []}"

lemma good_links_simps:
  "good_links u [] = {}"
  "good_links u (r # rs) =
     (if r = [] then good_links u rs else if isValidRoleFormat r then insert (u, r) (good_links u rs) else {})"
  by (auto simp: good_links_def valid_role_def)

locale policy_enforcer =
  casbin_engine lib pol grp grp2 hl hl2 km + authz_cache ops cinv look
  for lib :: "'s casbin_lib" and pol grp grp2 hl hl2 km
    and ops :: "'c cache_ops" and cinv look
begin

abbreviation "decides s u ob a \<equiv> lib_Enforce lib s u ob a = Inr True"

lemma Enforce_decides: "ce_Enforce lib s u ob a = Inr (decides s u ob a)"
  by (simp add: ce_Enforce_def Enforce)

lemma pe_coherent_coherent:
  "pe_coherent lib cinv look now pe \<longleftrightarrow>
     (case pe_cache pe of None \<Rightarrow> True
      | Some c \<Rightarrow> cinv c \<and> (pe_cacheEnabled pe \<longrightarrow> coherent (decides (pe_engine pe)) now c))"
  by (auto simp: pe_coherent_def coherent_def split: option.splits)

lemma cached_step:
  assumes "pe_coherent lib cinv look now pe" "cached ops now u ob a pe = (r, pe')"
  shows "only_cache pe pe' \<and> pe_coherent lib cinv look now pe' \<and>
         (clean (u, ob, a) \<longrightarrow> (\<forall>b. r = Some b \<longrightarrow> b = decides (pe_engine pe) u ob a))"
proof (cases "pe_cache pe")
  case None
  then show ?thesis using assms by (auto simp: cached_def only_cache_refl)
next
  case (Some c)
  show ?thesis
  proof (cases "pe_cacheEnabled pe")
    case False
    then show ?thesis using assms Some by (auto simp: cached_def only_cache_refl)
  next
    case True
    obtain b f c' where g: "co_Get ops c now u ob a = ((b, f), c')"
      by (metis prod.collapse)
    have C: "coherent (decides (pe_engine pe)) now c" "cinv c"
      using assms(1) Some True by (simp_all add: pe_coherent_coherent)
    have C': "coherent (decides (pe_engine pe)) now c'"
      using coherent_get [OF C(1), of u ob a] g by simp
    have r: "r = (if f then Some b else None)" "pe' = pe\<lparr>pe_cache := Some c'\<rparr>"
      using assms(2) Some True g by (simp_all add: cached_def)
    have "clean (u, ob, a) \<Longrightarrow> f \<Longrightarrow> b = decides (pe_engine pe) u ob a"
      using coherent_hit [OF C(1)] g by simp
    moreover have "pe_coherent lib cinv look now pe'"
      using C' r(2) by (simp add: pe_coherent_coherent) (simp add: coherent_def)
    moreover have "only_cache pe pe'" unfolding r(2) by (rule only_cache_upd)
    ultimately show ?thesis using r(1) by auto
  qed
qed

lemma store_step:
  assumes "pe_coherent lib cinv look now pe" "b = decides (pe_engine pe) u ob a"
  shows "only_cache pe (store_decision ops now u ob a b pe) \<and>
         pe_coherent lib cinv look now (store_decision ops now u ob a b pe)"
proof (cases "pe_cache pe")
  case None
  then show ?thesis using assms by (simp add: store_decision_def only_cache_refl)
next
  case (Some c)
  show ?thesis
  proof (cases "pe_cacheEnabled pe \<and> pe_cacheTTL pe > 0")
    case False
    then have "store_decision ops now u ob a b pe = pe" using Some by (auto simp: store_decision_def)
    then show ?thesis using assms(1) by (simp add: only_cache_refl)
  next
    case True
    let ?pe = "pe\<lparr>pe_cache := Some (co_Set ops c now u ob a b (pe_cacheTTL pe))\<rparr>"
    have "coherent (decides (pe_engine pe)) now c" using assms(1) Some True by (simp add: pe_coherent_coherent)
    then have "coherent (decides (pe_engine pe)) now (co_Set ops c now u ob a b (pe_cacheTTL pe))"
      using assms(2) by (rule coherent_set)
    then have "pe_coherent lib cinv look now ?pe"
      by (simp add: pe_coherent_coherent) (simp add: coherent_def)
    moreover have "only_cache pe ?pe" by (rule only_cache_upd)
    ultimately show ?thesis using Some True by (simp add: store_decision_def)
  qed
qed

lemma CanAccess_step:
  assumes "pe_coherent lib cinv look now pe" "u \<noteq> []" "ob \<noteq> []" "a \<noteq> []" "clean (u, ob, a)"
  shows "\<exists>pe'. CanAccess lib ops now u ob a pe = (Inr (decides (pe_engine pe) u ob a), pe') \<and>
           only_cache pe pe' \<and> pe_coherent lib cinv look now pe'"
proof -
  obtain r pe1 where c: "cached ops now u ob a pe = (r, pe1)" by fastforce
  note S = cached_step [OF assms(1) c]
  show ?thesis
  proof (cases r)
    case (Some b)
    then show ?thesis using S c assms(2-5) by (simp add: CanAccess_def)
  next
    case None
    have e: "pe_engine pe1 = pe_engine pe" using S by simp
    have "CanAccess lib ops now u ob a pe
        = (Inr (decides (pe_engine pe) u ob a), store_decision ops now u ob a (decides (pe_engine pe) u ob a) pe1)"
      using c None assms(2-4) by (simp add: CanAccess_def Enforce_decides e)
    moreover have "only_cache pe1 (store_decision ops now u ob a (decides (pe_engine pe) u ob a) pe1) \<and>
        pe_coherent lib cinv look now (store_decision ops now u ob a (decides (pe_engine pe) u ob a) pe1)"
      by (rule store_step) (use S in simp, simp add: e)
    moreover have "only_cache pe pe1" using S by simp
    ultimately show ?thesis using only_cache_trans by metis
  qed
qed

lemma check_user_step:
  "pe_coherent lib cinv look now pe \<Longrightarrow> u \<noteq> [] \<Longrightarrow> a \<noteq> [] \<Longrightarrow>
   \<forall>ob \<in> set obs. ob \<noteq> [] \<and> clean (u, ob, a) \<Longrightarrow>
   \<exists>pe'. check_user lib ops now u a obs pe = (Inr (\<exists>ob \<in> set obs. decides (pe_engine pe) u ob a), pe') \<and>
      only_cache pe pe' \<and> pe_coherent lib cinv look now pe'"
proof (induction obs arbitrary: pe)
  case Nil
  then show ?case by (simp add: only_cache_refl)
next
  case (Cons ob obs)
  obtain pe1 where C: "CanAccess lib ops now u ob a pe = (Inr (decides (pe_engine pe) u ob a), pe1)"
      "only_cache pe pe1" "pe_coherent lib cinv look now pe1"
    using CanAccess_step [OF Cons.prems(1,2) _ Cons.prems(3), of ob] Cons.prems(4) by auto
  have e: "pe_engine pe1 = pe_engine pe" using C(2) by simp
  show ?case
  proof (cases "decides (pe_engine pe) u ob a")
    case True
    then show ?thesis using C by simp
  next
    case False
    obtain pe2 where "check_user lib ops now u a obs pe1 = (Inr (\<exists>ob \<in> set obs. decides (pe_engine pe1) u ob a), pe2)"
        "only_cache pe1 pe2" "pe_coherent lib cinv look now pe2"
      using Cons.IH [OF C(3) Cons.prems(2,3)] Cons.prems(4) by auto
    moreover have "only_cache pe pe2" by (rule only_cache_trans [OF C(2) \<open>only_cache pe1 pe2\<close>])
    ultimately show ?thesis using False C e by auto
  qed
qed

lemma check_subject_step:
  "pe_coherent lib cinv look now pe \<Longrightarrow> \<forall>ob \<in> set obs. clean (u, ob, a) \<Longrightarrow>
   \<exists>pe'. check_subject lib ops now u a obs pe = ((\<exists>ob \<in> set obs. decides (pe_engine pe) u ob a), pe') \<and>
      only_cache pe pe' \<and> pe_coherent lib cinv look now pe'"
proof (induction obs arbitrary: pe)
  case Nil
  then show ?case by (simp add: only_cache_refl)
next
  case (Cons ob obs)
  obtain r pe1 where c: "cached ops now u ob a pe = (r, pe1)" by fastforce
  note S = cached_step [OF Cons.prems(1) c]
  have e: "pe_engine pe1 = pe_engine pe" and k1: "only_cache pe pe1" "pe_coherent lib cinv look now pe1"
    using S by simp_all
  define d where "d = decides (pe_engine pe) u ob a"
  define pe2 where "pe2 = (if r = None then store_decision ops now u ob a d pe1 else pe1)"
  have k2: "only_cache pe1 pe2" "pe_coherent lib cinv look now pe2"
    using store_step [OF k1(2), of d u ob a] k1 e by (auto simp: pe2_def d_def only_cache_refl)
  have e2: "pe_engine pe2 = pe_engine pe" using k2(1) e by simp
  have step: "check_subject lib ops now u a (ob # obs) pe
      = (if d then (True, pe2) else check_subject lib ops now u a obs pe2)"
  proof (cases r)
    case None
    then show ?thesis using c by (simp add: Enforce_decides e d_def pe2_def Let_def)
  next
    case (Some b)
    then have "b = d" using S Cons.prems(2) by (simp add: d_def)
    then show ?thesis using c Some by (cases b) (simp_all add: pe2_def)
  qed
  obtain pe3 where "check_subject lib ops now u a obs pe2 = ((\<exists>ob \<in> set obs. decides (pe_engine pe2) u ob a), pe3)"
      "only_cache pe2 pe3" "pe_coherent lib cinv look now pe3"
    using Cons.IH [OF k2(2)] Cons.prems(2) by auto
  moreover have "only_cache pe pe2" by (rule only_cache_trans [OF k1(1) k2(1)])
  moreover have "only_cache pe pe3" by (rule only_cache_trans [OF \<open>only_cache pe pe2\<close> \<open>only_cache pe2 pe3\<close>])
  ultimately show ?case
    unfolding step using k2(2) e2 by (cases d) (auto simp: d_def)
qed

lemma check_subjects_step:
  "pe_coherent lib cinv look now pe \<Longrightarrow> \<forall>u \<in> set us. \<forall>ob \<in> set obs. clean (u, ob, a) \<Longrightarrow>
   \<exists>pe'. check_subjects lib ops now us a obs pe
        = ((\<exists>u \<in> set us. \<exists>ob \<in> set obs. decides (pe_engine pe) u ob a), pe') \<and>
      only_cache pe pe' \<and> pe_coherent lib cinv look now pe'"
proof (induction us arbitrary: pe)
  case Nil
  then show ?case by (simp add: only_cache_refl)
next
  case (Cons u us)
  define d where "d = (\<exists>ob \<in> set obs. decides (pe_engine pe) u ob a)"
  obtain pe1 where C: "check_subject lib ops now u a obs pe = (d, pe1)"
      "only_cache pe pe1" "pe_coherent lib cinv look now pe1"
    using check_subject_step [OF Cons.prems(1), of obs u a] Cons.prems(2) unfolding d_def by auto
  have e: "pe_engine pe1 = pe_engine pe" using C(2) by simp
  obtain pe2 where "check_subjects lib ops now us a obs pe1
        = ((\<exists>u \<in> set us. \<exists>ob \<in> set obs. decides (pe_engine pe1) u ob a), pe2)"
      "only_cache pe1 pe2" "pe_coherent lib cinv look now pe2"
    using Cons.IH [OF C(3)] Cons.prems(2) by auto
  moreover have "only_cache pe pe2" by (rule only_cache_trans [OF C(2) \<open>only_cache pe1 pe2\<close>])
  ultimately show ?case using C e by (cases d) (auto simp: d_def)
qed

lemma server_roles_total: "\<exists>roles. server_roles lib s u = Inr roles"
proof -
  obtain rs where "ce_GetImplicitRolesForUser lib s u = Inr rs"
    using GetImplicitRolesForUser [of s u] by (auto simp: ce_GetImplicitRolesForUser_def)
  then show ?thesis by (cases "rs = []") (auto simp: server_roles_def Let_def split: sum.splits)
qed

lemma CanAccessWithGroups_step:
  assumes "pe_coherent lib cinv look now pe" "u \<noteq> []" "object \<noteq> []" "a \<noteq> []"
    and "\<forall>sb \<in> set (access_subjects lib (pe_engine pe) u groups).
           \<forall>ob \<in> set (objectsToCheck lib reader groups object a (pe_engine pe)). clean (sb, ob, a)"
  shows "\<exists>pe'. CanAccessWithGroups lib ops reader now u groups object a pe
           = (Inr (\<exists>sb \<in> set (access_subjects lib (pe_engine pe) u groups).
                     \<exists>ob \<in> set (objectsToCheck lib reader groups object a (pe_engine pe)).
                       decides (pe_engine pe) sb ob a), pe') \<and>
           only_cache pe pe' \<and> pe_coherent lib cinv look now pe'"
proof -
  let ?s = "pe_engine pe"
  define obs where "obs = objectsToCheck lib reader groups object a ?s"
  define d where "d us = (\<exists>u \<in> set us. \<exists>ob \<in> set obs. decides ?s u ob a)" for us
  obtain roles where roles: "server_roles lib ?s u = Inr roles"
    using server_roles_total by blast
  let ?rs = "filter (\<lambda>r. r \<noteq> []) roles"
  have subj: "access_subjects lib ?s u groups = u # group_subjects groups @ ?rs"
    by (simp add: access_subjects_def roles)
  have ne: "[] \<notin> set obs" 
    using objectsToCheck_nonempty [OF assms(3), of "[]" lib reader groups a ?s] unfolding obs_def by auto
  have cl: "\<forall>ob \<in> set obs. ob \<noteq> [] \<and> clean (u, ob, a)" "\<forall>v \<in> set (group_subjects groups). \<forall>ob \<in> set obs. clean (v, ob, a)"
      "\<forall>v \<in> set ?rs. \<forall>ob \<in> set obs. clean (v, ob, a)"
    using assms(5) ne unfolding subj obs_def [symmetric] by auto
  obtain pe1 where 1: "check_user lib ops now u a obs pe = (Inr (d [u]), pe1)"
      "only_cache pe pe1" "pe_coherent lib cinv look now pe1"
    using check_user_step [OF assms(1,2,4) cl(1)] by (auto simp: d_def)
  have e1: "pe_engine pe1 = ?s" using 1 by simp
  obtain pe2 where 2: "check_subjects lib ops now (group_subjects groups) a obs pe1 = (d (group_subjects groups), pe2)"
      "only_cache pe1 pe2" "pe_coherent lib cinv look now pe2"
    using check_subjects_step [OF 1(3) cl(2)] unfolding e1 d_def by blast
  have e2: "pe_engine pe2 = ?s" using 2 e1 by simp
  obtain pe3 where 3: "check_subjects lib ops now ?rs a obs pe2 = (d ?rs, pe3)"
      "only_cache pe2 pe3" "pe_coherent lib cinv look now pe3"
    using check_subjects_step [OF 2(3) cl(3)] unfolding e2 d_def by blast
  have res: "CanAccessWithGroups lib ops reader now u groups object a pe
      = (Inr (d [u] \<or> d (group_subjects groups) \<or> d ?rs), if d [u] then pe1 else if d (group_subjects groups) then pe2 else pe3)"
    unfolding CanAccessWithGroups_def obs_def [symmetric] Let_def 1(1)
    using 2(1) 3(1) e2 roles by (cases "d [u]"; cases "d (group_subjects groups)") auto
  have dd: "(d [u] \<or> d (group_subjects groups) \<or> d ?rs) = d (access_subjects lib ?s u groups)"
    unfolding subj d_def by auto
  let ?pe' = "if d [u] then pe1 else if d (group_subjects groups) then pe2 else pe3"
  have "only_cache pe ?pe'" "pe_coherent lib cinv look now ?pe'"
    using 1 2 3 only_cache_trans [OF 1(2) 2(2)] only_cache_trans [OF only_cache_trans [OF 1(2) 2(2)] 3(2)]
    by simp_all
  then show ?thesis using res unfolding dd unfolding d_def obs_def by blast
qed

lemma coherent_after_clear:
  assumes "\<forall>c. pe_cache pe = Some c \<longrightarrow> cinv c"
  shows "pe_coherent lib cinv look now (clear_cache_if_enabled ops pe)"
  using assms by (auto simp: pe_coherent_def clear_cache_if_enabled_def clear_inv clear_look split: option.splits)

lemma coherent_inv: "pe_coherent lib cinv look now pe \<Longrightarrow> pe_cache pe = Some c \<Longrightarrow> cinv c"
  by (simp add: pe_coherent_def)

subsection \<open>Assigning roles\<close>

lemma remove_links_effect:
  "\<exists>s'. each_st (remove_user_link lib u) rs s = (None, s') \<and> pol s' = pol s \<and>
        grp s' = grp s - {(u, r) | r. r \<in> set rs} \<and> grp2 s' = grp2 s"
proof (induction rs arbitrary: s)
  case Nil
  then show ?case by simp
next
  case (Cons r rs)
  obtain s1 where s1: "lib_RemoveGroupingPolicy lib s u r = (Inr ((u, r) \<in> grp s), s1)" "pol s1 = pol s"
      "grp s1 = grp s - {(u, r)}" "grp2 s1 = grp2 s"
    using RemoveGroupingPolicy by blast
  obtain s2 where "each_st (remove_user_link lib u) rs s1 = (None, s2)" "pol s2 = pol s1"
      "grp s2 = grp s1 - {(u, r) | r. r \<in> set rs}" "grp2 s2 = grp2 s1"
    using Cons.IH by blast
  moreover have "each_st (remove_user_link lib u) (r # rs) s = each_st (remove_user_link lib u) rs s1"
    using s1(1) by (simp add: remove_user_link_def ce_RemoveUserRole_def)
  ultimately show ?case using s1 by auto
qed

lemma assign_links_effect:
  "\<exists>s'. each_st (assign_one lib u) rs s
          = (if list_all valid_role rs then None else Some (Wrap ''invalid role format'' ErrInvalidRole), s') \<and>
        pol s' = pol s \<and> grp s' = grp s \<union> good_links u rs \<and> grp2 s' = grp2 s"
proof (induction rs arbitrary: s)
  case Nil
  then show ?case by (simp add: good_links_simps)
next
  case (Cons r rs)
  show ?case
  proof (cases "r = []")
    case True
    then have "each_st (assign_one lib u) (r # rs) s = each_st (assign_one lib u) rs s"
      by (simp add: assign_one_def)
    then show ?thesis using Cons.IH [of s] True by (simp add: good_links_simps valid_role_def)
  next
    case named: False
    show ?thesis
    proof (cases "isValidRoleFormat r")
      case False
      then show ?thesis using named by (simp add: assign_one_def good_links_simps valid_role_def)
    next
      case True
      obtain s1 where s1: "lib_AddGroupingPolicy lib s u r = (Inr ((u, r) \<notin> grp s), s1)" "pol s1 = pol s"
          "grp s1 = insert (u, r) (grp s)" "grp2 s1 = grp2 s"
        using AddGroupingPolicy by blast
      have "each_st (assign_one lib u) (r # rs) s = each_st (assign_one lib u) rs s1"
        using True named s1(1) by (simp add: assign_one_def ce_AddUserRole_def)
      then show ?thesis
        using Cons.IH [of s1] s1(2-4) True named by (simp add: good_links_simps valid_role_def)
    qed
  qed
qed

lemma assign_effect:
  "\<exists>e s'. assignUserRolesInCasbin lib u roles s = (e, s') \<and> (e = None \<longleftrightarrow> list_all valid_role roles) \<and>
     pol s' = pol s \<and> grp2 s' = grp2 s \<and> grp s' = {l \<in> grp s. fst l \<noteq> u} \<union> good_links u roles"
proof -
  obtain rs where rs: "ce_GetRolesForUser lib s u = Inr rs" "set rs = {r. (u, r) \<in> grp s}"
    using GetRolesForUser [of s u] by (auto simp: ce_GetRolesForUser_def)
  obtain s1 where s1: "each_st (remove_user_link lib u) rs s = (None, s1)" "pol s1 = pol s"
      "grp s1 = grp s - {(u, r) | r. r \<in> set rs}" "grp2 s1 = grp2 s"
    using remove_links_effect by blast
  have g1: "grp s1 = {l \<in> grp s. fst l \<noteq> u}" using s1(3) rs(2) by auto
  obtain s2 where s2: "each_st (assign_one lib u) roles s1
        = (if list_all valid_role roles then None else Some (Wrap ''invalid role format'' ErrInvalidRole), s2)"
      "pol s2 = pol s1" "grp s2 = grp s1 \<union> good_links u roles" "grp2 s2 = grp2 s1"
    using assign_links_effect [of u roles s1] by blast
  have "assignUserRolesInCasbin lib u roles s
      = (if list_all valid_role roles then None else Some (Wrap ''invalid role format'' ErrInvalidRole), s2)"
    using rs(1) s1(1) s2(1) by (simp add: assignUserRolesInCasbin_def)
  then show ?thesis using s1(2,4) s2(2-4) g1 by (cases "list_all valid_role roles") auto
qed

text \<open>
  Replacing the roles of a user who is nobody's role changes the decisions for that user only.
\<close>

lemma decides_local:
  assumes "\<forall>x. (x, u) \<notin> grp s" "pol s' = pol s" "grp2 s' = grp2 s" "v \<noteq> u"
    and "\<And>x y. x \<noteq> u \<Longrightarrow> (x, y) \<in> grp s \<longleftrightarrow> (x, y) \<in> grp s'"
  shows "lib_Enforce lib s' v ob a = lib_Enforce lib s v ob a"
proof -
  have "(v, u) \<notin> (grp s)\<^sup>*" using assms(1,4) by (auto elim: rtranclE)
  then have "hl s v b = hl s' v b" for b using hl_local assms(5) by blast
  moreover have "hl2 s = hl2 s'" using hl2_cong [of s s'] assms(3) by simp
  ultimately have "model_match km (hl s') (hl2 s') v ob a = model_match km (hl s) (hl2 s) v ob a"
    by (auto simp: fun_eq_iff model_match_rule)
  then show ?thesis by (simp add: Enforce assms(2))
qed

lemma invalidate_user_coherent:
  assumes "pe_coherent lib cinv look now pe" "CHR 0x00 \<notin> set u"
    and "\<And>v ob a. v \<noteq> u \<Longrightarrow> lib_Enforce lib s v ob a = lib_Enforce lib (pe_engine pe) v ob a"
  shows "pe_coherent lib cinv look now (snd (InvalidateCacheForUser ops u (pe\<lparr>pe_engine := s\<rparr>)))"
proof (cases "pe_cache pe")
  case None
  then show ?thesis by (simp add: InvalidateCacheForUser_def pe_coherent_def)
next
  case (Some c)
  let ?c = "snd (co_InvalidateByPrefix ops c (u @ [CHR 0x00]))"
  have eq: "snd (InvalidateCacheForUser ops u (pe\<lparr>pe_engine := s\<rparr>)) = pe\<lparr>pe_engine := s, pe_cache := Some ?c\<rparr>"
    using Some by (simp add: InvalidateCacheForUser_def split: prod.splits)
  have inv: "cinv ?c" using prefix_inv coherent_inv [OF assms(1) Some] by blast
  show ?thesis
  proof (cases "pe_cacheEnabled pe")
    case False
    then show ?thesis unfolding eq using inv by (simp add: pe_coherent_def)
  next
    case True
    then have "coherent (decides (pe_engine pe)) now c" using assms(1) Some by (simp add: pe_coherent_coherent)
    then have "coherent (decides s) now ?c"
      by (rule coherent_invalidate_user) (use assms(2,3) in simp_all)
    then show ?thesis unfolding eq using inv by (simp add: pe_coherent_coherent)
  qed
qed

lemma assign_coherent:
  assumes "pe_coherent lib cinv look now pe" "CHR 0x00 \<notin> set u" "\<forall>x. (x, u) \<notin> grp (pe_engine pe)"
    and "fst (AssignUserRoles lib ops store u roles (pe, r)) = None"
  shows "pe_coherent lib cinv look now (fst (snd (AssignUserRoles lib ops store u roles (pe, r))))"
proof -
  obtain e s' where A: "assignUserRolesInCasbin lib u roles (pe_engine pe) = (e, s')" "pol s' = pol (pe_engine pe)"
      "grp2 s' = grp2 (pe_engine pe)"
      "grp s' = {l \<in> grp (pe_engine pe). fst l \<noteq> u} \<union> good_links u roles"
    using assign_effect [of u roles "pe_engine pe"] by blast
  have u: "u \<noteq> []" and e: "e = None" using assms(4) A(1) by (auto simp: AssignUserRoles_def split: option.splits if_splits)
  have eq: "fst (snd (AssignUserRoles lib ops store u roles (pe, r)))
      = snd (InvalidateCacheForUser ops u (pe\<lparr>pe_engine := s'\<rparr>))"
    using u e A(1) by (simp add: AssignUserRoles_def)
  show ?thesis unfolding eq
    by (rule invalidate_user_coherent [OF assms(1,2)], rule decides_local [OF assms(3) A(2,3)])
       (use A(4) in \<open>auto simp: good_links_def\<close>)
qed

subsection \<open>Accessible projects\<close>

definition granted :: "project_reader option \<Rightarrow> 's \<Rightarrow> string \<Rightarrow> string list \<Rightarrow> string \<Rightarrow> string \<Rightarrow> bool" where
  "granted reader s user groups object action \<longleftrightarrow>
     (\<exists>sb \<in> set (access_subjects lib s user groups).
        \<exists>ob \<in> set (objectsToCheck lib reader groups object action s). decides s sb ob action)"

definition clean_for :: "project_reader option \<Rightarrow> 's \<Rightarrow> string \<Rightarrow> string list \<Rightarrow> string \<Rightarrow> string \<Rightarrow> bool" where
  "clean_for reader s user groups object action \<longleftrightarrow>
     (\<forall>sb \<in> set (access_subjects lib s user groups).
        \<forall>ob \<in> set (objectsToCheck lib reader groups object action s). clean (sb, ob, action))"

lemma accessible_projects_step:
  "pe_coherent lib cinv look now pe \<Longrightarrow> u \<noteq> [] \<Longrightarrow>
   \<forall>p \<in> set ps. clean_for reader (pe_engine pe) u groups (''projects/'' @ pj_Name p) ''get'' \<Longrightarrow>
   \<exists>pe'. accessible_projects lib ops reader now u groups ps pe
        = (map pj_Name (filter (\<lambda>p. granted reader (pe_engine pe) u groups (''projects/'' @ pj_Name p) ''get'') ps), pe') \<and>
      only_cache pe pe' \<and> pe_coherent lib cinv look now pe'"
proof (induction ps arbitrary: pe)
  case Nil
  then show ?case by (simp add: only_cache_refl)
next
  case (Cons p ps)
  let ?g = "\<lambda>p. granted reader (pe_engine pe) u groups (''projects/'' @ pj_Name p) ''get''"
  obtain pe1 where C: "CanAccessWithGroups lib ops reader now u groups (''projects/'' @ pj_Name p) ''get'' pe = (Inr (?g p), pe1)"
      "only_cache pe pe1" "pe_coherent lib cinv look now pe1"
    using CanAccessWithGroups_step [OF Cons.prems(1,2), of "''projects/'' @ pj_Name p" "''get''" groups reader] Cons.prems(3)
    unfolding granted_def clean_for_def by auto
  have e: "pe_engine pe1 = pe_engine pe" using C(2) by simp
  obtain pe2 where R: "accessible_projects lib ops reader now u groups ps pe1 = (map pj_Name (filter ?g ps), pe2)"
      "only_cache pe1 pe2" "pe_coherent lib cinv look now pe2"
    using Cons.IH [OF C(3) Cons.prems(2)] Cons.prems(3) unfolding e by auto
  have "only_cache pe pe2" by (rule only_cache_trans [OF C(2) R(2)])
  then show ?case using C(1) R by simp
qed

end

interpretation mpe: policy_enforcer mem_lib mem_pol mem_grp mem_grp2 mem_hl mem_hl2 mem_keyMatch
    memory_cache_ops cache_inv cache_look
  by unfold_locales

text \<open>What the loaders leave alone.\<close>

lemma loadLocked_cache:
  "loadProjectPoliciesLocked lib um P pe = (e, pe') \<Longrightarrow>
   pe_cache pe' = pe_cache pe \<and> pe_cacheEnabled pe' = pe_cacheEnabled pe"
  by (auto simp: loadProjectPoliciesLocked_def split: prod.splits option.splits)

lemma sync_load_cache:
  "sync_load lib um ps n pe = (n', pe') \<Longrightarrow> pe_cache pe' = pe_cache pe \<and> pe_cacheEnabled pe' = pe_cacheEnabled pe"
proof (induction ps arbitrary: n pe)
  case Nil
  then show ?case by simp
next
  case (Cons P ps)
  obtain e pe1 where L: "loadProjectPoliciesLocked lib um P pe = (e, pe1)" by fastforce
  note C = loadLocked_cache [OF L]
  show ?case
  proof (cases "pj_Name P = []")
    case True
    then show ?thesis using Cons.prems Cons.IH [of "Suc n" pe] by simp
  next
    case False
    then show ?thesis
      using Cons.prems L C Cons.IH [of n pe1] Cons.IH [of "Suc n" pe1] by (cases e) simp_all
  qed
qed

lemma sync_remove_cache:
  "sync_remove lib cur names n pe = (n', pe') \<Longrightarrow>
   pe_cache pe' = pe_cache pe \<and> pe_cacheEnabled pe' = pe_cacheEnabled pe"
proof (induction names arbitrary: n pe)
  case Nil
  then show ?case by simp
next
  case (Cons nm names)
  obtain e s where R: "removeProjectPoliciesLocked lib nm (pe_engine pe) = (e, s)" by fastforce
  show ?case
  proof (cases "nm \<in> set cur")
    case True
    then show ?thesis using Cons.prems Cons.IH [of n pe] by simp
  next
    case False
    then show ?thesis
      using Cons.prems R Cons.IH [of "if e = None then n else Suc n" "pe\<lparr>pe_engine := s, pe_loaded := removeAll nm (pe_loaded pe)\<rparr>"]
      by simp
  qed
qed

lemma metrics_coherent [simp]:
  "pe_coherent lib cinv look now (IncrementPolicyReloads pe) = pe_coherent lib cinv look now pe"
  "pe_coherent lib cinv look now (IncrementBackgroundSyncs pe) = pe_coherent lib cinv look now pe"
  by (cases "pe_cache pe"; simp add: pe_coherent_def IncrementPolicyReloads_def IncrementBackgroundSyncs_def)+

subsection \<open>Properties\<close>

text \<open>
  C6: with a coherent cache, a request is answered as the engine would answer it, and the cache stays
  coherent. \<open>CanAccessWithGroups\<close> returns true exactly when the user, one of the valid groups or one of
  the server-side roles is allowed the action on one of the objects to check (the object itself, its
  project-scoped form, and for a list request the project wildcards of the groups); a cached answer
  never differs from a fresh one, and nothing but the cache changes.
\<close>

theorem can_access_with_groups_decides:
  assumes "policy_enforcer lib pol grp grp2 hl hl2 km ops cinv look" "pe_coherent lib cinv look now pe"
    and "user \<noteq> []" "object \<noteq> []" "action \<noteq> []"
    and "\<forall>sb \<in> set (access_subjects lib (pe_engine pe) user groups).
           \<forall>ob \<in> set (objectsToCheck lib reader groups object action (pe_engine pe)). clean (sb, ob, action)"
  shows "\<exists>pe'. CanAccessWithGroups lib ops reader now user groups object action pe
           = (Inr (\<exists>sb \<in> set (access_subjects lib (pe_engine pe) user groups).
                     \<exists>ob \<in> set (objectsToCheck lib reader groups object action (pe_engine pe)).
                       ce_Enforce lib (pe_engine pe) sb ob action = Inr True), pe') \<and>
           only_cache pe pe' \<and> pe_coherent lib cinv look now pe'"
  using policy_enforcer.CanAccessWithGroups_step [OF assms] by (simp add: ce_Enforce_def)

definition demo_access :: "(mem_store, inMemoryCache) policyEnforcer" where
  "demo_access =
     \<lparr>pe_engine = \<lparr>mem_p = [[''proj:alpha:dev'', ''instances/alpha/*'', ''get'', ''allow'']],
                  mem_g = [(''group:devs'', ''proj:alpha:dev'')], mem_g2 = []\<rparr>,
      pe_loaded = [''alpha''], pe_cache = Some NewAuthorizationCache, pe_cacheEnabled = True,
      pe_cacheTTL = 300, pe_PolicyReloads = 0, pe_BackgroundSyncs = 0, pe_WatcherRestarts = 0\<rparr>"

lemma demo_access_coherent: "pe_coherent mem_lib cache_inv cache_look now demo_access"
  by (simp add: pe_coherent_def demo_access_def NewAuthorizationCache_def NewAuthorizationCacheWithTTL_def
      cache_inv_def cache_look_def)

theorem can_access_with_groups_decides_witness:
  "fst (CanAccessWithGroups mem_lib memory_cache_ops None 0 ''user:al'' [''devs''] ''instances/alpha/x'' ''get'' demo_access)
     = Inr True"
proof -
  have s: "access_subjects mem_lib (pe_engine demo_access) ''user:al'' [''devs''] = [''user:al'', ''group:devs'']"
    "objectsToCheck mem_lib None [''devs''] ''instances/alpha/x'' ''get'' (pe_engine demo_access) = [''instances/alpha/x'']"
    by code_simp+
  have d: "ce_Enforce mem_lib (pe_engine demo_access) ''group:devs'' ''instances/alpha/x'' ''get'' = Inr True"
    by code_simp
  have "\<forall>sb \<in> set (access_subjects mem_lib (pe_engine demo_access) ''user:al'' [''devs'']).
      \<forall>ob \<in> set (objectsToCheck mem_lib None [''devs''] ''instances/alpha/x'' ''get'' (pe_engine demo_access)).
        clean (sb, ob, ''get'')"
    unfolding s by (simp add: clean_def)
  from can_access_with_groups_decides [OF mpe.policy_enforcer_axioms demo_access_coherent [of 0] _ _ _ this]
  show ?thesis unfolding s using d by auto
qed

text \<open>
  C14: assigning roles replaces them. \<open>AssignUserRoles\<close> succeeds exactly when the user is named and
  every non-empty role has a valid format; either way the links of the user become those of the roles
  before the first invalid one, every other link and all policy rules stay as they are.
\<close>

theorem assign_user_roles_exact:
  assumes "casbin_engine lib pol grp grp2 hl hl2 km" "user \<noteq> []"
  shows "(fst (AssignUserRoles lib ops store user roles (pe, r)) = None) = list_all valid_role roles \<and>
         (let s = pe_engine pe; s' = pe_engine (fst (snd (AssignUserRoles lib ops store user roles (pe, r))))
          in pol s' = pol s \<and> grp s' = {l \<in> grp s. fst l \<noteq> user} \<union> good_links user roles \<and>
             (list_all valid_role roles \<longrightarrow>
                {x. (user, x) \<in> grp s'} = {x \<in> set roles. x \<noteq> []}))"
proof -
  obtain e s' where A: "assignUserRolesInCasbin lib user roles (pe_engine pe) = (e, s')"
      "e = None \<longleftrightarrow> list_all valid_role roles" "pol s' = pol (pe_engine pe)"
      "grp s' = {l \<in> grp (pe_engine pe). fst l \<noteq> user} \<union> good_links user roles"
  proof -
    have "casbin_engine lib pol grp grp2 hl hl2 km" by (rule assms(1))
    then have pe: "policy_enforcer lib pol grp grp2 hl hl2 km memory_cache_ops cache_inv cache_look"
      using mc.authz_cache_axioms by (simp add: policy_enforcer_def)
    from policy_enforcer.assign_effect [OF pe, of user roles "pe_engine pe"] that show thesis by blast
  qed
  have eng: "pe_engine (snd (InvalidateCacheForUser ops user (pe\<lparr>pe_engine := s'\<rparr>))) = s'"
    by (simp add: InvalidateCacheForUser_def split: option.splits prod.splits)
  have S: "fst (AssignUserRoles lib ops store user roles (pe, r)) = None \<longleftrightarrow> e = None"
      "pe_engine (fst (snd (AssignUserRoles lib ops store user roles (pe, r)))) = s'"
    using A(1) assms(2) eng by (auto simp: AssignUserRoles_def split: option.splits)
  have "good_links user roles = (\<lambda>x. (user, x)) ` {x \<in> set roles. x \<noteq> []}" if "list_all valid_role roles"
    using that by (simp add: good_links_def list_all_iff takeWhile_eq_all_conv [THEN iffD2])
  then show ?thesis using A S by (auto simp: Let_def)
qed

theorem assign_user_roles_exact_witness:
  "fst (AssignUserRoles mem_lib memory_cache_ops (None :: unit role_store_ops option) ''user:al''
      [''role:operator'', ''admin''] (demo_access, ())) \<noteq> None"
proof -
  have "\<not> list_all valid_role [''role:operator'', ''admin'']" by code_simp
  then show ?thesis
    using assign_user_roles_exact [OF mem.casbin_engine_axioms, of "''user:al''" memory_cache_ops
        "None :: unit role_store_ops option" "[''role:operator'', ''admin'']" demo_access "()"] by simp
qed

text \<open>
  C15: every successful change of policies or roles leaves the cache coherent: after
  \<open>LoadProjectPolicies\<close>, \<open>RemoveProjectPolicies\<close>, \<open>RemoveUserRoles\<close>, \<open>RemoveUserRole\<close> and
  \<open>SyncPolicies\<close> (once the projects are listed, whatever errors it reports) it has been cleared, and
  after \<open>AssignUserRoles\<close> for a user whom nobody has as a role, dropping the entries of that user was
  enough.
\<close>

theorem policy_changes_keep_cache_coherent:
  assumes "policy_enforcer lib pol grp grp2 hl hl2 km ops cinv look" "pe_coherent lib cinv look now pe"
    and "CHR 0x00 \<notin> set user" "\<forall>x. (x, user) \<notin> grp (pe_engine pe)"
  shows "(fst (LoadProjectPolicies lib ops um (Some P) pe) = None \<longrightarrow>
            pe_coherent lib cinv look now (snd (LoadProjectPolicies lib ops um (Some P) pe))) \<and>
         (p \<noteq> [] \<longrightarrow> pe_coherent lib cinv look now (snd (RemoveProjectPolicies lib ops p pe))) \<and>
         (pr_ListProjects rd = Inr ps \<longrightarrow>
            pe_coherent lib cinv look now (snd (SyncPolicies lib ops um (Some rd) pe))) \<and>
         (fst (RemoveUserRoles lib ops store user (pe, r)) = None \<longrightarrow>
            pe_coherent lib cinv look now (fst (snd (RemoveUserRoles lib ops store user (pe, r))))) \<and>
         (fst (RemoveUserRole lib ops store user role (pe, r)) = None \<longrightarrow>
            pe_coherent lib cinv look now (fst (snd (RemoveUserRole lib ops store user role (pe, r))))) \<and>
         (fst (AssignUserRoles lib ops store user roles (pe, r)) = None \<longrightarrow>
            pe_coherent lib cinv look now (fst (snd (AssignUserRoles lib ops store user roles (pe, r)))))"
proof -
  note E = assms(1)
  have inv: "\<And>c. pe_cache pe = Some c \<Longrightarrow> cinv c"
    using policy_enforcer.coherent_inv [OF E assms(2)] .
  have clear: "pe_coherent lib cinv look now (clear_cache_if_enabled ops pe1)" if "pe_cache pe1 = pe_cache pe"
    for pe1 :: "('a, 'b) policyEnforcer"
    using policy_enforcer.coherent_after_clear [OF E] inv that by metis
  have load: "fst (LoadProjectPolicies lib ops um (Some P) pe) = None \<longrightarrow>
      pe_coherent lib cinv look now (snd (LoadProjectPolicies lib ops um (Some P) pe))"
  proof
    assume ok: "fst (LoadProjectPolicies lib ops um (Some P) pe) = None"
    obtain e pe1 where L: "loadProjectPoliciesLocked lib um P pe = (e, pe1)" by fastforce
    have "pe_cache pe1 = pe_cache pe" using loadLocked_cache [OF L] by simp
    then show "pe_coherent lib cinv look now (snd (LoadProjectPolicies lib ops um (Some P) pe))"
      using ok L clear by (cases e) (auto simp: LoadProjectPolicies_def split: if_splits)
  qed
  have sync: "pr_ListProjects rd = Inr ps \<longrightarrow> pe_coherent lib cinv look now (snd (SyncPolicies lib ops um (Some rd) pe))"
  proof
    assume ok: "pr_ListProjects rd = Inr ps"
    obtain n1 pe1 where l: "sync_load lib um ps 0 pe = (n1, pe1)" by fastforce
    obtain n2 pe2 where m: "sync_remove lib (map pj_Name ps) (pe_loaded pe1) n1 pe1 = (n2, pe2)" by fastforce
    have "pe_cache pe2 = pe_cache pe" using sync_load_cache [OF l] sync_remove_cache [OF m] by simp
    then show "pe_coherent lib cinv look now (snd (SyncPolicies lib ops um (Some rd) pe))"
      using ok l m clear by (simp add: SyncPolicies_def)
  qed
  have rem: "p \<noteq> [] \<longrightarrow> pe_coherent lib cinv look now (snd (RemoveProjectPolicies lib ops p pe))"
  proof
    assume "p \<noteq> []"
    obtain e s where R: "removeProjectPoliciesLocked lib p (pe_engine pe) = (e, s)" by fastforce
    have "snd (RemoveProjectPolicies lib ops p pe)
        = clear_cache_if_enabled ops (pe\<lparr>pe_loaded := removeAll p (pe_loaded pe), pe_engine := s\<rparr>)"
      using \<open>p \<noteq> []\<close> R by (simp add: RemoveProjectPolicies_def Let_def clear_cache_if_enabled_def)
    then show "pe_coherent lib cinv look now (snd (RemoveProjectPolicies lib ops p pe))" using clear by simp
  qed
  have "fst (RemoveUserRoles lib ops store user (pe, r)) = None \<longrightarrow>
      pe_coherent lib cinv look now (fst (snd (RemoveUserRoles lib ops store user (pe, r))))"
    using clear by (auto simp: RemoveUserRoles_def split: option.splits prod.splits)
  moreover have "fst (RemoveUserRole lib ops store user role (pe, r)) = None \<longrightarrow>
      pe_coherent lib cinv look now (fst (snd (RemoveUserRole lib ops store user role (pe, r))))"
    using clear by (auto simp: RemoveUserRole_def split: sum.splits prod.splits)
  moreover have "fst (AssignUserRoles lib ops store user roles (pe, r)) = None \<longrightarrow>
      pe_coherent lib cinv look now (fst (snd (AssignUserRoles lib ops store user roles (pe, r))))"
    by (intro impI) (rule policy_enforcer.assign_coherent [OF E assms(2-4)])
  ultimately show ?thesis using load sync rem by (intro conjI)
qed

theorem policy_changes_keep_cache_coherent_witness:
  "pe_coherent mem_lib cache_inv cache_look 0
     (fst (snd (AssignUserRoles mem_lib memory_cache_ops (None :: unit role_store_ops option) ''user:al''
        [''role:operator''] (demo_access, ()))))"
proof -
  have links: "\<forall>x. (x, ''user:al'') \<notin> mem_grp (pe_engine demo_access)" by (simp add: demo_access_def)
  have clean: "CHR 0x00 \<notin> set ''user:al''" by simp
  have ok: "fst (AssignUserRoles mem_lib memory_cache_ops (None :: unit role_store_ops option) ''user:al''
        [''role:operator''] (demo_access, ())) = None" by code_simp
  show ?thesis
    by (rule policy_changes_keep_cache_coherent [OF mpe.policy_enforcer_axioms demo_access_coherent clean links,
          THEN conjunct2, THEN conjunct2, THEN conjunct2, THEN conjunct2, THEN conjunct2, THEN mp, OF ok])
qed

text \<open>
  The projects of a user. With a coherent cache, \<open>GetAccessibleProjects\<close> returns, in the order of
  the cluster's list, every project when the user is granted \<open>get\<close> on \<open>projects/*\<close>, and otherwise
  exactly those on which the user, a group or a role is granted \<open>get\<close>; the cache stays coherent. The
  short cut is therefore exact unless a deny rule names a single project, which it ignores.
\<close>

theorem accessible_projects_exact:
  assumes "policy_enforcer lib pol grp grp2 hl hl2 km ops cinv look" "pe_coherent lib cinv look now pe"
    and "user \<noteq> []" "pr_ListProjects rd = Inr ps"
    and "policy_enforcer.clean_for lib (Some rd) (pe_engine pe) user groups ''projects/*'' ''get''"
    and "\<forall>p \<in> set ps. policy_enforcer.clean_for lib (Some rd) (pe_engine pe) user groups (''projects/'' @ pj_Name p) ''get''"
  shows "\<exists>pe'. GetAccessibleProjects lib ops (Some rd) now user groups pe
           = (Inr (map pj_Name (filter (\<lambda>p.
                policy_enforcer.granted lib (Some rd) (pe_engine pe) user groups ''projects/*'' ''get'' \<or>
                policy_enforcer.granted lib (Some rd) (pe_engine pe) user groups (''projects/'' @ pj_Name p) ''get'') ps)), pe') \<and>
           only_cache pe pe' \<and> pe_coherent lib cinv look now pe'"
proof -
  note E = assms(1)
  let ?W = "policy_enforcer.granted lib (Some rd) (pe_engine pe) user groups ''projects/*'' ''get''"
  obtain pe1 where C: "CanAccessWithGroups lib ops (Some rd) now user groups ''projects/*'' ''get'' pe = (Inr ?W, pe1)"
      "only_cache pe pe1" "pe_coherent lib cinv look now pe1"
    using policy_enforcer.CanAccessWithGroups_step [OF E assms(2,3), of "''projects/*''" "''get''" groups "Some rd"] assms(5)
    unfolding policy_enforcer.granted_def [OF E] policy_enforcer.clean_for_def [OF E] by auto
  have e: "pe_engine pe1 = pe_engine pe" using C(2) by simp
  obtain pe2 where R: "accessible_projects lib ops (Some rd) now user groups ps pe1
        = (map pj_Name (filter (\<lambda>p. policy_enforcer.granted lib (Some rd) (pe_engine pe) user groups (''projects/'' @ pj_Name p) ''get'') ps), pe2)"
      "only_cache pe1 pe2" "pe_coherent lib cinv look now pe2"
    using policy_enforcer.accessible_projects_step [OF E C(3) assms(3)] assms(6) unfolding e by blast
  show ?thesis
  proof (cases ?W)
    case True
    then show ?thesis using C assms(4) by (simp add: GetAccessibleProjects_def)
  next
    case False
    have "only_cache pe pe2" by (rule only_cache_trans [OF C(2) R(2)])
    then show ?thesis using False C R assms(4) by (simp add: GetAccessibleProjects_def)
  qed
qed

theorem accessible_projects_exact_witness:
  "\<exists>pe'. GetAccessibleProjects mem_lib memory_cache_ops
        (Some \<lparr>pr_ListProjects = Inr [demo_alpha], pr_FindProjectForNamespace = \<lambda>_. Inr None\<rparr>) 0 ''user:al'' [''devs'']
        demo_access = (Inr [], pe')"
proof -
  let ?rd = "\<lparr>pr_ListProjects = Inr [demo_alpha], pr_FindProjectForNamespace = \<lambda>_. Inr None\<rparr>"
  have nm: "pj_Name demo_alpha = ''alpha''" by (simp add: demo_alpha_def demo_project_def)
  have subj: "access_subjects mem_lib (pe_engine demo_access) ''user:al'' [''devs''] = [''user:al'', ''group:devs'']"
    by code_simp
  have obs: "objectsToCheck mem_lib (Some ?rd) [''devs''] ''projects/*'' ''get'' (pe_engine demo_access) = [''projects/*'']"
    "objectsToCheck mem_lib (Some ?rd) [''devs''] ''projects/alpha'' ''get'' (pe_engine demo_access) = [''projects/alpha'']"
    by (simp_all add: objectsToCheck_def resolveNamespaceToProjectObject_def Let_def)
  have no: "lib_Enforce mem_lib (pe_engine demo_access) ''user:al'' ''projects/*'' ''get'' \<noteq> Inr True"
    "lib_Enforce mem_lib (pe_engine demo_access) ''group:devs'' ''projects/*'' ''get'' \<noteq> Inr True"
    "lib_Enforce mem_lib (pe_engine demo_access) ''user:al'' ''projects/alpha'' ''get'' \<noteq> Inr True"
    "lib_Enforce mem_lib (pe_engine demo_access) ''group:devs'' ''projects/alpha'' ''get'' \<noteq> Inr True"
    by code_simp+
  have c: "mpe.clean_for (Some ?rd) (pe_engine demo_access) ''user:al'' [''devs''] ''projects/*'' ''get''"
    "mpe.clean_for (Some ?rd) (pe_engine demo_access) ''user:al'' [''devs''] (''projects/'' @ pj_Name demo_alpha) ''get''"
    using subj obs by (simp_all add: mpe.clean_for_def clean_def nm)
  have g: "\<not> mpe.granted (Some ?rd) (pe_engine demo_access) ''user:al'' [''devs''] ''projects/*'' ''get''"
    "\<not> mpe.granted (Some ?rd) (pe_engine demo_access) ''user:al'' [''devs''] (''projects/'' @ pj_Name demo_alpha) ''get''"
    using subj obs no by (simp_all add: mpe.granted_def nm)
  have "\<forall>p \<in> set [demo_alpha]. mpe.clean_for (Some ?rd) (pe_engine demo_access) ''user:al'' [''devs''] (''projects/'' @ pj_Name p) ''get''"
    using c(2) by simp
  from accessible_projects_exact [OF mpe.policy_enforcer_axioms demo_access_coherent [of 0] _ _ c(1) this] g
  show ?thesis by auto
qed

text \<open>
  A failed assignment leaves a stale grant. A user with the operator role asks for an RGD and is
  allowed; an assignment of roles that contains an invalid one then fails, but the old role is gone
  already; the engine now denies the request while \<open>CanAccess\<close> still answers yes from the cache, which
  only a successful assignment invalidates.
\<close>

theorem failed_assignment_leaves_stale_grant:
  "let pe0 = demo_access\<lparr>pe_engine := \<lparr>mem_p = [[''role:operator'', ''rgds/storage/*'', ''get'', ''allow'']],
               mem_g = [(''user:al'', ''role:operator'')], mem_g2 = []\<rparr>\<rparr>;
       (r1, pe1) = CanAccess mem_lib memory_cache_ops 0 ''user:al'' ''rgds/storage/x'' ''get'' pe0;
       (err, pe2, _) = AssignUserRoles mem_lib memory_cache_ops (None :: unit role_store_ops option)
                         ''user:al'' [''admin''] (pe1, ());
       (r2, pe3) = CanAccess mem_lib memory_cache_ops 1 ''user:al'' ''rgds/storage/x'' ''get'' pe2
   in r1 = Inr True \<and> err \<noteq> None \<and> r2 = Inr True \<and>
      ce_Enforce mem_lib (pe_engine pe2) ''user:al'' ''rgds/storage/x'' ''get'' = Inr False"
  by code_simp

text \<open>
  A deny rule for a user is lost when a role of the user is allowed. The model's effect lets a
  matching deny win within one question to the engine, but \<open>CanAccessWithGroups\<close> asks again for each
  server-side role; an administrator who is explicitly denied an object is denied by \<open>Enforce\<close> and
  by \<open>CanAccess\<close>, and allowed by \<open>CanAccessWithGroups\<close>.
\<close>

theorem user_deny_overridden_by_role:
  "let pe = (demo_pe [[''role:serveradmin'', ''*'', ''*'', ''allow''], [''user:al'', ''settings/*'', ''*'', ''deny'']])
              \<lparr>pe_engine := \<lparr>mem_p = [[''role:serveradmin'', ''*'', ''*'', ''allow''],
                                     [''user:al'', ''settings/*'', ''*'', ''deny'']],
                            mem_g = [(''user:al'', ''role:serveradmin'')], mem_g2 = []\<rparr>\<rparr>
   in ce_Enforce mem_lib (pe_engine pe) ''user:al'' ''settings/sso'' ''update'' = Inr False \<and>
      fst (CanAccess mem_lib memory_cache_ops 0 ''user:al'' ''settings/sso'' ''update'' pe) = Inr False \<and>
      fst (CanAccessWithGroups mem_lib memory_cache_ops None 0 ''user:al'' [] ''settings/sso'' ''update'' pe) = Inr True"
  by code_simp

end
