(* ===== verification/Project_Service.thy ===== *)
theory Project_Service
  imports Project_Model "HOL-Library.AList"
begin

text \<open>
  \<open>rbac/project_service.go\<close>: the operations on the Project resources of the cluster. The dynamic
  Kubernetes client and the unstructured converter are a parameter, the record \<open>kube_client\<close>; the
  locale \<open>project_client\<close> states what the API server promises about a named collection of objects
  (a failed write may still have been applied), and the interpretation gives an in-memory server.
  The lemmas show that every reachable store holds valid specifications only, what the role
  operations change, and what the look-ups by namespace and by group return.
\<close>

subsection \<open>The client\<close>

text \<open>
  \<open>dynamicClient.Resource(ProjectGVR).Namespace(s.namespace)\<close> with the conversions between \<open>Project\<close>
  and the unstructured objects it handles.
\<close>

record ('k, 'u) kube_client =
  kc_ToUnstructured :: "Project \<Rightarrow> gerror + 'u"
  kc_FromUnstructured :: "'u \<Rightarrow> gerror + Project"
  kc_FromList :: "'u list \<Rightarrow> gerror + Project list"
  kc_Create :: "'u \<Rightarrow> 'k \<Rightarrow> (gerror + 'u) \<times> 'k"
  kc_Get :: "string \<Rightarrow> 'k \<Rightarrow> gerror + 'u"
  kc_List :: "'k \<Rightarrow> gerror + 'u list"
  kc_Update :: "'u \<Rightarrow> 'k \<Rightarrow> (gerror + 'u) \<times> 'k"
  kc_UpdateStatus :: "'u \<Rightarrow> 'k \<Rightarrow> (gerror + 'u) \<times> 'k"
  kc_Delete :: "string \<Rightarrow> 'k \<Rightarrow> gerror option \<times> 'k"

subsection \<open>Writing\<close>

text \<open>
  The part that \<open>CreateProject\<close>, \<open>UpdateProject\<close> and \<open>UpdateProjectStatus\<close> share: convert the
  project, send it, convert the answer back. \<open>ctx\<close> is the message put in front of a client error.
\<close>

definition send_project ::
  "('k, 'u) kube_client \<Rightarrow> ('u \<Rightarrow> 'k \<Rightarrow> (gerror + 'u) \<times> 'k) \<Rightarrow> string \<Rightarrow> Project \<Rightarrow> 'k \<Rightarrow>
   (gerror + Project) \<times> 'k" where
  "send_project kc write ctx project k =
     (case kc_ToUnstructured kc project of
        Inl e \<Rightarrow> (Inl (Wrap ''failed to convert project to unstructured'' e), k)
      | Inr u \<Rightarrow>
          (case write u k of
             (Inl e, k') \<Rightarrow> (Inl (Wrap ctx e), k')
           | (Inr result, k') \<Rightarrow>
               (case kc_FromUnstructured kc result of
                  Inl e \<Rightarrow> (Inl (Wrap ''failed to convert result to project'' e), k')
                | Inr p \<Rightarrow> (Inr p, k'))))"

text \<open>
  \<open>now\<close> is the current time and \<open>stamp\<close> its RFC 3339 form. The resource version and the creation
  time are set by the server.
\<close>

definition CreateProject ::
  "('k, 'u) kube_client \<Rightarrow> int \<Rightarrow> string \<Rightarrow> string \<Rightarrow> ProjectSpec \<Rightarrow> string \<Rightarrow> 'k \<Rightarrow>
   (gerror + Project) \<times> 'k" where
  "CreateProject kc now stamp name spec createdBy k =
     (case ValidateProjectName name of
        Some e \<Rightarrow> (Inl (Wrap ''invalid project name'' e), k)
      | None \<Rightarrow>
          (case ValidateProjectSpec spec of
             Some e \<Rightarrow> (Inl (Wrap ''invalid project spec'' e), k)
           | None \<Rightarrow>
               send_project kc (kc_Create kc) ''failed to create project''
                 \<lparr>pj_Name = name, pj_ResourceVersion = [], pj_CreationTimestamp = None,
                  pj_Labels = [(''app.kubernetes.io/managed-by'', ''knodex'')],
                  pj_Annotations = [(''knodex.io/created-by'', createdBy),
                                    (''knodex.io/created-at'', stamp)],
                  pj_Spec = spec,
                  pj_Status =
                    \<lparr>status_Conditions =
                       [\<lparr>cond_Type = ''Ready'', cond_Status = ''True'', cond_LastTransitionTime = now,
                         cond_Reason = ''Created'', cond_Message = ''Project created successfully''\<rparr>],
                     status_ClusterStates = []\<rparr>\<rparr> k))"

definition UpdateProject ::
  "('k, 'u) kube_client \<Rightarrow> string \<Rightarrow> Project \<Rightarrow> string \<Rightarrow> 'k \<Rightarrow> (gerror + Project) \<times> 'k" where
  "UpdateProject kc stamp project updatedBy k =
     (case ValidateProjectSpec (pj_Spec project) of
        Some e \<Rightarrow> (Inl (Wrap ''invalid project spec'' e), k)
      | None \<Rightarrow>
          send_project kc (kc_Update kc) ''failed to update project''
            (project\<lparr>pj_Annotations :=
               AList.update ''knodex.io/updated-at'' stamp
                 (AList.update ''knodex.io/updated-by'' updatedBy (pj_Annotations project))\<rparr>) k)"

definition UpdateProjectStatus ::
  "('k, 'u) kube_client \<Rightarrow> Project \<Rightarrow> 'k \<Rightarrow> (gerror + Project) \<times> 'k" where
  "UpdateProjectStatus kc project k =
     send_project kc (kc_UpdateStatus kc) ''failed to update project status'' project k"

definition DeleteProject :: "('k, 'u) kube_client \<Rightarrow> string \<Rightarrow> 'k \<Rightarrow> gerror option \<times> 'k" where
  "DeleteProject kc projectID k = wrap_st ''failed to delete project'' (kc_Delete kc projectID k)"

subsection \<open>Reading\<close>

definition GetProject :: "('k, 'u) kube_client \<Rightarrow> string \<Rightarrow> 'k \<Rightarrow> gerror + Project" where
  "GetProject kc projectID k =
     (case kc_Get kc projectID k of
        Inl e \<Rightarrow> Inl (Wrap ''failed to get project'' e)
      | Inr result \<Rightarrow>
          (case kc_FromUnstructured kc result of
             Inl e \<Rightarrow> Inl (Wrap ''failed to convert result to project'' e)
           | Inr p \<Rightarrow> Inr p))"

definition ListProjects :: "('k, 'u) kube_client \<Rightarrow> 'k \<Rightarrow> gerror + Project list" where
  "ListProjects kc k =
     (case kc_List kc k of
        Inl e \<Rightarrow> Inl (Wrap ''failed to list projects'' e)
      | Inr result \<Rightarrow>
          (case kc_FromList kc result of
             Inl e \<Rightarrow> Inl (Wrap ''failed to convert result to project list'' e)
           | Inr ps \<Rightarrow> Inr ps))"

fun owns_namespace :: "string \<Rightarrow> Destination list \<Rightarrow> bool" where
  "owns_namespace namespace [] = False"
| "owns_namespace namespace (dest # dests) =
     (if dest_Namespace dest = namespace \<or> dest_Namespace dest = ''*'' then True
      else if IsWildcard (dest_Namespace dest) \<and> matchesWildcard (dest_Namespace dest) namespace then True
      else owns_namespace namespace dests)"

fun first_owner :: "string \<Rightarrow> Project list \<Rightarrow> Project option" where
  "first_owner namespace [] = None"
| "first_owner namespace (project # projects) =
     (if owns_namespace namespace (spec_Destinations (pj_Spec project)) then Some project
      else first_owner namespace projects)"

definition GetProjectByDestinationNamespace ::
  "('k, 'u) kube_client \<Rightarrow> string \<Rightarrow> 'k \<Rightarrow> gerror + Project" where
  "GetProjectByDestinationNamespace kc namespace k =
     (case ListProjects kc k of
        Inl e \<Rightarrow> Inl e
      | Inr projects \<Rightarrow>
          (case first_owner namespace projects of
             Some p \<Rightarrow> Inr p
           | None \<Rightarrow> Inl (Err ''project with destination namespace not found'')))"

fun role_of_group :: "string \<Rightarrow> ProjectRole list \<Rightarrow> string" where
  "role_of_group gn [] = []"
| "role_of_group gn (role # roles) =
     (if gn \<in> set (role_Groups role) then role_Name role else role_of_group gn roles)"

definition GetUserRole :: "('k, 'u) kube_client \<Rightarrow> string \<Rightarrow> string \<Rightarrow> 'k \<Rightarrow> gerror + string" where
  "GetUserRole kc projectID userID k =
     (case GetProject kc projectID k of
        Inl e \<Rightarrow> Inl e
      | Inr project \<Rightarrow> Inr (role_of_group (''user:'' @ userID) (spec_Roles (pj_Spec project))))"

definition GetProjectRoles :: "('k, 'u) kube_client \<Rightarrow> string \<Rightarrow> 'k \<Rightarrow> gerror + ProjectRole list" where
  "GetProjectRoles kc projectID k =
     (case GetProject kc projectID k of
        Inl e \<Rightarrow> Inl e
      | Inr project \<Rightarrow> Inr (spec_Roles (pj_Spec project)))"

subsection \<open>Roles\<close>

definition set_roles :: "ProjectRole list \<Rightarrow> Project \<Rightarrow> Project" where
  "set_roles roles p = p\<lparr>pj_Spec := (pj_Spec p)\<lparr>spec_Roles := roles\<rparr>\<rparr>"

definition AddRole ::
  "('k, 'u) kube_client \<Rightarrow> string \<Rightarrow> string \<Rightarrow> ProjectRole \<Rightarrow> string \<Rightarrow> 'k \<Rightarrow> (gerror + Project) \<times> 'k" where
  "AddRole kc stamp projectID role updatedBy k =
     (case GetProject kc projectID k of
        Inl e \<Rightarrow> (Inl e, k)
      | Inr project \<Rightarrow>
          (case ProjectRole_Validate role of
             Some e \<Rightarrow> (Inl (Wrap ''invalid role'' e), k)
           | None \<Rightarrow>
               (if list_ex (\<lambda>r. role_Name r = role_Name role) (spec_Roles (pj_Spec project))
                then (Inl (Err ''role already exists in project''), k)
                else UpdateProject kc stamp
                       (set_roles (spec_Roles (pj_Spec project) @ [role]) project) updatedBy k)))"

definition RemoveRole ::
  "('k, 'u) kube_client \<Rightarrow> string \<Rightarrow> string \<Rightarrow> string \<Rightarrow> string \<Rightarrow> 'k \<Rightarrow> (gerror + Project) \<times> 'k" where
  "RemoveRole kc stamp projectID roleName updatedBy k =
     (case GetProject kc projectID k of
        Inl e \<Rightarrow> (Inl e, k)
      | Inr project \<Rightarrow>
          (let roles = spec_Roles (pj_Spec project)
           in if \<not> list_ex (\<lambda>r. role_Name r = roleName) roles
              then (Inl (Err ''role not found in project''), k)
              else UpdateProject kc stamp
                     (set_roles (filter (\<lambda>r. role_Name r \<noteq> roleName) roles) project) updatedBy k))"

text \<open>Replaces the first role with the name; \<open>None\<close> when there is none.\<close>

fun replace_role :: "string \<Rightarrow> ProjectRole \<Rightarrow> ProjectRole list \<Rightarrow> ProjectRole list option" where
  "replace_role roleName new [] = None"
| "replace_role roleName new (role # roles) =
     (if role_Name role = roleName then Some (new # roles)
      else map_option ((#) role) (replace_role roleName new roles))"

definition UpdateRole ::
  "('k, 'u) kube_client \<Rightarrow> string \<Rightarrow> string \<Rightarrow> string \<Rightarrow> ProjectRole \<Rightarrow> string \<Rightarrow> 'k \<Rightarrow>
   (gerror + Project) \<times> 'k" where
  "UpdateRole kc stamp projectID roleName updatedRole updatedBy k =
     (case GetProject kc projectID k of
        Inl e \<Rightarrow> (Inl e, k)
      | Inr project \<Rightarrow>
          (case ProjectRole_Validate updatedRole of
             Some e \<Rightarrow> (Inl (Wrap ''invalid role'' e), k)
           | None \<Rightarrow>
               (case replace_role roleName updatedRole (spec_Roles (pj_Spec project)) of
                  None \<Rightarrow> (Inl (Err ''role not found in project''), k)
                | Some roles \<Rightarrow> UpdateProject kc stamp (set_roles roles project) updatedBy k)))"

fun add_group :: "string \<Rightarrow> string \<Rightarrow> ProjectRole list \<Rightarrow> gerror + ProjectRole list" where
  "add_group roleName groupName [] = Inl (Err ''role not found in project'')"
| "add_group roleName groupName (role # roles) =
     (if role_Name role = roleName
      then (if groupName \<in> set (role_Groups role) then Inl (Err ''group already in role'')
            else Inr (role\<lparr>role_Groups := role_Groups role @ [groupName]\<rparr> # roles))
      else (case add_group roleName groupName roles of
              Inl e \<Rightarrow> Inl e
            | Inr rest \<Rightarrow> Inr (role # rest)))"

definition AddGroupToRole ::
  "('k, 'u) kube_client \<Rightarrow> string \<Rightarrow> string \<Rightarrow> string \<Rightarrow> string \<Rightarrow> string \<Rightarrow> 'k \<Rightarrow>
   (gerror + Project) \<times> 'k" where
  "AddGroupToRole kc stamp projectID roleName groupName updatedBy k =
     (case GetProject kc projectID k of
        Inl e \<Rightarrow> (Inl e, k)
      | Inr project \<Rightarrow>
          (case add_group roleName groupName (spec_Roles (pj_Spec project)) of
             Inl e \<Rightarrow> (Inl e, k)
           | Inr roles \<Rightarrow> UpdateProject kc stamp (set_roles roles project) updatedBy k))"

subsection \<open>Look-ups by group\<close>

definition role_matches :: "string list \<Rightarrow> ProjectRole \<Rightarrow> bool" where
  "role_matches userGroups role \<longleftrightarrow> list_ex (\<lambda>g. g \<in> set userGroups) (role_Groups role)"

definition GetUserProjectsByGroup ::
  "('k, 'u) kube_client \<Rightarrow> string list \<Rightarrow> 'k \<Rightarrow> gerror + Project list" where
  "GetUserProjectsByGroup kc userGroups k =
     (case ListProjects kc k of
        Inl e \<Rightarrow> Inl e
      | Inr projects \<Rightarrow>
          Inr (filter (\<lambda>p. list_ex (role_matches userGroups) (spec_Roles (pj_Spec p))) projects))"

fun record_roles ::
  "string list \<Rightarrow> string \<Rightarrow> ProjectRole list \<Rightarrow> (string \<rightharpoonup> string) \<Rightarrow> (string \<rightharpoonup> string)" where
  "record_roles userGroups name [] m = m"
| "record_roles userGroups name (role # roles) m =
     record_roles userGroups name roles
       (if role_matches userGroups role \<and> m name = None then m(name \<mapsto> role_Name role) else m)"

fun record_projects ::
  "string list \<Rightarrow> Project list \<Rightarrow> (string \<rightharpoonup> string) \<Rightarrow> (string \<rightharpoonup> string)" where
  "record_projects userGroups [] m = m"
| "record_projects userGroups (p # ps) m =
     record_projects userGroups ps (record_roles userGroups (pj_Name p) (spec_Roles (pj_Spec p)) m)"

definition GetUserProjectRolesByGroup ::
  "('k, 'u) kube_client \<Rightarrow> string list \<Rightarrow> 'k \<Rightarrow> gerror + (string \<rightharpoonup> string)" where
  "GetUserProjectRolesByGroup kc userGroups k =
     (if length userGroups = 0 then Inr Map.empty
      else (case ListProjects kc k of
              Inl e \<Rightarrow> Inl e
            | Inr projects \<Rightarrow> Inr (record_projects userGroups projects Map.empty)))"

subsection \<open>What the API server promises\<close>

text \<open>
  A project as the server stores it: name, labels, annotations and specification are those that were
  sent. A write that reports an error may have been applied all the same (the answer can be lost),
  but never in part. An update needs the resource version that is stored, or none.
\<close>

definition same_content :: "Project \<Rightarrow> Project \<Rightarrow> bool" where
  "same_content p p' \<longleftrightarrow>
     pj_Name p' = pj_Name p \<and> pj_Labels p' = pj_Labels p \<and> pj_Annotations p' = pj_Annotations p \<and>
     pj_Spec p' = pj_Spec p"

definition answers :: "('k, 'u) kube_client \<Rightarrow> gerror + 'u \<Rightarrow> Project \<Rightarrow> bool" where
  "answers kc r p' \<longleftrightarrow> (case r of Inl _ \<Rightarrow> True | Inr u \<Rightarrow> (\<forall>q. kc_FromUnstructured kc u = Inr q \<longrightarrow> q = p'))"

text \<open>
  What a role operation promises. Either it reports an error and stores nothing, or it stores the
  project with the roles \<open>f rs\<close> in place of \<open>rs\<close>, where \<open>rs\<close> meets \<open>pre\<close> and the new specification
  is well formed, and it returns what it stored unless the answer was lost. When the server is
  reachable it succeeds exactly if those conditions hold.
\<close>

definition with_roles :: "(ProjectRole list \<Rightarrow> ProjectRole list) \<Rightarrow> ProjectSpec \<Rightarrow> ProjectSpec" where
  "with_roles f spec = spec\<lparr>spec_Roles := f (spec_Roles spec)\<rparr>"

definition role_change ::
  "('k \<Rightarrow> string \<rightharpoonup> Project) \<Rightarrow> ('k \<Rightarrow> bool) \<Rightarrow> (ProjectRole list \<Rightarrow> bool) \<Rightarrow>
   (ProjectRole list \<Rightarrow> ProjectRole list) \<Rightarrow> string \<Rightarrow> 'k \<Rightarrow> (gerror + Project) \<times> 'k \<Rightarrow> bool" where
  "role_change objs up pre f pid k res =
     (case res of (r, k') \<Rightarrow>
        ((\<exists>e. r = Inl e) \<and> objs k' = objs k \<or>
         (\<exists>p p'. objs k pid = Some p \<and> pre (spec_Roles (pj_Spec p)) \<and>
            wf_project_spec (with_roles f (pj_Spec p)) \<and> pj_Spec p' = with_roles f (pj_Spec p) \<and>
            objs k' = (objs k)(pid \<mapsto> p') \<and> (\<forall>q. r = Inr q \<longrightarrow> q = p'))) \<and>
        (up k \<longrightarrow> (\<exists>q. r = Inr q) =
           (\<exists>p. objs k pid = Some p \<and> pre (spec_Roles (pj_Spec p)) \<and>
                wf_project_spec (with_roles f (pj_Spec p)))))"

definition valid_store :: "('k \<Rightarrow> string \<rightharpoonup> Project) \<Rightarrow> 'k \<Rightarrow> bool" where
  "valid_store objs k \<longleftrightarrow>
     (\<forall>n p. objs k n = Some p \<longrightarrow> ValidateProjectName n = None \<and> wf_project_spec (pj_Spec p))"

lemma valid_storeD:
  assumes "valid_store objs k" "objs k n = Some p"
  shows "wf_project_spec (pj_Spec p)" "distinct (map role_Name (spec_Roles (pj_Spec p)))"
  using assms by (auto simp: valid_store_def wf_project_spec_def)

lemma replace_role_Some:
  "distinct (map role_Name rs) \<Longrightarrow>
   replace_role nm new rs =
     (if nm \<in> role_Name ` set rs then Some (map (\<lambda>r. if role_Name r = nm then new else r) rs) else None)"
proof (induction rs)
  case (Cons r rs)
  show ?case
  proof (cases "role_Name r = nm")
    case True
    then have "map (\<lambda>r. if role_Name r = nm then new else r) rs = rs"
      using Cons.prems by (intro map_idI) (auto simp: rev_image_eqI)
    then show ?thesis using True by simp
  next
    case False
    then show ?thesis using Cons by auto
  qed
qed simp

lemma add_group_Inr:
  "distinct (map role_Name rs) \<Longrightarrow>
   (if \<exists>r \<in> set rs. role_Name r = nm \<and> g \<notin> set (role_Groups r)
    then add_group nm g rs =
      Inr (map (\<lambda>r. if role_Name r = nm then r\<lparr>role_Groups := role_Groups r @ [g]\<rparr> else r) rs)
    else \<exists>e. add_group nm g rs = Inl e)"
proof (induction rs)
  case (Cons r rs)
  show ?case
  proof (cases "role_Name r = nm")
    case True
    then have "nm \<notin> role_Name ` set rs" using Cons.prems by simp
    moreover from this have "map (\<lambda>r. if role_Name r = nm then r\<lparr>role_Groups := role_Groups r @ [g]\<rparr> else r) rs = rs"
      by (intro map_idI) auto
    ultimately show ?thesis using True by (auto simp: rev_image_eqI)
  next
    case False
    with Cons.prems have "distinct (map role_Name rs)" by simp
    from Cons.IH [OF this] show ?thesis
      using False by (auto split: if_splits)
  qed
qed simp

text \<open>One call of the service that may write.\<close>

inductive service_step :: "('k, 'u) kube_client \<Rightarrow> 'k \<Rightarrow> 'k \<Rightarrow> bool" for kc :: "('k, 'u) kube_client" where
  create: "CreateProject kc now stamp name spec createdBy k = (r, k') \<Longrightarrow> service_step kc k k'"
| update: "UpdateProject kc stamp p updatedBy k = (r, k') \<Longrightarrow> service_step kc k k'"
| status: "UpdateProjectStatus kc p k = (r, k') \<Longrightarrow> service_step kc k k'"
| delete: "DeleteProject kc pid k = (err, k') \<Longrightarrow> service_step kc k k'"
| add_role: "AddRole kc stamp pid role updatedBy k = (r, k') \<Longrightarrow> service_step kc k k'"
| remove_role: "RemoveRole kc stamp pid nm updatedBy k = (r, k') \<Longrightarrow> service_step kc k k'"
| update_role: "UpdateRole kc stamp pid nm role updatedBy k = (r, k') \<Longrightarrow> service_step kc k k'"
| add_group: "AddGroupToRole kc stamp pid nm gn updatedBy k = (r, k') \<Longrightarrow> service_step kc k k'"

lemma role_change_valid:
  assumes "role_change objs up pre f pid k (r, k')" "valid_store objs k"
  shows "valid_store objs k'"
proof -
  consider "objs k' = objs k"
    | p p' where "objs k pid = Some p" "wf_project_spec (with_roles f (pj_Spec p))"
        "pj_Spec p' = with_roles f (pj_Spec p)" "objs k' = (objs k)(pid \<mapsto> p')"
    using assms(1) by (auto simp: role_change_def)
  then show ?thesis using assms(2) by cases (auto simp: valid_store_def)
qed

locale project_client =
  fixes kc :: "('k, 'u) kube_client"
    and objs :: "'k \<Rightarrow> string \<rightharpoonup> Project"
    and up :: "'k \<Rightarrow> bool"
  assumes objs_name: "objs k n = Some p \<Longrightarrow> pj_Name p = n"
    and get_stored: "kc_Get kc n k = Inr u \<Longrightarrow> kc_FromUnstructured kc u = Inr p \<Longrightarrow> objs k n = Some p"
    and list_stored: "kc_List kc k = Inr us \<Longrightarrow> kc_FromList kc us = Inr ps \<Longrightarrow>
      distinct (map pj_Name ps) \<and> (\<forall>p. p \<in> set ps \<longleftrightarrow> objs k (pj_Name p) = Some p)"
    and create_stores: "kc_ToUnstructured kc p = Inr u \<Longrightarrow> kc_Create kc u k = (r, k') \<Longrightarrow>
      (\<exists>e. r = Inl e) \<and> objs k' = objs k \<or>
      (\<exists>p'. objs k (pj_Name p) = None \<and> same_content p p' \<and> objs k' = (objs k)(pj_Name p \<mapsto> p') \<and>
         answers kc r p')"
    and update_stores: "kc_ToUnstructured kc p = Inr u \<Longrightarrow> kc_Update kc u k = (r, k') \<Longrightarrow>
      (\<exists>e. r = Inl e) \<and> objs k' = objs k \<or>
      (\<exists>p0 p'. objs k (pj_Name p) = Some p0 \<and> pj_ResourceVersion p \<in> {[], pj_ResourceVersion p0} \<and>
         same_content p p' \<and> pj_Status p' = pj_Status p0 \<and> objs k' = (objs k)(pj_Name p \<mapsto> p') \<and>
         answers kc r p')"
    and status_stores: "kc_ToUnstructured kc p = Inr u \<Longrightarrow> kc_UpdateStatus kc u k = (r, k') \<Longrightarrow>
      (\<exists>e. r = Inl e) \<and> objs k' = objs k \<or>
      (\<exists>p0 p'. objs k (pj_Name p) = Some p0 \<and> same_content p0 p' \<and> pj_Status p' = pj_Status p \<and>
         objs k' = (objs k)(pj_Name p \<mapsto> p') \<and> answers kc r p')"
    and delete_removes: "kc_Delete kc n k = (err, k') \<Longrightarrow>
      err \<noteq> None \<and> objs k' = objs k \<or> objs k' = (objs k)(n := None)"
    and to_total: "\<exists>u. kc_ToUnstructured kc p = Inr u"
    and up_get: "up k \<Longrightarrow> objs k n = Some p \<Longrightarrow>
      \<exists>u. kc_Get kc n k = Inr u \<and> kc_FromUnstructured kc u = Inr p"
    and up_update: "up k \<Longrightarrow> kc_ToUnstructured kc p = Inr u \<Longrightarrow> objs k (pj_Name p) = Some p0 \<Longrightarrow>
      pj_ResourceVersion p = pj_ResourceVersion p0 \<Longrightarrow>
      \<exists>u' p' k'. kc_Update kc u k = (Inr u', k') \<and> kc_FromUnstructured kc u' = Inr p'"
begin

lemma GetProject_stored:
  assumes "GetProject kc pid k = Inr p"
  shows "objs k pid = Some p"
  using assms get_stored by (auto simp: GetProject_def split: sum.splits)

lemma GetProject_name: "GetProject kc pid k = Inr p \<Longrightarrow> pj_Name p = pid"
  by (rule objs_name [OF GetProject_stored])

lemma ListProjects_stored:
  assumes "ListProjects kc k = Inr ps"
  shows "distinct (map pj_Name ps)" "p \<in> set ps \<longleftrightarrow> objs k (pj_Name p) = Some p"
proof -
  obtain us where "kc_List kc k = Inr us" "kc_FromList kc us = Inr ps"
    using assms by (auto simp: ListProjects_def split: sum.splits)
  note L = list_stored [OF this]
  show "distinct (map pj_Name ps)" by (rule conjunct1 [OF L])
  show "p \<in> set ps \<longleftrightarrow> objs k (pj_Name p) = Some p" by (rule conjunct2 [OF L, rule_format])
qed

text \<open>What the exchange of \<open>send_project\<close> does, given what its write does.\<close>

lemma send_project_cases:
  assumes "send_project kc write ctx p k = (r, k')"
    and "\<And>u r k'. kc_ToUnstructured kc p = Inr u \<Longrightarrow> write u k = (r, k') \<Longrightarrow>
      (\<exists>e. r = Inl e) \<and> objs k' = objs k \<or> (\<exists>p'. P p' \<and> objs k' = (objs k)(nm \<mapsto> p') \<and> answers kc r p')"
  shows "(\<exists>e. r = Inl e) \<and> objs k' = objs k \<or>
    (\<exists>p'. P p' \<and> objs k' = (objs k)(nm \<mapsto> p') \<and> (\<forall>q. r = Inr q \<longrightarrow> q = p'))"
proof (cases "kc_ToUnstructured kc p")
  case (Inl e)
  then show ?thesis using assms(1) by (auto simp: send_project_def)
next
  case (Inr u)
  obtain w k1 where W: "write u k = (w, k1)" by (cases "write u k") auto
  have "k1 = k'" and r: "case w of Inl e \<Rightarrow> r = Inl (Wrap ctx e)
      | Inr a \<Rightarrow> (case kc_FromUnstructured kc a of Inl e \<Rightarrow> (\<exists>e'. r = Inl e') | Inr q \<Rightarrow> r = Inr q)"
    using assms(1) Inr W by (auto simp: send_project_def split: sum.splits)
  with assms(2) [OF Inr W] r show ?thesis
    by (auto simp: answers_def split: sum.splits)
qed

lemma UpdateProject_cases:
  assumes "UpdateProject kc stamp p updatedBy k = (r, k')"
  shows "(\<exists>e. r = Inl e) \<and> objs k' = objs k \<or>
    (\<exists>p'. (wf_project_spec (pj_Spec p) \<and> pj_Spec p' = pj_Spec p \<and> pj_Name p' = pj_Name p \<and>
            (\<exists>p0. objs k (pj_Name p) = Some p0 \<and> pj_ResourceVersion p \<in> {[], pj_ResourceVersion p0})) \<and>
          objs k' = (objs k)(pj_Name p \<mapsto> p') \<and> (\<forall>q. r = Inr q \<longrightarrow> q = p'))"
proof (cases "ValidateProjectSpec (pj_Spec p)")
  case (Some e)
  then show ?thesis using assms by (auto simp: UpdateProject_def)
next
  case None
  let ?p = "p\<lparr>pj_Annotations := AList.update ''knodex.io/updated-at'' stamp
               (AList.update ''knodex.io/updated-by'' updatedBy (pj_Annotations p))\<rparr>"
  have S: "send_project kc (kc_Update kc) ''failed to update project'' ?p k = (r, k')"
    using assms None by (simp add: UpdateProject_def)
  have wf: "wf_project_spec (pj_Spec p)" using None by (simp add: ValidateProjectSpec_None)
  show ?thesis
  proof (rule send_project_cases [OF S], goal_cases)
    case (1 u w k1)
    from update_stores [OF 1] wf show ?case by (fastforce simp: same_content_def)
  qed
qed

lemma CreateProject_cases:
  assumes "CreateProject kc now stamp name spec createdBy k = (r, k')"
  shows "(\<exists>e. r = Inl e) \<and> objs k' = objs k \<or>
    (\<exists>p'. (ValidateProjectName name = None \<and> wf_project_spec spec \<and> objs k name = None \<and>
           pj_Spec p' = spec \<and> pj_Name p' = name) \<and>
          objs k' = (objs k)(name \<mapsto> p') \<and> (\<forall>q. r = Inr q \<longrightarrow> q = p'))"
proof (cases "ValidateProjectName name = None \<and> ValidateProjectSpec spec = None")
  case False
  then show ?thesis using assms by (auto simp: CreateProject_def split: option.splits)
next
  case True
  note S = assms [unfolded CreateProject_def True [THEN conjunct1] True [THEN conjunct2] option.case]
  show ?thesis
  proof (rule send_project_cases [OF S], goal_cases)
    case (1 u w k1)
    from create_stores [OF 1] True show ?case
      by (fastforce simp: same_content_def ValidateProjectSpec_None)
  qed
qed

lemma UpdateProjectStatus_cases:
  assumes "UpdateProjectStatus kc p k = (r, k')"
  shows "(\<exists>e. r = Inl e) \<and> objs k' = objs k \<or>
    (\<exists>p'. (\<exists>p0. objs k (pj_Name p) = Some p0 \<and> pj_Spec p' = pj_Spec p0 \<and> pj_Name p' = pj_Name p0) \<and>
          objs k' = (objs k)(pj_Name p \<mapsto> p') \<and> (\<forall>q. r = Inr q \<longrightarrow> q = p'))"
proof (rule send_project_cases [OF assms [unfolded UpdateProjectStatus_def]], goal_cases)
  case (1 u w k1)
  from status_stores [OF 1] show ?case by (fastforce simp: same_content_def)
qed

lemma DeleteProject_cases:
  assumes "DeleteProject kc n k = (err, k')"
  shows "err \<noteq> None \<and> objs k' = objs k \<or> objs k' = (objs k)(n := None)"
proof -
  obtain e k1 where D: "kc_Delete kc n k = (e, k1)" by (cases "kc_Delete kc n k") auto
  show ?thesis using delete_removes [OF D] assms D
    by (cases e) (auto simp: DeleteProject_def wrap_err_def)
qed

lemma UpdateProject_answers:
  assumes "up k" "objs k (pj_Name p) = Some p0" "pj_ResourceVersion p = pj_ResourceVersion p0"
    and "wf_project_spec (pj_Spec p)"
  shows "\<exists>q k'. UpdateProject kc stamp p updatedBy k = (Inr q, k')"
proof -
  let ?p = "p\<lparr>pj_Annotations := AList.update ''knodex.io/updated-at'' stamp
               (AList.update ''knodex.io/updated-by'' updatedBy (pj_Annotations p))\<rparr>"
  obtain u where u: "kc_ToUnstructured kc ?p = Inr u" using to_total by blast
  obtain u' p' k' where "kc_Update kc u k = (Inr u', k')" "kc_FromUnstructured kc u' = Inr p'"
    using up_update [OF assms(1) u] assms(2,3) by auto
  moreover have "ValidateProjectSpec (pj_Spec p) = None" using assms(4) by (simp add: ValidateProjectSpec_None)
  ultimately show ?thesis using u by (simp add: UpdateProject_def send_project_def)
qed

lemma GetProject_up: "up k \<Longrightarrow> objs k pid = Some p \<Longrightarrow> GetProject kc pid k = Inr p"
  using up_get [of k pid p] by (auto simp: GetProject_def)

text \<open>Every role operation reads the project, computes the new roles and updates.\<close>

lemma role_change_update:
  assumes get_err: "\<And>e. GetProject kc pid k = Inl e \<Longrightarrow> res = (Inl e, k)"
    and get_ok: "\<And>p. GetProject kc pid k = Inr p \<Longrightarrow>
      (\<exists>e. res = (Inl e, k)) \<and>
        \<not> (pre (spec_Roles (pj_Spec p)) \<and> wf_project_spec (with_roles f (pj_Spec p))) \<or>
      pre (spec_Roles (pj_Spec p)) \<and>
        res = UpdateProject kc stamp (set_roles (f (spec_Roles (pj_Spec p))) p) updatedBy k"
  shows "role_change objs up pre f pid k res"
proof (cases "GetProject kc pid k")
  case (Inl e)
  then show ?thesis using get_err [OF Inl] GetProject_up [of k pid] by (auto simp: role_change_def)
next
  case (Inr p)
  note st = GetProject_stored [OF Inr] and nm = GetProject_name [OF Inr]
  let ?p = "set_roles (f (spec_Roles (pj_Spec p))) p"
  have P: "pj_Spec ?p = with_roles f (pj_Spec p)" "pj_Name ?p = pid"
      "pj_ResourceVersion ?p = pj_ResourceVersion p"
    using nm by (simp_all add: set_roles_def with_roles_def)
  from get_ok [OF Inr] show ?thesis
  proof (elim disjE conjE exE)
    fix e
    assume "res = (Inl e, k)" "\<not> (pre (spec_Roles (pj_Spec p)) \<and> wf_project_spec (with_roles f (pj_Spec p)))"
    then show ?thesis using st by (auto simp: role_change_def)
  next
    assume pre: "pre (spec_Roles (pj_Spec p))" and res: "res = UpdateProject kc stamp ?p updatedBy k"
    obtain r k' where rk: "res = (r, k')" by (cases res) auto
    have up: "\<exists>q. r = Inr q" if "up k" "wf_project_spec (with_roles f (pj_Spec p))"
      using UpdateProject_answers [OF that(1), of ?p p stamp updatedBy] st that(2) P res rk by auto
    from UpdateProject_cases [OF res [symmetric, unfolded rk]] show ?thesis
    proof (elim disjE conjE exE)
      fix e
      assume "r = Inl e" "objs k' = objs k"
      then show ?thesis using up st by (auto simp: role_change_def rk)
    next
      fix p' p0
      assume "wf_project_spec (pj_Spec ?p)" "pj_Spec p' = pj_Spec ?p"
        "objs k' = (objs k)(pj_Name ?p \<mapsto> p')" "\<forall>q. r = Inr q \<longrightarrow> q = p'"
      then show ?thesis using up st pre unfolding role_change_def rk P by auto
    qed
  qed
qed

lemma AddRole_change:
  "role_change objs up (\<lambda>rs. role_Name role \<notin> role_Name ` set rs) (\<lambda>rs. rs @ [role]) pid k
     (AddRole kc stamp pid role updatedBy k)"
proof (rule role_change_update [where stamp = stamp and updatedBy = updatedBy], goal_cases)
  case (2 p)
  have "\<not> wf_project_spec (with_roles (\<lambda>rs. rs @ [role]) (pj_Spec p))" if "ProjectRole_Validate role = Some e" for e
    using that ProjectRole_Validate_None [of role]
    by (auto simp: wf_project_spec_def with_roles_def wf_role_def simp del: ProjectRole_Validate_None)
  moreover have "list_ex (\<lambda>r. role_Name r = role_Name role) rs \<longleftrightarrow> role_Name role \<in> role_Name ` set rs" for rs
    by (induction rs) auto
  ultimately show ?case
    using 2 by (auto simp: AddRole_def simp del: ProjectRole_Validate_None split: option.split)
qed (simp add: AddRole_def)

lemma RemoveRole_change:
  "role_change objs up (\<lambda>rs. nm \<in> role_Name ` set rs) (filter (\<lambda>r. role_Name r \<noteq> nm)) pid k
     (RemoveRole kc stamp pid nm updatedBy k)"
  by (rule role_change_update [where stamp = stamp and updatedBy = updatedBy])
     (auto simp: RemoveRole_def list_ex_iff Let_def)

lemma UpdateRole_change:
  assumes "valid_store objs k"
  shows "role_change objs up (\<lambda>rs. nm \<in> role_Name ` set rs) (map (\<lambda>r. if role_Name r = nm then new else r)) pid k
     (UpdateRole kc stamp pid nm new updatedBy k)"
proof (rule role_change_update [where stamp = stamp and updatedBy = updatedBy], goal_cases)
  case (2 p)
  note R = replace_role_Some [OF valid_storeD(2) [OF assms GetProject_stored [OF 2]], of nm new]
  have "\<not> (nm \<in> role_Name ` set (spec_Roles (pj_Spec p)) \<and>
          wf_project_spec (with_roles (map (\<lambda>r. if role_Name r = nm then new else r)) (pj_Spec p)))"
    if "ProjectRole_Validate new = Some e" for e
    using that ProjectRole_Validate_None [of new]
    by (auto simp: wf_project_spec_def with_roles_def wf_role_def list_all_iff simp del: ProjectRole_Validate_None)
  with 2 R show ?case
    by (auto simp: UpdateRole_def simp del: ProjectRole_Validate_None split: option.split)
qed (simp add: UpdateRole_def)

lemma AddGroupToRole_change:
  assumes "valid_store objs k"
  shows "role_change objs up (\<lambda>rs. \<exists>r \<in> set rs. role_Name r = nm \<and> g \<notin> set (role_Groups r))
     (map (\<lambda>r. if role_Name r = nm then r\<lparr>role_Groups := role_Groups r @ [g]\<rparr> else r)) pid k
     (AddGroupToRole kc stamp pid nm g updatedBy k)"
proof (rule role_change_update [where stamp = stamp and updatedBy = updatedBy], goal_cases)
  case (2 p)
  from add_group_Inr [OF valid_storeD(2) [OF assms GetProject_stored [OF 2]], of nm g] 2
  show ?case by (auto simp: AddGroupToRole_def split: if_splits)
qed (simp add: AddGroupToRole_def)

lemma step_keeps_valid:
  assumes "service_step kc k k'" "valid_store objs k"
  shows "valid_store objs k'"
  using assms
proof (induction rule: service_step.induct)
  case (create now stamp name spec createdBy k r k')
  from CreateProject_cases [OF create(1)] create(2) show ?case by (auto simp: valid_store_def split: if_splits)
next
  case (update stamp p updatedBy k r k')
  from UpdateProject_cases [OF update(1)] update(2) show ?case
    by (auto simp: valid_store_def split: if_splits)
next
  case (status p k r k')
  from UpdateProjectStatus_cases [OF status(1)] status(2) show ?case
    by (auto simp: valid_store_def split: if_splits)
next
  case (delete pid k err k')
  from DeleteProject_cases [OF delete(1)] delete(2) show ?case
    by (auto simp: valid_store_def split: if_splits)
next
  case (add_role stamp pid role updatedBy k r k')
  show ?case
    by (rule role_change_valid [OF AddRole_change [where role = role and pid = pid and k = k and stamp = stamp and
          updatedBy = updatedBy, unfolded add_role(1)] add_role(2)])
next
  case (remove_role stamp pid nm updatedBy k r k')
  show ?case
    by (rule role_change_valid [OF RemoveRole_change [where nm = nm and pid = pid and k = k and stamp = stamp and
          updatedBy = updatedBy, unfolded remove_role(1)] remove_role(2)])
next
  case (update_role stamp pid nm role updatedBy k r k')
  show ?case
    by (rule role_change_valid [OF UpdateRole_change [OF update_role(2), where nm = nm and new = role and pid = pid and stamp = stamp and
          updatedBy = updatedBy, unfolded update_role(1)] update_role(2)])
next
  case (add_group stamp pid nm gn updatedBy k r k')
  show ?case
    by (rule role_change_valid [OF AddGroupToRole_change [OF add_group(2), where nm = nm and g = gn and pid = pid and stamp = stamp and
          updatedBy = updatedBy, unfolded add_group(1)] add_group(2)])
qed

lemma reachable_valid: "(service_step kc)\<^sup>*\<^sup>* k k' \<Longrightarrow> valid_store objs k \<Longrightarrow> valid_store objs k'"
  by (induction rule: rtranclp_induct) (auto intro: step_keeps_valid)

end

subsection \<open>An in-memory API server\<close>

record mem_kube =
  mk_objs :: "(string \<times> Project) list"
  mk_version :: nat

definition mem_objs :: "mem_kube \<Rightarrow> string \<rightharpoonup> Project" where
  "mem_objs k n = map_option (\<lambda>p. p\<lparr>pj_Name := n\<rparr>) (map_of (mk_objs k) n)"

definition mem_store_project :: "Project \<Rightarrow> mem_kube \<Rightarrow> (gerror + Project) \<times> mem_kube" where
  "mem_store_project p k =
     (let p' = p\<lparr>pj_ResourceVersion := replicate (Suc (mk_version k)) (CHR ''v'')\<rparr>
      in (Inr p', k\<lparr>mk_objs := AList.update (pj_Name p) p' (mk_objs k), mk_version := Suc (mk_version k)\<rparr>))"

definition mem_client :: "(mem_kube, Project) kube_client" where
  "mem_client =
     \<lparr>kc_ToUnstructured = Inr, kc_FromUnstructured = Inr, kc_FromList = Inr,
      kc_Create = \<lambda>p k. (case mem_objs k (pj_Name p) of
          Some _ \<Rightarrow> (Inl (Err ''already exists''), k)
        | None \<Rightarrow> mem_store_project p k),
      kc_Get = \<lambda>n k. (case mem_objs k n of None \<Rightarrow> Inl (Err ''not found'') | Some p \<Rightarrow> Inr p),
      kc_List = \<lambda>k. Inr (map (\<lambda>(n, p). p\<lparr>pj_Name := n\<rparr>) (AList.clearjunk (mk_objs k))),
      kc_Update = \<lambda>p k. (case mem_objs k (pj_Name p) of
          None \<Rightarrow> (Inl (Err ''not found''), k)
        | Some p0 \<Rightarrow>
            (if pj_ResourceVersion p = [] \<or> pj_ResourceVersion p = pj_ResourceVersion p0
             then mem_store_project (p\<lparr>pj_Status := pj_Status p0\<rparr>) k
             else (Inl (Err ''conflict''), k))),
      kc_UpdateStatus = \<lambda>p k. (case mem_objs k (pj_Name p) of
          None \<Rightarrow> (Inl (Err ''not found''), k)
        | Some p0 \<Rightarrow>
            (if pj_ResourceVersion p = [] \<or> pj_ResourceVersion p = pj_ResourceVersion p0
             then mem_store_project (p0\<lparr>pj_Status := pj_Status p\<rparr>) k
             else (Inl (Err ''conflict''), k))),
      kc_Delete = \<lambda>n k. (case mem_objs k n of
          None \<Rightarrow> (Some (Err ''not found''), k)
        | Some _ \<Rightarrow> (None, k\<lparr>mk_objs := AList.delete n (mk_objs k)\<rparr>))\<rparr>"

lemma mem_store_project_stores:
  assumes "mem_store_project p k = (r, k')"
  shows "\<exists>v. r = Inr (p\<lparr>pj_ResourceVersion := v\<rparr>) \<and>
    mem_objs k' = (mem_objs k)(pj_Name p \<mapsto> p\<lparr>pj_ResourceVersion := v\<rparr>)"
  using assms
  by (intro exI [of _ "replicate (Suc (mk_version k)) (CHR ''v'')"])
     (auto simp: mem_store_project_def mem_objs_def Let_def update_conv' fun_eq_iff)

lemma mem_objs_name: "mem_objs k n = Some p \<Longrightarrow> pj_Name p = n"
  by (auto simp: mem_objs_def)

lemma mem_list:
  fixes al :: "(string \<times> Project) list"
  shows
  "distinct (map pj_Name (map (\<lambda>(n, p). p\<lparr>pj_Name := n\<rparr>) (AList.clearjunk al)))"
  "p \<in> set (map (\<lambda>(n, p). p\<lparr>pj_Name := n\<rparr>) (AList.clearjunk al)) \<longleftrightarrow>
     map_option (\<lambda>q. q\<lparr>pj_Name := pj_Name p\<rparr>) (map_of al (pj_Name p)) = Some p"
proof -
  have "map pj_Name (map (\<lambda>(n, p). p\<lparr>pj_Name := n\<rparr>) xs) = map fst xs" for xs :: "(string \<times> Project) list"
    by (induction xs) auto
  then show "distinct (map pj_Name (map (\<lambda>(n, p). p\<lparr>pj_Name := n\<rparr>) (AList.clearjunk al)))"
    using distinct_clearjunk [of al] by (simp only:)
  have "map_of al n = Some q \<longleftrightarrow> (n, q) \<in> set (AList.clearjunk al)" for n q
    using map_of_eq_Some_iff [OF distinct_clearjunk, of al n q] by (simp add: map_of_clearjunk)
  then show "p \<in> set (map (\<lambda>(n, p). p\<lparr>pj_Name := n\<rparr>) (AList.clearjunk al)) \<longleftrightarrow>
     map_option (\<lambda>q. q\<lparr>pj_Name := pj_Name p\<rparr>) (map_of al (pj_Name p)) = Some p"
    by (force simp: image_iff)
qed

interpretation kube: project_client mem_client mem_objs "\<lambda>_. True"
proof (unfold_locales, goal_cases)
  case (3 k us ps)
  then have "ps = map (\<lambda>(n, p). p\<lparr>pj_Name := n\<rparr>) (AList.clearjunk (mk_objs k))"
    by (simp add: mem_client_def)
  then show ?case unfolding mem_objs_def by (simp only: mem_list simp_thms)
next
  case (4 p u k r k')
  then have "u = p" by (simp add: mem_client_def)
  with 4(2) show ?case
    by (cases "mem_objs k (pj_Name p)")
       (auto simp: mem_client_def same_content_def answers_def dest!: mem_store_project_stores)
next
  case (5 p u k r k')
  then have u: "u = p" by (simp add: mem_client_def)
  show ?case
  proof (cases "mem_objs k (pj_Name p)")
    case (Some p0)
    with 5(2) u show ?thesis
      by (auto simp: mem_client_def same_content_def answers_def split: if_splits dest!: mem_store_project_stores)
  qed (use 5(2) u in \<open>auto simp: mem_client_def\<close>)
next
  case (6 p u k r k')
  then have u: "u = p" by (simp add: mem_client_def)
  show ?case
  proof (cases "mem_objs k (pj_Name p)")
    case (Some p0)
    with 6(2) u mem_objs_name [OF Some] show ?thesis
      by (auto simp: mem_client_def same_content_def answers_def split: if_splits dest!: mem_store_project_stores)
  qed (use 6(2) u in \<open>auto simp: mem_client_def\<close>)
next
  case (7 n k err k')
  then show ?case
    by (auto simp: mem_client_def mem_objs_def delete_conv' fun_eq_iff split: option.splits)
next
  case (10 k p u p0)
  then show ?case by (auto simp: mem_client_def mem_store_project_def Let_def)
qed (auto simp: mem_client_def mem_objs_name split: option.splits dest: mem_objs_name)

subsection \<open>Look-ups\<close>

lemma matchesWildcard_self: "matchesWildcard s s"
  by (cases s) (auto simp: matchesWildcard_def Let_def butlast_conv_take)

lemma owns_namespace_iff:
  "owns_namespace ns ds \<longleftrightarrow> (\<exists>d \<in> set ds. matchesWildcard (dest_Namespace d) ns)"
proof (induction ds)
  case (Cons d ds)
  have "(dest_Namespace d = ns \<or> dest_Namespace d = ''*'' \<or>
         IsWildcard (dest_Namespace d) \<and> matchesWildcard (dest_Namespace d) ns) =
        matchesWildcard (dest_Namespace d) ns"
    using matchesWildcard_self [of ns]
    by (auto simp: matchesWildcard_def IsWildcard_def split: if_splits)
  then show ?case using Cons.IH by auto
qed simp

lemma first_owner_find:
  "first_owner ns ps = find (\<lambda>p. \<exists>d \<in> set (spec_Destinations (pj_Spec p)). matchesWildcard (dest_Namespace d) ns) ps"
  by (induction ps) (auto simp: owns_namespace_iff)

lemma record_roles_find:
  "record_roles gs nm rs m =
     (if m nm = None
      then (case find (role_matches gs) rs of None \<Rightarrow> m | Some r \<Rightarrow> m(nm \<mapsto> role_Name r)) else m)"
  by (induction rs arbitrary: m) auto

lemma record_projects_find:
  assumes "distinct (map pj_Name ps)" "\<forall>p \<in> set ps. m (pj_Name p) = None"
  shows "record_projects gs ps m nm =
    (case find (\<lambda>p. pj_Name p = nm) ps of
       None \<Rightarrow> m nm
     | Some p \<Rightarrow> map_option role_Name (find (role_matches gs) (spec_Roles (pj_Spec p))))"
  using assms
proof (induction ps arbitrary: m)
  case (Cons p ps)
  define m' where "m' = record_roles gs (pj_Name p) (spec_Roles (pj_Spec p)) m"
  have M: "m' x = (if x = pj_Name p then map_option role_Name (find (role_matches gs) (spec_Roles (pj_Spec p))) else m x)" for x
    using Cons.prems(2) by (auto simp: m'_def record_roles_find split: option.split)
  have none: "find (\<lambda>q. pj_Name q = pj_Name p) ps = None"
    using Cons.prems(1) by (auto simp: find_None_iff rev_image_eqI)
  have "\<forall>q \<in> set ps. m' (pj_Name q) = None" using Cons.prems by (auto simp: M rev_image_eqI)
  then have "record_projects gs ps m' nm =
      (case find (\<lambda>p. pj_Name p = nm) ps of None \<Rightarrow> m' nm
       | Some p \<Rightarrow> map_option role_Name (find (role_matches gs) (spec_Roles (pj_Spec p))))"
    using Cons.IH [of m'] Cons.prems(1) by simp
  moreover have "record_projects gs (p # ps) m = record_projects gs ps m'" by (simp add: m'_def)
  moreover have "m' nm = m nm" if "pj_Name p \<noteq> nm" using that M by auto
  ultimately show ?case using none M [of "pj_Name p"] by (cases "pj_Name p = nm") (auto split: option.split)
qed simp

context project_client
begin

lemma find_project:
  assumes "ListProjects kc k = Inr ps"
  shows "find (\<lambda>p. pj_Name p = nm) ps = objs k nm"
proof (cases "objs k nm")
  case None
  then show ?thesis using ListProjects_stored(2) [OF assms] by (auto simp: find_None_iff)
next
  case (Some p)
  then have p: "p \<in> set ps" "pj_Name p = nm"
    using ListProjects_stored(2) [OF assms] objs_name [OF Some] by auto
  then obtain q where "find (\<lambda>p. pj_Name p = nm) ps = Some q"
    by (cases "find (\<lambda>p. pj_Name p = nm) ps") (auto simp: find_None_iff)
  moreover from this have "q \<in> set ps" "pj_Name q = nm" by (auto simp: find_Some_iff)
  then have "objs k nm = Some q" using ListProjects_stored(2) [OF assms, of q] by simp
  ultimately show ?thesis using Some by simp
qed

lemma roles_by_group:
  assumes "ListProjects kc k = Inr ps" "gs \<noteq> []"
  shows "\<exists>m. GetUserProjectRolesByGroup kc gs k = Inr m \<and>
    (\<forall>nm. m nm = (case objs k nm of None \<Rightarrow> None
        | Some p \<Rightarrow> map_option role_Name (find (role_matches gs) (spec_Roles (pj_Spec p)))))"
  using assms record_projects_find [OF ListProjects_stored(1) [OF assms(1)], of Map.empty gs]
  by (auto simp: GetUserProjectRolesByGroup_def find_project [OF assms(1)] split: option.split)

lemma projects_by_group:
  assumes "ListProjects kc k = Inr ps"
  shows "\<exists>qs. GetUserProjectsByGroup kc gs k = Inr qs \<and>
    set qs = {p. objs k (pj_Name p) = Some p \<and> (\<exists>role \<in> set (spec_Roles (pj_Spec p)). role_matches gs role)}"
  using assms ListProjects_stored(2) [OF assms] by (auto simp: GetUserProjectsByGroup_def list_ex_iff)

end

subsection \<open>Properties\<close>

definition demo_kube :: mem_kube where
  "demo_kube = \<lparr>mk_objs = [], mk_version = 0\<rparr>"

definition demo_spec :: "string list \<Rightarrow> ProjectSpec" where
  "demo_spec groups =
     \<lparr>spec_Type = ''app'', spec_Description = [],
      spec_Destinations = [\<lparr>dest_Namespace = ''team-*'', dest_Name = []\<rparr>],
      spec_ClusterResourceWhitelist = [], spec_ClusterResourceBlacklist = [],
      spec_NamespaceResourceWhitelist = [], spec_NamespaceResourceBlacklist = [],
      spec_Roles = [\<lparr>role_Name = ''dev'', role_Description = [], role_Policies = [''instances/*, get, allow''],
                     role_Groups = groups, role_Destinations = []\<rparr>],
      spec_Clusters = [], spec_Namespace = [], spec_NamespaceRetention = []\<rparr>"

definition demo_kube1 :: mem_kube where
  "demo_kube1 = snd (CreateProject mem_client 0 ''now'' ''alpha'' (demo_spec [''devs'']) ''admin'' demo_kube)"

lemma demo_kube1_step: "(service_step mem_client)\<^sup>*\<^sup>* demo_kube demo_kube1"
proof -
  have "CreateProject mem_client 0 ''now'' ''alpha'' (demo_spec [''devs'']) ''admin'' demo_kube =
      (fst (CreateProject mem_client 0 ''now'' ''alpha'' (demo_spec [''devs'']) ''admin'' demo_kube), demo_kube1)"
    by (simp add: demo_kube1_def)
  then show ?thesis by (intro r_into_rtranclp service_step.create)
qed

lemma demo_kube_valid: "valid_store mem_objs demo_kube"
  by (simp add: valid_store_def mem_objs_def demo_kube_def)

lemma demo_kube1_valid: "valid_store mem_objs demo_kube1"
  by (rule kube.reachable_valid [OF demo_kube1_step demo_kube_valid])

lemma demo_kube1_alpha: "map_option pj_Spec (mem_objs demo_kube1 ''alpha'') = Some (demo_spec [''devs''])"
  by code_simp

text \<open>
  C22: the service never stores an invalid project. From a cluster whose projects have valid names and
  well-formed specifications, any sequence of calls of the service (creating, updating, deleting,
  changing the status, adding, removing and updating roles, adding groups), failed calls and calls
  whose answer was lost included, leads to a cluster of which the same holds.
\<close>

theorem service_keeps_projects_valid:
  assumes "project_client kc objs up" "(service_step kc)\<^sup>*\<^sup>* k k'" "valid_store objs k"
  shows "valid_store objs k'"
  by (rule project_client.reachable_valid [OF assms])

theorem service_keeps_projects_valid_witness:
  "valid_store mem_objs demo_kube1 \<and> map_option pj_Spec (mem_objs demo_kube1 ''alpha'') = Some (demo_spec [''devs''])"
  by (intro conjI demo_kube1_alpha
      service_keeps_projects_valid [OF kube.project_client_axioms demo_kube1_step demo_kube_valid])

text \<open>
  What the role operations do to a valid store. Each either reports an error and stores nothing,
  or stores the project with its list of roles changed as documented and nothing else in the
  specification or in any other project: \<open>AddRole\<close> appends a role with a new name, \<open>RemoveRole\<close> drops
  the role, \<open>UpdateRole\<close> puts the new role in its place, \<open>AddGroupToRole\<close> adds a group the role did not
  have. When the server can be reached they succeed exactly if the role is there (new, for
  \<open>AddRole\<close>), the group is not, and the resulting specification is well formed.
\<close>

theorem role_operations_exact:
  assumes "project_client kc objs up" "valid_store objs k"
  shows "role_change objs up (\<lambda>rs. role_Name role \<notin> role_Name ` set rs) (\<lambda>rs. rs @ [role]) pid k
           (AddRole kc stamp pid role user k) \<and>
         role_change objs up (\<lambda>rs. nm \<in> role_Name ` set rs) (filter (\<lambda>r. role_Name r \<noteq> nm)) pid k
           (RemoveRole kc stamp pid nm user k) \<and>
         role_change objs up (\<lambda>rs. nm \<in> role_Name ` set rs) (map (\<lambda>r. if role_Name r = nm then role else r)) pid k
           (UpdateRole kc stamp pid nm role user k) \<and>
         role_change objs up (\<lambda>rs. \<exists>r \<in> set rs. role_Name r = nm \<and> g \<notin> set (role_Groups r))
           (map (\<lambda>r. if role_Name r = nm then r\<lparr>role_Groups := role_Groups r @ [g]\<rparr> else r)) pid k
           (AddGroupToRole kc stamp pid nm g user k)"
  by (intro conjI project_client.AddRole_change [OF assms(1)] project_client.RemoveRole_change [OF assms(1)]
      project_client.UpdateRole_change [OF assms] project_client.AddGroupToRole_change [OF assms])

theorem role_operations_exact_witness:
  "\<exists>q. fst (AddGroupToRole mem_client ''now'' ''alpha'' ''dev'' ''ops'' ''admin'' demo_kube1) = Inr q \<and>
       pj_Spec q = demo_spec [''devs'', ''ops'']"
proof -
  let ?res = "AddGroupToRole mem_client ''now'' ''alpha'' ''dev'' ''ops'' ''admin'' demo_kube1"
  let ?f = "map (\<lambda>r. if role_Name r = ''dev'' then r\<lparr>role_Groups := role_Groups r @ [''ops'']\<rparr> else r)"
  obtain p where p: "mem_objs demo_kube1 ''alpha'' = Some p" "pj_Spec p = demo_spec [''devs'']"
    using demo_kube1_alpha by blast
  have f: "with_roles ?f (demo_spec [''devs'']) = demo_spec [''devs'', ''ops'']"
    by (simp add: with_roles_def demo_spec_def)
  have "ValidateProjectSpec (demo_spec [''devs'', ''ops'']) = None" by code_simp
  then have wf: "wf_project_spec (demo_spec [''devs'', ''ops''])" by (simp add: ValidateProjectSpec_None)
  have pre: "\<exists>r \<in> set (spec_Roles (pj_Spec p)). role_Name r = ''dev'' \<and> ''ops'' \<notin> set (role_Groups r)"
    by (simp add: p demo_spec_def)
  have "role_change mem_objs (\<lambda>_. True) (\<lambda>rs. \<exists>r \<in> set rs. role_Name r = ''dev'' \<and> ''ops'' \<notin> set (role_Groups r))
      ?f ''alpha'' demo_kube1 ?res"
    using role_operations_exact [OF kube.project_client_axioms demo_kube1_valid] by blast
  then show ?thesis
    using p pre wf f by (cases ?res) (auto simp: role_change_def)
qed

text \<open>
  The project of a namespace. \<open>GetProjectByDestinationNamespace\<close> returns the first project of the
  list with a destination that matches the namespace (the name itself, a star, or a star at one end),
  and an error when there is none; a project with the destination \<open>*\<close> therefore takes every namespace
  that no project before it claims.
\<close>

theorem namespace_owner_is_first_match:
  assumes "ListProjects kc k = Inr ps"
  shows "(GetProjectByDestinationNamespace kc ns k = Inr p) =
           (find (\<lambda>p. \<exists>d \<in> set (spec_Destinations (pj_Spec p)). matchesWildcard (dest_Namespace d) ns) ps = Some p) \<and>
         ((\<exists>e. GetProjectByDestinationNamespace kc ns k = Inl e) =
           (\<forall>p \<in> set ps. \<forall>d \<in> set (spec_Destinations (pj_Spec p)). \<not> matchesWildcard (dest_Namespace d) ns))"
proof -
  let ?f = "find (\<lambda>p. \<exists>d \<in> set (spec_Destinations (pj_Spec p)). matchesWildcard (dest_Namespace d) ns) ps"
  have G: "GetProjectByDestinationNamespace kc ns k =
      (case ?f of Some p \<Rightarrow> Inr p | None \<Rightarrow> Inl (Err ''project with destination namespace not found''))"
    by (simp add: GetProjectByDestinationNamespace_def assms first_owner_find)
  have "?f = None \<longleftrightarrow> (\<forall>p \<in> set ps. \<forall>d \<in> set (spec_Destinations (pj_Spec p)). \<not> matchesWildcard (dest_Namespace d) ns)"
    by (auto simp: find_None_iff)
  moreover have "(\<exists>e. GetProjectByDestinationNamespace kc ns k = Inl e) \<longleftrightarrow> ?f = None"
    "GetProjectByDestinationNamespace kc ns k = Inr p \<longleftrightarrow> ?f = Some p"
    unfolding G by (cases ?f; simp)+
  ultimately show ?thesis by simp
qed

theorem namespace_owner_is_first_match_witness:
  "\<exists>p. GetProjectByDestinationNamespace mem_client ''team-a'' demo_kube1 = Inr p \<and> pj_Name p = ''alpha''"
proof -
  obtain ps where ps: "ListProjects mem_client demo_kube1 = Inr ps"
    by (auto simp: ListProjects_def mem_client_def)
  have "map (\<lambda>p. (pj_Name p, map dest_Namespace (spec_Destinations (pj_Spec p))))
      (projr (ListProjects mem_client demo_kube1)) = [(''alpha'', [''team-*''])]"
    by code_simp
  then obtain p d where "ps = [p]" "spec_Destinations (pj_Spec p) = [d]" "dest_Namespace d = ''team-*''" "pj_Name p = ''alpha''"
    by (auto simp: ps map_eq_Cons_conv)
  moreover have "matchesWildcard ''team-*'' ''team-a''" by code_simp
  ultimately show ?thesis
    using namespace_owner_is_first_match [OF ps, of "''team-a''" p] by auto
qed

text \<open>
  The roles a user's groups give. When the projects can be listed and the user has groups,
  \<open>GetUserProjectRolesByGroup\<close> maps a name to a role exactly if the cluster has a project of that name
  and the role is the first one of it that lists a group of the user; the projects it names are those
  that \<open>GetUserProjectsByGroup\<close> returns.
\<close>

theorem group_roles_exact:
  assumes "project_client kc objs up" "ListProjects kc k = Inr ps" "gs \<noteq> []"
  shows "\<exists>m qs. GetUserProjectRolesByGroup kc gs k = Inr m \<and> GetUserProjectsByGroup kc gs k = Inr qs \<and>
    (\<forall>nm. m nm = (case objs k nm of None \<Rightarrow> None
        | Some p \<Rightarrow> map_option role_Name (find (role_matches gs) (spec_Roles (pj_Spec p))))) \<and>
    dom m = pj_Name ` set qs"
proof -
  obtain m where m: "GetUserProjectRolesByGroup kc gs k = Inr m"
    "\<forall>nm. m nm = (case objs k nm of None \<Rightarrow> None
        | Some p \<Rightarrow> map_option role_Name (find (role_matches gs) (spec_Roles (pj_Spec p))))"
    using project_client.roles_by_group [OF assms] by blast
  obtain qs where qs: "GetUserProjectsByGroup kc gs k = Inr qs"
    "set qs = {p. objs k (pj_Name p) = Some p \<and> (\<exists>role \<in> set (spec_Roles (pj_Spec p)). role_matches gs role)}"
    using project_client.projects_by_group [OF assms(1,2)] by blast
  have nm: "pj_Name p = n" if "objs k n = Some p" for n p
    by (rule project_client.objs_name [OF assms(1) that])
  have "nm \<in> dom m \<longleftrightarrow> nm \<in> pj_Name ` set qs" for nm
  proof (cases "objs k nm")
    case None
    then have "nm \<notin> dom m" using m(2) by (simp add: dom_def)
    moreover have "nm \<notin> pj_Name ` set qs" using None unfolding qs(2) by auto
    ultimately show ?thesis by simp
  next
    case (Some p)
    have nmp: "pj_Name p = nm" by (rule nm [OF Some])
    have "q = p" if "q \<in> set qs" "pj_Name q = nm" for q using that Some unfolding qs(2) by simp
    then have "nm \<in> pj_Name ` set qs \<longleftrightarrow> p \<in> set qs" using nmp by blast
    moreover have "p \<in> set qs \<longleftrightarrow> (\<exists>role \<in> set (spec_Roles (pj_Spec p)). role_matches gs role)"
      unfolding qs(2) using Some nmp by simp
    moreover have "nm \<in> dom m \<longleftrightarrow> find (role_matches gs) (spec_Roles (pj_Spec p)) \<noteq> None"
      using m(2) by (simp add: Some dom_def)
    moreover have "find (role_matches gs) (spec_Roles (pj_Spec p)) \<noteq> None \<longleftrightarrow>
        (\<exists>role \<in> set (spec_Roles (pj_Spec p)). role_matches gs role)" by (auto simp: find_None_iff)
    ultimately show ?thesis by simp
  qed
  then show ?thesis using m qs(1) by blast
qed

theorem group_roles_exact_witness:
  "\<exists>m. GetUserProjectRolesByGroup mem_client [''ops'', ''devs''] demo_kube1 = Inr m \<and> m ''alpha'' = Some ''dev''"
proof -
  obtain ps where ps: "ListProjects mem_client demo_kube1 = Inr ps"
    by (auto simp: ListProjects_def mem_client_def)
  obtain p where p: "mem_objs demo_kube1 ''alpha'' = Some p" "pj_Spec p = demo_spec [''devs'']"
    using demo_kube1_alpha by blast
  have "find (role_matches [''ops'', ''devs'']) (spec_Roles (demo_spec [''devs''])) = Some (hd (spec_Roles (demo_spec [''devs''])))"
    "role_Name (hd (spec_Roles (demo_spec [''devs'']))) = ''dev''" by code_simp+
  then show ?thesis
    using group_roles_exact [OF kube.project_client_axioms ps, of "[''ops'', ''devs'']"] p by fastforce
qed

end
