(* ===== verification/Cache_Race.thy ===== *)
theory Cache_Race
  imports Policy_Enforce
begin

text \<open>
  Requests and policy loads that overlap, \<open>rbac/policy_enforcer.go\<close>. \<open>CanAccess\<close> takes three steps
  that other goroutines can come between: the cache look-up, the question to the engine under the
  read lock, and the store into the cache. \<open>LoadProjectPolicies\<close> takes two: the load under the write
  lock, and the clearing of the cache after the lock is released. A state holds the enforcer, the
  clock and the phase of every goroutine; the step relation interleaves the steps freely, or, with
  \<open>calm\<close>, lets a load begin only while no request is between its question and its store. The lemmas
  show that a calm system keeps the cache coherent, that the other one does not, and what still
  holds of every answer.
\<close>

subsection \<open>The steps\<close>

datatype phase =
  Idle
| Asked string string string
| Decided string string string bool
| Answered string string string bool
| Clearing

text \<open>\<open>sys_past\<close> is a ghost: the engines that were current at some time.\<close>

record ('s, 'c) system =
  sys_pe :: "('s, 'c) policyEnforcer"
  sys_now :: int
  sys_threads :: "nat \<Rightarrow> phase"
  sys_past :: "'s set"

text \<open>The parts of \<open>CanAccess\<close> and \<open>LoadProjectPolicies\<close>, as a goroutine \<open>i\<close> in its phase performs them.\<close>

definition access_lookup ::
  "'c cache_ops \<Rightarrow> nat \<Rightarrow> string \<Rightarrow> string \<Rightarrow> string \<Rightarrow> ('s, 'c) system \<Rightarrow> ('s, 'c) system" where
  "access_lookup ops i u ob a st =
     (case cached ops (sys_now st) u ob a (sys_pe st) of
        (Some d, pe') \<Rightarrow> st\<lparr>sys_pe := pe', sys_threads := (sys_threads st)(i := Answered u ob a d)\<rparr>
      | (None, pe') \<Rightarrow> st\<lparr>sys_pe := pe', sys_threads := (sys_threads st)(i := Asked u ob a)\<rparr>)"

definition access_decide ::
  "'s casbin_lib \<Rightarrow> nat \<Rightarrow> string \<Rightarrow> string \<Rightarrow> string \<Rightarrow> ('s, 'c) system \<Rightarrow> ('s, 'c) system" where
  "access_decide lib i u ob a st =
     (case ce_Enforce lib (pe_engine (sys_pe st)) u ob a of
        Inl _ \<Rightarrow> st\<lparr>sys_threads := (sys_threads st)(i := Idle)\<rparr>
      | Inr d \<Rightarrow> st\<lparr>sys_threads := (sys_threads st)(i := Decided u ob a d)\<rparr>)"

definition access_store ::
  "'c cache_ops \<Rightarrow> nat \<Rightarrow> string \<Rightarrow> string \<Rightarrow> string \<Rightarrow> bool \<Rightarrow> ('s, 'c) system \<Rightarrow> ('s, 'c) system" where
  "access_store ops i u ob a d st =
     st\<lparr>sys_pe := store_decision ops (sys_now st) u ob a d (sys_pe st),
        sys_threads := (sys_threads st)(i := Answered u ob a d)\<rparr>"

definition load_locked ::
  "'s casbin_lib \<Rightarrow> (string \<Rightarrow> gerror + roleBinding list) \<Rightarrow> nat \<Rightarrow> Project \<Rightarrow> ('s, 'c) system \<Rightarrow> ('s, 'c) system" where
  "load_locked lib um i P st =
     (case loadProjectPoliciesLocked lib um P (sys_pe st) of
        (err, pe') \<Rightarrow>
          st\<lparr>sys_pe := pe',
             sys_threads := (sys_threads st)(i := if err = None then Clearing else Idle),
             sys_past := insert (pe_engine pe') (sys_past st)\<rparr>)"

definition load_clear :: "'c cache_ops \<Rightarrow> nat \<Rightarrow> ('s, 'c) system \<Rightarrow> ('s, 'c) system" where
  "load_clear ops i st =
     st\<lparr>sys_pe := IncrementPolicyReloads (clear_cache_if_enabled ops (sys_pe st)),
        sys_threads := (sys_threads st)(i := Idle)\<rparr>"

definition may_load ::
  "'s casbin_lib \<Rightarrow> (string \<Rightarrow> gerror + roleBinding list) \<Rightarrow> Project \<Rightarrow> ('s, 'c) system \<Rightarrow> bool" where
  "may_load lib um P st \<longleftrightarrow>
     fst (loadProjectPoliciesLocked lib um P (sys_pe st)) = None \<and>
     (\<forall>j u ob a d. sys_threads st j \<noteq> Decided u ob a d)"

inductive race_step ::
  "'s casbin_lib \<Rightarrow> 'c cache_ops \<Rightarrow> (string \<Rightarrow> gerror + roleBinding list) \<Rightarrow> bool \<Rightarrow>
   ('s, 'c) system \<Rightarrow> ('s, 'c) system \<Rightarrow> bool"
  for lib :: "'s casbin_lib" and ops :: "'c cache_ops" and um and calm :: bool where
  lookup: "sys_threads st i = Idle \<Longrightarrow> u \<noteq> [] \<Longrightarrow> ob \<noteq> [] \<Longrightarrow> a \<noteq> [] \<Longrightarrow>
    race_step lib ops um calm st (access_lookup ops i u ob a st)"
| decide: "sys_threads st i = Asked u ob a \<Longrightarrow> race_step lib ops um calm st (access_decide lib i u ob a st)"
| store: "sys_threads st i = Decided u ob a d \<Longrightarrow> race_step lib ops um calm st (access_store ops i u ob a d st)"
| return: "sys_threads st i = Answered u ob a d \<Longrightarrow>
    race_step lib ops um calm st (st\<lparr>sys_threads := (sys_threads st)(i := Idle)\<rparr>)"
| load: "sys_threads st i = Idle \<Longrightarrow> pj_Name P \<noteq> [] \<Longrightarrow> calm \<longrightarrow> may_load lib um P st \<Longrightarrow>
    race_step lib ops um calm st (load_locked lib um i P st)"
| clear: "sys_threads st i = Clearing \<Longrightarrow> race_step lib ops um calm st (load_clear ops i st)"
| tick: "sys_now st \<le> t \<Longrightarrow> race_step lib ops um calm st (st\<lparr>sys_now := t\<rparr>)"

text \<open>Run without interruption, the steps are the operations of the enforcer.\<close>

lemma CanAccess_is_its_steps:
  assumes "u \<noteq> []" "ob \<noteq> []" "a \<noteq> []" "ce_Enforce lib (pe_engine (sys_pe st)) u ob a = Inr d"
    and "st1 = access_lookup ops i u ob a st"
    and "st' = (if sys_threads st1 i = Asked u ob a then access_store ops i u ob a d (access_decide lib i u ob a st1) else st1)"
  shows "\<exists>r. sys_threads st' i = Answered u ob a r \<and>
    CanAccess lib ops (sys_now st) u ob a (sys_pe st) = (Inr r, sys_pe st')"
proof -
  obtain r pe1 where C: "cached ops (sys_now st) u ob a (sys_pe st) = (r, pe1)" by fastforce
  then have e: "pe_engine pe1 = pe_engine (sys_pe st)"
    by (auto simp: cached_def split: option.splits if_splits prod.splits)
  show ?thesis
    using assms C e
    by (cases r) (auto simp: access_lookup_def access_decide_def access_store_def CanAccess_def)
qed

lemma LoadProjectPolicies_is_its_steps:
  assumes "pj_Name P \<noteq> []" "st1 = load_locked lib um i P st"
    and "st' = (if sys_threads st1 i = Clearing then load_clear ops i st1 else st1)"
  shows "snd (LoadProjectPolicies lib ops um (Some P) (sys_pe st)) = sys_pe st'"
  using assms
  by (auto simp: LoadProjectPolicies_def load_locked_def load_clear_def split: prod.splits option.splits)

subsection \<open>What each step keeps\<close>

lemma loadLocked_keeps:
  assumes "loadProjectPoliciesLocked lib um P pe = (e, pe')"
  shows "pe_cache pe' = pe_cache pe" "pe_cacheEnabled pe' = pe_cacheEnabled pe" "pe_cacheTTL pe' = pe_cacheTTL pe"
  using assms by (auto simp: loadProjectPoliciesLocked_def split: prod.splits option.splits)

lemma threads_other:
  assumes "i \<noteq> j"
  shows "sys_threads (access_lookup ops j u ob a st) i = sys_threads st i"
    "sys_threads (access_decide lib j u ob a st) i = sys_threads st i"
    "sys_threads (access_store ops j u ob a d st) i = sys_threads st i"
    "sys_threads (load_locked lib um j P st) i = sys_threads st i"
    "sys_threads (load_clear ops j st) i = sys_threads st i"
  using assms
  by (auto simp: access_lookup_def access_decide_def access_store_def load_locked_def load_clear_def
      split: prod.splits option.splits sum.splits)

context policy_enforcer
begin

text \<open>
  The invariant of a calm system: unless a clear is outstanding the cache is coherent, and a decision
  that is about to be stored is the one the engine still takes.
\<close>

definition calm_inv :: "('s, 'c) system \<Rightarrow> bool" where
  "calm_inv st \<longleftrightarrow>
     (\<forall>c. pe_cache (sys_pe st) = Some c \<longrightarrow> cinv c) \<and>
     ((\<forall>i. sys_threads st i \<noteq> Clearing) \<longrightarrow> pe_coherent lib cinv look (sys_now st) (sys_pe st)) \<and>
     (\<forall>i u ob a d. sys_threads st i = Decided u ob a d \<longrightarrow> d = decides (pe_engine (sys_pe st)) u ob a)"

lemma cached_keeps:
  assumes inv: "\<forall>c. pe_cache pe = Some c \<longrightarrow> cinv c" and C: "cached ops now u ob a pe = (r, pe')"
  shows "only_cache pe pe' \<and> (\<forall>c. pe_cache pe' = Some c \<longrightarrow> cinv c)"
proof (cases "pe_cache pe")
  case None
  then show ?thesis using C by (auto simp: cached_def only_cache_refl)
next
  case (Some c)
  obtain b f c' where g: "co_Get ops c now u ob a = ((b, f), c')" by (metis prod.collapse)
  show ?thesis
  proof (cases "pe_cacheEnabled pe")
    case False
    then show ?thesis using C Some inv by (auto simp: cached_def only_cache_refl)
  next
    case True
    then have "pe' = pe\<lparr>pe_cache := Some c'\<rparr>" using C Some g by (simp add: cached_def)
    moreover have "cinv c'" using get_inv [of c now u ob a] inv Some g by simp
    ultimately show ?thesis by (simp add: only_cache_upd)
  qed
qed

lemma store_keeps:
  assumes inv: "\<forall>c. pe_cache pe = Some c \<longrightarrow> cinv c"
  shows "only_cache pe (store_decision ops now u ob a d pe) \<and>
    (\<forall>c. pe_cache (store_decision ops now u ob a d pe) = Some c \<longrightarrow> cinv c)"
proof (cases "pe_cache pe")
  case None
  then show ?thesis by (simp add: store_decision_def only_cache_refl)
next
  case (Some c)
  then show ?thesis using inv set_inv [of c]
    by (simp add: store_decision_def only_cache_refl only_cache_upd)
qed

text \<open>A step of a goroutine that is not clearing and changes at most the cache.\<close>

lemma calm_inv_upd:
  assumes "calm_inv st" "only_cache (sys_pe st) pe' \<and> (\<forall>c. pe_cache pe' = Some c \<longrightarrow> cinv c)"
    and "sys_threads st i \<noteq> Clearing"
    and "pe_coherent lib cinv look (sys_now st) (sys_pe st) \<Longrightarrow> pe_coherent lib cinv look (sys_now st) pe'"
    and "\<And>u ob a d. x = Decided u ob a d \<Longrightarrow> d = decides (pe_engine (sys_pe st)) u ob a"
  shows "calm_inv (st\<lparr>sys_pe := pe', sys_threads := (sys_threads st)(i := x)\<rparr>)"
proof -
  have e: "pe_engine pe' = pe_engine (sys_pe st)" using assms(2) by simp
  have "pe_coherent lib cinv look (sys_now st) pe'" if "\<forall>j. ((sys_threads st)(i := x)) j \<noteq> Clearing"
  proof (rule assms(4))
    have "sys_threads st j \<noteq> Clearing" for j using that [rule_format, of j] assms(3) by (cases "j = i") auto
    then show "pe_coherent lib cinv look (sys_now st) (sys_pe st)" using assms(1) by (simp add: calm_inv_def)
  qed
  moreover have "d = decides (pe_engine pe') u ob a" if "((sys_threads st)(i := x)) j = Decided u ob a d" for j u ob a d
    using that assms(1,5) by (cases "j = i") (auto simp: calm_inv_def e)
  ultimately show ?thesis using assms(2) by (simp add: calm_inv_def)
qed

lemma calm_inv_thread:
  assumes "calm_inv st" "sys_threads st i \<noteq> Clearing"
    and "\<And>u ob a d. x = Decided u ob a d \<Longrightarrow> d = decides (pe_engine (sys_pe st)) u ob a"
  shows "calm_inv (st\<lparr>sys_threads := (sys_threads st)(i := x)\<rparr>)"
  using calm_inv_upd [OF assms(1) _ assms(2), of "sys_pe st" x] assms(1,3)
  by (simp add: only_cache_refl calm_inv_def)

lemma calm_step:
  assumes "race_step lib ops um True st st'" "calm_inv st"
  shows "calm_inv st'"
  using assms
proof (induction rule: race_step.induct)
  case (lookup st i u ob a)
  obtain r pe' where C: "cached ops (sys_now st) u ob a (sys_pe st) = (r, pe')" by fastforce
  have inv: "\<forall>c. pe_cache (sys_pe st) = Some c \<longrightarrow> cinv c" using lookup.prems by (simp add: calm_inv_def)
  have coh: "pe_coherent lib cinv look (sys_now st) pe'" if "pe_coherent lib cinv look (sys_now st) (sys_pe st)"
    using cached_step [OF that C] by blast
  have "calm_inv (st\<lparr>sys_pe := pe', sys_threads := (sys_threads st)(i := x)\<rparr>)" if "\<forall>u ob a d. x \<noteq> Decided u ob a d" for x
    by (rule calm_inv_upd [OF lookup.prems cached_keeps [OF inv C] _ coh]) (use lookup.hyps(1) that in auto)
  then show ?case by (cases r) (simp_all add: access_lookup_def C)
next
  case (decide st i u ob a)
  show ?case unfolding access_decide_def Enforce_decides sum.case
    by (rule calm_inv_thread [OF decide.prems]) (use decide.hyps in auto)
next
  case (store st i u ob a d)
  have inv: "\<forall>c. pe_cache (sys_pe st) = Some c \<longrightarrow> cinv c" and d: "d = decides (pe_engine (sys_pe st)) u ob a"
    using store by (auto simp: calm_inv_def)
  have coh: "pe_coherent lib cinv look (sys_now st) (store_decision ops (sys_now st) u ob a d (sys_pe st))"
    if "pe_coherent lib cinv look (sys_now st) (sys_pe st)"
    using store_step [OF that d] by blast
  show ?case unfolding access_store_def
    by (rule calm_inv_upd [OF store.prems store_keeps [OF inv]]) (use store.hyps coh in simp_all)
next
  case (return st i u ob a d)
  show ?case by (rule calm_inv_thread [OF return.prems]) (use return.hyps in auto)
next
  case (load st i P)
  obtain err pe' where L: "loadProjectPoliciesLocked lib um P (sys_pe st) = (err, pe')" by fastforce
  have ok: "err = None" "\<forall>j u ob a d. sys_threads st j \<noteq> Decided u ob a d"
    using load L by (simp_all add: may_load_def)
  have "((sys_threads st)(i := Clearing)) j \<noteq> Decided u ob a d" for j u ob a d
    using ok(2) by simp
  moreover have "\<forall>c. pe_cache pe' = Some c \<longrightarrow> cinv c"
    using load.prems loadLocked_keeps(1) [OF L] by (simp add: calm_inv_def)
  moreover have "\<exists>j. ((sys_threads st)(i := Clearing)) j = Clearing" by (rule exI [of _ i]) simp
  ultimately show ?case unfolding calm_inv_def load_locked_def L ok(1) by (simp add: ok(2)) blast
next
  case (clear st i)
  have inv: "\<forall>c. pe_cache (sys_pe st) = Some c \<longrightarrow> cinv c" using clear by (simp add: calm_inv_def)
  let ?pe = "clear_cache_if_enabled ops (sys_pe st)"
  have coh: "pe_coherent lib cinv look (sys_now st) ?pe" by (rule coherent_after_clear [OF inv])
  have pe: "pe_engine ?pe = pe_engine (sys_pe st)" by (simp add: clear_cache_if_enabled_def)
  have "\<forall>c. pe_cache ?pe = Some c \<longrightarrow> cinv c" using coherent_inv [OF coh] by blast
  moreover have "d = decides (pe_engine (sys_pe st)) u ob a"
    if "((sys_threads st)(i := Idle)) j = Decided u ob a d" for j u ob a d
    using that clear.prems by (cases "j = i") (auto simp: calm_inv_def)
  ultimately show ?case
    using coh by (simp add: calm_inv_def load_clear_def pe) (simp add: IncrementPolicyReloads_def pe)
next
  case (tick st t)
  have "pe_coherent lib cinv look t (sys_pe st)" if "pe_coherent lib cinv look (sys_now st) (sys_pe st)"
    using that coherent_later [OF _ tick.hyps] by (cases "pe_cache (sys_pe st)") (simp_all add: pe_coherent_coherent)
  then show ?case using tick.prems by (simp add: calm_inv_def)
qed

lemma calm_reachable: "(race_step lib ops um True)\<^sup>*\<^sup>* st st' \<Longrightarrow> calm_inv st \<Longrightarrow> calm_inv st'"
  by (induction rule: rtranclp_induct) (auto intro: calm_step)

text \<open>
  Without the restriction: every decision in the cache or on its way is one that some engine of the
  past took, and an entry ends at most one TTL from now.
\<close>

definition past_decision :: "('s, 'c) system \<Rightarrow> string \<times> string \<times> string \<Rightarrow> bool \<Rightarrow> bool" where
  "past_decision st k b \<longleftrightarrow> (case k of (u, ob, a) \<Rightarrow> \<exists>s \<in> sys_past st. b = decides s u ob a)"

definition cache_past :: "('s, 'c) system \<Rightarrow> bool" where
  "cache_past st \<longleftrightarrow>
     (\<forall>c. pe_cache (sys_pe st) = Some c \<longrightarrow> cinv c \<and>
        (\<forall>t k b. sys_now st \<le> t \<longrightarrow> clean k \<longrightarrow> look c t k = Some b \<longrightarrow>
           t \<le> sys_now st + pe_cacheTTL (sys_pe st) \<and> past_decision st k b))"

definition phase_past :: "('s, 'c) system \<Rightarrow> phase \<Rightarrow> bool" where
  "phase_past st x \<longleftrightarrow>
     (\<forall>u ob a d. x = Decided u ob a d \<or> x = Answered u ob a d \<longrightarrow> clean (u, ob, a) \<longrightarrow> past_decision st (u, ob, a) d)"

definition past_inv :: "('s, 'c) system \<Rightarrow> bool" where
  "past_inv st \<longleftrightarrow>
     pe_engine (sys_pe st) \<in> sys_past st \<and> cache_past st \<and> (\<forall>i. phase_past st (sys_threads st i))"

lemma past_inv_upd:
  assumes "past_inv st" "only_cache (sys_pe st) pe'" "cache_past (st\<lparr>sys_pe := pe'\<rparr>)" "phase_past st x"
  shows "past_inv (st\<lparr>sys_pe := pe', sys_threads := (sys_threads st)(i := x)\<rparr>)"
  using assms by (simp add: past_inv_def cache_past_def phase_past_def past_decision_def)

lemma past_inv_thread:
  assumes "past_inv st" "phase_past st x"
  shows "past_inv (st\<lparr>sys_threads := (sys_threads st)(i := x)\<rparr>)"
  using assms by (simp add: past_inv_def cache_past_def phase_past_def past_decision_def)

lemma past_step_lookup:
  assumes "past_inv st"
  shows "past_inv (access_lookup ops i u ob a st)"
proof -
  obtain r pe' where C: "cached ops (sys_now st) u ob a (sys_pe st) = (r, pe')" by fastforce
  have past: "cache_past st" using assms by (simp add: past_inv_def)
  have "only_cache (sys_pe st) pe' \<and> cache_past (st\<lparr>sys_pe := pe'\<rparr>) \<and>
      (\<forall>b. r = Some b \<longrightarrow> clean (u, ob, a) \<longrightarrow> past_decision st (u, ob, a) b)"
  proof (cases "pe_cache (sys_pe st)")
    case None
    then show ?thesis using C past by (auto simp: cached_def only_cache_refl)
  next
    case (Some c)
    obtain b f c' where g: "co_Get ops c (sys_now st) u ob a = ((b, f), c')" by (metis prod.collapse)
    show ?thesis
    proof (cases "pe_cacheEnabled (sys_pe st)")
      case False
      then show ?thesis using C Some past by (auto simp: cached_def only_cache_refl)
    next
      case True
      then have r: "pe' = (sys_pe st)\<lparr>pe_cache := Some c'\<rparr>" "r = (if f then Some b else None)"
        using C Some g by (simp_all add: cached_def)
      have c: "cinv c" using past Some by (simp add: cache_past_def)
      have "cinv c'" "\<forall>t k. sys_now st \<le> t \<longrightarrow> look c' t k = look c t k"
        using get_inv [OF c, of "sys_now st" u ob a] get_look [OF c, of "sys_now st" _ u ob a] g by simp_all
      moreover have "f \<longrightarrow> look c (sys_now st) (u, ob, a) = Some b"
        using get_result [OF c, of "sys_now st" u ob a] g by (auto split: option.splits)
      ultimately show ?thesis using past Some r by (auto simp: cache_past_def past_decision_def only_cache_upd)
    qed
  qed
  then have "past_inv (st\<lparr>sys_pe := pe', sys_threads := (sys_threads st)(i := x)\<rparr>)"
    if "\<forall>b. r = Some b \<longrightarrow> x = Answered u ob a b" "r = None \<longrightarrow> x = Asked u ob a" for x
    using that by (cases r) (auto intro!: past_inv_upd [OF assms] simp: phase_past_def)
  then show ?thesis by (cases r) (simp_all add: access_lookup_def C)
qed

lemma past_step_store:
  assumes "past_inv st" "sys_threads st i = Decided u ob a d"
  shows "past_inv (access_store ops i u ob a d st)"
  unfolding access_store_def
proof (rule past_inv_upd [OF assms(1)])
  let ?pe = "store_decision ops (sys_now st) u ob a d (sys_pe st)"
  have past: "cache_past st" and d: "clean (u, ob, a) \<longrightarrow> past_decision st (u, ob, a) d"
    using assms by (auto simp: past_inv_def phase_past_def)
  have inv: "\<forall>c. pe_cache (sys_pe st) = Some c \<longrightarrow> cinv c" using past by (simp add: cache_past_def)
  show "only_cache (sys_pe st) ?pe" using store_keeps [OF inv] by blast
  show "cache_past (st\<lparr>sys_pe := ?pe\<rparr>)"
  proof (cases "pe_cache (sys_pe st)")
    case None
    then show ?thesis by (simp add: cache_past_def store_decision_def)
  next
    case (Some c)
    show ?thesis
    proof (cases "pe_cacheEnabled (sys_pe st) \<and> 0 < pe_cacheTTL (sys_pe st)")
      case False
      then have "?pe = sys_pe st" using Some by (auto simp: store_decision_def)
      then show ?thesis using past by simp
    next
      case True
      let ?c = "co_Set ops c (sys_now st) u ob a d (pe_cacheTTL (sys_pe st))"
      have c: "cinv c" using inv Some by simp
      have "t \<le> sys_now st + pe_cacheTTL (sys_pe st) \<and> past_decision st k b"
        if "sys_now st \<le> t" "clean k" "look ?c t k = Some b" for t k b
      proof (cases "k = (u, ob, a)")
        case k: True
        then show ?thesis
          using that d True set_look [OF c that(2), of "sys_now st" u ob a d "pe_cacheTTL (sys_pe st)" t]
          by (auto split: if_splits)
      next
        case False
        then have "look c t k = Some b"
          using that set_look [OF c that(2), of "sys_now st" u ob a d "pe_cacheTTL (sys_pe st)" t] by auto
        with past Some that(1,2) show ?thesis unfolding cache_past_def by blast
      qed
      then show ?thesis using True Some set_inv [OF c]
        by (simp add: cache_past_def store_decision_def past_decision_def)
    qed
  qed
  show "phase_past st (Answered u ob a d)" using d by (simp add: phase_past_def)
qed

lemma past_step:
  assumes "race_step lib ops um calm st st'" "past_inv st"
  shows "past_inv st'"
  using assms
proof (induction rule: race_step.induct)
  case (lookup st i u ob a)
  show ?case by (rule past_step_lookup [OF lookup.prems])
next
  case (decide st i u ob a)
  have "past_decision st (u, ob, a) (decides (pe_engine (sys_pe st)) u ob a)"
    using decide.prems by (auto simp: past_inv_def past_decision_def)
  then show ?case
    by (simp add: access_decide_def Enforce_decides past_inv_thread [OF decide.prems] phase_past_def)
next
  case (store st i u ob a d)
  show ?case by (rule past_step_store [OF store.prems store.hyps])
next
  case (return st i u ob a d)
  show ?case by (rule past_inv_thread [OF return.prems]) (simp add: phase_past_def)
next
  case (load st i P)
  obtain err pe' where L: "loadProjectPoliciesLocked lib um P (sys_pe st) = (err, pe')" by fastforce
  have "phase_past st (((sys_threads st)(i := x)) j)" if "x \<in> {Idle, Clearing}" for x j
    using load.prems that by (auto simp: past_inv_def phase_past_def)
  then show ?case
    using load.prems loadLocked_keeps [OF L]
    by (fastforce simp: past_inv_def load_locked_def L cache_past_def phase_past_def past_decision_def)
next
  case (clear st i)
  have "phase_past st (((sys_threads st)(i := Idle)) j)" for j
    using clear.prems by (auto simp: past_inv_def phase_past_def)
  moreover have "cinv c' \<and> (\<forall>t k. look c' t k = None)" if "pe_cache (sys_pe st) = Some c" "c' = co_Clear ops c" for c c'
    using clear.prems that clear_inv clear_look by (simp add: past_inv_def cache_past_def)
  ultimately show ?case using clear.prems
    by (auto simp: past_inv_def load_clear_def clear_cache_if_enabled_def IncrementPolicyReloads_def
        cache_past_def phase_past_def past_decision_def)
next
  case (tick st t)
  have "t' \<le> t + pe_cacheTTL (sys_pe st) \<and> past_decision st k b"
    if "pe_cache (sys_pe st) = Some c" "clean k" "look c t' k = Some b" "t \<le> t'" for c t' k b
  proof -
    have "sys_now st \<le> t'" using tick.hyps that(4) by simp
    then have "t' \<le> sys_now st + pe_cacheTTL (sys_pe st) \<and> past_decision st k b"
      using tick.prems that(1-3) unfolding past_inv_def cache_past_def by blast
    then show ?thesis using tick.hyps by simp
  qed
  then show ?case using tick.prems
    by (simp add: past_inv_def cache_past_def phase_past_def past_decision_def)
qed

lemma past_reachable: "(race_step lib ops um calm)\<^sup>*\<^sup>* st st' \<Longrightarrow> past_inv st \<Longrightarrow> past_inv st'"
  by (induction rule: rtranclp_induct) (auto intro: past_step)

end

subsection \<open>Properties\<close>

text \<open>
  The example: the role \<open>proj:alpha:dev\<close> may read the instances of the project; then the project is
  loaded again with a role that may only list them.
\<close>

definition demo_sys :: "(mem_store, inMemoryCache) system" where
  "demo_sys = \<lparr>sys_pe = demo_access, sys_now = 0, sys_threads = (\<lambda>_. Idle), sys_past = {pe_engine demo_access}\<rparr>"

definition demo_revoked :: Project where
  "demo_revoked = demo_project ''alpha'' [demo_role ''dev'' [''instances/*, list, allow''] [''devs'']]"

definition demo_ask0 :: "(mem_store, inMemoryCache) system" where
  "demo_ask0 = access_lookup memory_cache_ops 0 ''proj:alpha:dev'' ''instances/alpha/x'' ''get'' demo_sys"

definition demo_ask1 :: "(mem_store, inMemoryCache) system" where
  "demo_ask1 = access_decide mem_lib 0 ''proj:alpha:dev'' ''instances/alpha/x'' ''get'' demo_ask0"

definition demo_ask2 :: "(mem_store, inMemoryCache) system" where
  "demo_ask2 = access_store memory_cache_ops 0 ''proj:alpha:dev'' ''instances/alpha/x'' ''get'' True demo_ask1"

definition demo_late1 :: "(mem_store, inMemoryCache) system" where
  "demo_late1 = load_locked mem_lib no_bindings 1 demo_revoked demo_ask1"

definition demo_late2 :: "(mem_store, inMemoryCache) system" where
  "demo_late2 = load_clear memory_cache_ops 1 demo_late1"

definition demo_late3 :: "(mem_store, inMemoryCache) system" where
  "demo_late3 = access_store memory_cache_ops 0 ''proj:alpha:dev'' ''instances/alpha/x'' ''get'' True demo_late2"

definition demo_late4 :: "(mem_store, inMemoryCache) system" where
  "demo_late4 = demo_late3\<lparr>sys_threads := (sys_threads demo_late3)(0 := Idle)\<rparr>"


lemma demo_ask_path:
  "sys_threads demo_ask0 0 = Asked ''proj:alpha:dev'' ''instances/alpha/x'' ''get''"
  "sys_threads demo_ask1 0 = Decided ''proj:alpha:dev'' ''instances/alpha/x'' ''get'' True"
  by code_simp+

lemma demo_late_path:
  "sys_threads demo_ask1 1 = Idle" "sys_threads demo_late1 1 = Clearing"
  "sys_threads demo_late2 0 = Decided ''proj:alpha:dev'' ''instances/alpha/x'' ''get'' True"
  "sys_threads demo_late3 0 = Answered ''proj:alpha:dev'' ''instances/alpha/x'' ''get'' True"
  "pj_Name demo_revoked \<noteq> []"
  by code_simp+

definition demo_calm1 :: "(mem_store, inMemoryCache) system" where
  "demo_calm1 = load_locked mem_lib no_bindings 1 demo_revoked demo_sys"

definition demo_calm2 :: "(mem_store, inMemoryCache) system" where
  "demo_calm2 = load_clear memory_cache_ops 1 demo_calm1"


lemma demo_idle: "sys_threads demo_sys i = Idle"
  by (simp add: demo_sys_def)

lemma demo_calm_path:
  "fst (loadProjectPoliciesLocked mem_lib no_bindings demo_revoked (sys_pe demo_sys)) = None"
  "sys_threads demo_calm1 1 = Clearing"
  by code_simp+

lemma demo_calm_run: "(race_step mem_lib memory_cache_ops no_bindings True)\<^sup>*\<^sup>* demo_sys demo_calm2"
proof -
  have "may_load mem_lib no_bindings demo_revoked demo_sys"
    using demo_calm_path(1) by (simp add: may_load_def demo_idle)
  then have "race_step mem_lib memory_cache_ops no_bindings True demo_sys demo_calm1"
    unfolding demo_calm1_def by (intro race_step.load [OF demo_idle demo_late_path(5)]) simp
  moreover have "race_step mem_lib memory_cache_ops no_bindings True demo_calm1 demo_calm2"
    unfolding demo_calm2_def by (rule race_step.clear [OF demo_calm_path(2)])
  ultimately show ?thesis by simp
qed

lemma demo_late_run: "(race_step mem_lib memory_cache_ops no_bindings False)\<^sup>*\<^sup>* demo_sys demo_late4"
proof -
  let ?R = "race_step mem_lib memory_cache_ops no_bindings False"
  have "?R demo_sys demo_ask0" unfolding demo_ask0_def by (rule race_step.lookup) (simp_all add: demo_idle)
  moreover have "?R demo_ask0 demo_ask1" unfolding demo_ask1_def by (rule race_step.decide [OF demo_ask_path(1)])
  moreover have "?R demo_ask1 demo_late1" unfolding demo_late1_def
    by (rule race_step.load [OF demo_late_path(1,5)]) simp
  moreover have "?R demo_late1 demo_late2" unfolding demo_late2_def by (rule race_step.clear [OF demo_late_path(2)])
  moreover have "?R demo_late2 demo_late3" unfolding demo_late3_def by (rule race_step.store [OF demo_late_path(3)])
  moreover have "?R demo_late3 demo_late4" unfolding demo_late4_def by (rule race_step.return [OF demo_late_path(4)])
  ultimately show ?thesis by (meson converse_rtranclp_into_rtranclp rtranclp.rtrancl_refl)
qed

lemma demo_late4_idle: "sys_threads demo_late4 i = Idle"
proof (cases "i = 1")
  case True
  have "sys_threads demo_late4 1 = Idle" by code_simp
  then show ?thesis using True by simp
next
  case False
  then show ?thesis
    by (cases "i = 0")
       (simp_all add: demo_late4_def demo_late3_def demo_late2_def demo_late1_def demo_ask1_def demo_ask0_def
         threads_other demo_idle)
qed

text \<open>
  C23: a calm system answers correctly. Requests and successful policy loads interleave freely, except
  that no load begins while some request is between its question to the engine and the store of the
  answer. If the cache was coherent at first, then in every state in which no load still has to clear
  the cache, \<open>CanAccess\<close> answers as the engine does.
\<close>

theorem calm_system_answers_correctly:
  assumes "policy_enforcer lib pol grp grp2 hl hl2 km ops cinv look"
    and "pe_coherent lib cinv look (sys_now st) (sys_pe st)" "\<forall>i. sys_threads st i = Idle"
    and "(race_step lib ops um True)\<^sup>*\<^sup>* st st'" "\<forall>i. sys_threads st' i \<noteq> Clearing"
    and "u \<noteq> []" "ob \<noteq> []" "a \<noteq> []" "clean (u, ob, a)"
  shows "fst (CanAccess lib ops (sys_now st') u ob a (sys_pe st')) = ce_Enforce lib (pe_engine (sys_pe st')) u ob a"
proof -
  note E = assms(1)
  have "policy_enforcer.calm_inv lib cinv look st"
    using assms(2,3) policy_enforcer.coherent_inv [OF E assms(2)]
    by (simp add: policy_enforcer.calm_inv_def [OF E])
  then have "policy_enforcer.calm_inv lib cinv look st'"
    by (rule policy_enforcer.calm_reachable [OF E assms(4)])
  then have "pe_coherent lib cinv look (sys_now st') (sys_pe st')"
    using assms(5) by (simp add: policy_enforcer.calm_inv_def [OF E])
  from policy_enforcer.CanAccess_step [OF E this assms(6-9)] show ?thesis
    by (auto simp: policy_enforcer.Enforce_decides [OF E])
qed

theorem calm_system_answers_correctly_witness:
  "fst (CanAccess mem_lib memory_cache_ops (sys_now demo_calm2) ''proj:alpha:dev'' ''instances/alpha/x'' ''get''
     (sys_pe demo_calm2)) = Inr False"
proof -
  have coh: "pe_coherent mem_lib cache_inv cache_look (sys_now demo_sys) (sys_pe demo_sys)"
    by (simp add: demo_sys_def demo_access_coherent)
  have idle: "\<forall>i. sys_threads demo_calm2 i \<noteq> Clearing"
    by (simp add: demo_calm2_def demo_calm1_def load_clear_def load_locked_def demo_idle split: prod.split)
  have "ce_Enforce mem_lib (pe_engine (sys_pe demo_calm2)) ''proj:alpha:dev'' ''instances/alpha/x'' ''get'' = Inr False"
    by code_simp
  then show ?thesis
    using calm_system_answers_correctly [OF mpe.policy_enforcer_axioms coh _ demo_calm_run idle,
        of "''proj:alpha:dev''" "''instances/alpha/x''" "''get''"] demo_idle
    by (simp add: clean_def)
qed


text \<open>
  What holds of every interleaving. If the cache was empty at first, then whatever requests,
  loads (failed ones included) and clears overlap, every answer that is given is one that an engine
  which was current at some time gave, and so is every decision that the cache can still hand out;
  such a decision ends at most one TTL from now. A stale answer is therefore never an invention, and
  it does not outlive the TTL of the last store.
\<close>

theorem answers_come_from_engines_of_the_past:
  assumes "policy_enforcer lib pol grp grp2 hl hl2 km ops cinv look"
    and "\<forall>c. pe_cache (sys_pe st) = Some c \<longrightarrow> cinv c \<and> (\<forall>t k. look c t k = None)"
    and "\<forall>i. sys_threads st i = Idle" "sys_past st = {pe_engine (sys_pe st)}"
    and "(race_step lib ops um calm)\<^sup>*\<^sup>* st st'"
  shows "(\<forall>i u ob a d. sys_threads st' i = Answered u ob a d \<longrightarrow> clean (u, ob, a) \<longrightarrow>
            (\<exists>s \<in> sys_past st'. d = (lib_Enforce lib s u ob a = Inr True))) \<and>
         (\<forall>c t u ob a b. pe_cache (sys_pe st') = Some c \<longrightarrow> sys_now st' \<le> t \<longrightarrow> clean (u, ob, a) \<longrightarrow>
            look c t (u, ob, a) = Some b \<longrightarrow>
            t \<le> sys_now st' + pe_cacheTTL (sys_pe st') \<and>
            (\<exists>s \<in> sys_past st'. b = (lib_Enforce lib s u ob a = Inr True)))"
proof -
  note E = assms(1)
  note defs = policy_enforcer.past_inv_def [OF E] policy_enforcer.cache_past_def [OF E]
    policy_enforcer.phase_past_def [OF E] policy_enforcer.past_decision_def [OF E]
  have "policy_enforcer.past_inv lib cinv look st" using assms(2-4) by (simp add: defs)
  from policy_enforcer.past_reachable [OF E assms(5) this] show ?thesis
    unfolding defs by fastforce
qed

theorem answers_come_from_engines_of_the_past_witness:
  "\<exists>s \<in> sys_past demo_late4. lib_Enforce mem_lib s ''proj:alpha:dev'' ''instances/alpha/x'' ''get'' = Inr True"
proof -
  have start: "\<forall>c. pe_cache (sys_pe demo_sys) = Some c \<longrightarrow> cache_inv c \<and> (\<forall>t k. cache_look c t k = None)"
    by (simp add: demo_sys_def demo_access_def NewAuthorizationCache_def NewAuthorizationCacheWithTTL_def
        cache_inv_def cache_look_def)
  have past: "sys_past demo_sys = {pe_engine (sys_pe demo_sys)}" by (simp add: demo_sys_def)
  have hit: "map_option (\<lambda>c. cache_look c 1 (''proj:alpha:dev'', ''instances/alpha/x'', ''get'')) (pe_cache (sys_pe demo_late4))
      = Some (Some True)" and now: "sys_now demo_late4 = 0" by code_simp+
  then obtain c where "pe_cache (sys_pe demo_late4) = Some c"
    "cache_look c 1 (''proj:alpha:dev'', ''instances/alpha/x'', ''get'') = Some True" by blast
  then show ?thesis
    using answers_come_from_engines_of_the_past [OF mpe.policy_enforcer_axioms start _ past demo_late_run,
        THEN conjunct2, rule_format, of c 1 "''proj:alpha:dev''" "''instances/alpha/x''" "''get''" True] now demo_idle
    by (simp add: clean_def)
qed

end
