(* ===== verification/Authorization_Service.thy ===== *)
theory Authorization_Service
  imports Policy_Enforce
begin

text \<open>
  \<open>services/authorization_service.go\<close> and the user contexts of \<open>services/types.go\<close> and
  \<open>middleware/auth.go\<close>: the projects and namespaces a request may see, computed once per request from
  the policy enforcer and the namespace provider, closed to nothing on every error. The locale
  \<open>authorizer\<close> states what the service layer relies on when it asks the enforcer; it is interpreted on
  \<open>CanAccessWithGroups\<close> of the policy enforcer with its cache.
\<close>

subsection \<open>Contexts\<close>

record UserContext =
  uc_UserID :: string
  uc_Email :: string
  uc_DisplayName :: string
  uc_Projects :: "string list"
  uc_DefaultProject :: string
  uc_Groups :: "string list"
  uc_CasbinRoles :: "string list"
  uc_Roles :: "(string \<times> string) list"
  uc_Issuer :: string
  uc_TokenExpiresAt :: int
  uc_TokenIssuedAt :: int
  uc_JTI :: string

record UserAuthContext =
  ua_UserID :: string
  ua_Groups :: "string list"
  ua_Roles :: "string list"
  ua_AccessibleProjects :: "string list"
  ua_AccessibleNamespaces :: "string list"

definition NewUserAuthContextFromMiddleware :: "UserContext option \<Rightarrow> UserAuthContext option" where
  "NewUserAuthContextFromMiddleware userCtx =
     map_option (\<lambda>uc. \<lparr>ua_UserID = uc_UserID uc, ua_Groups = uc_Groups uc, ua_Roles = uc_CasbinRoles uc,
                       ua_AccessibleProjects = [], ua_AccessibleNamespaces = []\<rparr>) userCtx"

text \<open>The interfaces \<open>PolicyEnforcer\<close> and \<open>NamespaceProvider\<close>; \<open>'p\<close> is the state behind them.\<close>

record 'p enforcer_ops =
  en_CanAccessWithGroups :: "string \<Rightarrow> string list \<Rightarrow> string \<Rightarrow> string \<Rightarrow> 'p \<Rightarrow> (gerror + bool) \<times> 'p"
  en_GetAccessibleProjects :: "string \<Rightarrow> string list \<Rightarrow> 'p \<Rightarrow> (gerror + string list) \<times> 'p"

type_synonym 'p namespace_provider = "string \<Rightarrow> string list \<Rightarrow> 'p \<Rightarrow> (gerror + string list) \<times> 'p"

record 'p AuthorizationService =
  as_policyEnforcer :: "'p enforcer_ops option"
  as_namespaceProvider :: "'p namespace_provider option"

subsection \<open>Operations\<close>

text \<open>The question whether the user may do anything to everything.\<close>

definition wildcard_admin :: "'p enforcer_ops option \<Rightarrow> UserContext \<Rightarrow> 'p \<Rightarrow> bool \<times> 'p" where
  "wildcard_admin enforcer uc p =
     (case enforcer of
        None \<Rightarrow> (False, p)
      | Some en \<Rightarrow>
          (case en_CanAccessWithGroups en (uc_UserID uc) (uc_Groups uc) ''*'' ''*'' p of
             (r, p') \<Rightarrow> (r = Inr True, p')))"

definition GetUserAuthContext ::
  "'p AuthorizationService \<Rightarrow> UserContext option \<Rightarrow> 'p \<Rightarrow> UserAuthContext option \<times> 'p" where
  "GetUserAuthContext svc userCtx p =
     (case userCtx of
        None \<Rightarrow> (None, p)
      | Some uc \<Rightarrow>
          (let (projects, p1) =
                 (case as_policyEnforcer svc of
                    Some en \<Rightarrow>
                      (case en_GetAccessibleProjects en (uc_UserID uc) (uc_Groups uc) p of
                         (Inl _, p1) \<Rightarrow> ([], p1)
                       | (Inr projects, p1) \<Rightarrow> (projects, p1))
                  | None \<Rightarrow> (uc_Projects uc, p));
               (namespaces, p2) =
                 (case as_namespaceProvider svc of
                    Some provider \<Rightarrow>
                      (case provider (uc_UserID uc) (uc_Groups uc) p1 of
                         (Inl _, p2) \<Rightarrow> ([], p2)
                       | (Inr namespaces, p2) \<Rightarrow> (namespaces, p2))
                  | None \<Rightarrow>
                      (case wildcard_admin (as_policyEnforcer svc) uc p1 of
                         (isAdmin, p2) \<Rightarrow> (if isAdmin then [''*''] else [], p2)))
           in (Some \<lparr>ua_UserID = uc_UserID uc, ua_Groups = uc_Groups uc, ua_Roles = uc_CasbinRoles uc,
                     ua_AccessibleProjects = projects, ua_AccessibleNamespaces = namespaces\<rparr>, p2)))"

text \<open>Go returns a value beside an error; the two results are a pair.\<close>

definition as_GetAccessibleProjects ::
  "'p AuthorizationService \<Rightarrow> UserContext option \<Rightarrow> 'p \<Rightarrow> (string list \<times> gerror option) \<times> 'p" where
  "as_GetAccessibleProjects svc userCtx p =
     (case userCtx of
        None \<Rightarrow> (([], None), p)
      | Some uc \<Rightarrow>
          (case as_policyEnforcer svc of
             None \<Rightarrow> ((uc_Projects uc, None), p)
           | Some en \<Rightarrow>
               (case en_GetAccessibleProjects en (uc_UserID uc) (uc_Groups uc) p of
                  (Inl e, p1) \<Rightarrow> (([], Some e), p1)
                | (Inr projects, p1) \<Rightarrow> ((projects, None), p1))))"

definition GetAccessibleNamespaces ::
  "'p AuthorizationService \<Rightarrow> UserContext option \<Rightarrow> 'p \<Rightarrow> (string list \<times> gerror option) \<times> 'p" where
  "GetAccessibleNamespaces svc userCtx p =
     (case userCtx of
        None \<Rightarrow> (([], None), p)
      | Some uc \<Rightarrow>
          (case as_namespaceProvider svc of
             None \<Rightarrow>
               (case wildcard_admin (as_policyEnforcer svc) uc p of
                  (isAdmin, p1) \<Rightarrow> ((if isAdmin then [''*''] else [], None), p1))
           | Some provider \<Rightarrow>
               (case provider (uc_UserID uc) (uc_Groups uc) p of
                  (Inl e, p1) \<Rightarrow> (([], Some e), p1)
                | (Inr namespaces, p1) \<Rightarrow> ((namespaces, None), p1))))"

definition as_CanAccess ::
  "'p AuthorizationService \<Rightarrow> UserAuthContext option \<Rightarrow> string \<Rightarrow> string \<Rightarrow> string \<Rightarrow> 'p \<Rightarrow>
   (bool \<times> gerror option) \<times> 'p" where
  "as_CanAccess svc authCtx resource action object p =
     (case authCtx of
        None \<Rightarrow> ((False, None), p)
      | Some a \<Rightarrow>
          (case as_policyEnforcer svc of
             None \<Rightarrow> ((True, None), p)
           | Some en \<Rightarrow>
               (case en_CanAccessWithGroups en (ua_UserID a) (ua_Groups a) object action p of
                  (Inl e, p1) \<Rightarrow> ((False, Some e), p1)
                | (Inr allowed, p1) \<Rightarrow> ((allowed, None), p1))))"

definition CanAccessProject ::
  "'p AuthorizationService \<Rightarrow> UserAuthContext option \<Rightarrow> string \<Rightarrow> string \<Rightarrow> 'p \<Rightarrow> (bool \<times> gerror option) \<times> 'p" where
  "CanAccessProject svc authCtx projectName action =
     as_CanAccess svc authCtx ''projects'' action (''projects/'' @ projectName)"

definition HasProjectAccess :: "UserAuthContext option \<Rightarrow> string \<Rightarrow> bool" where
  "HasProjectAccess authCtx projectName =
     (case authCtx of None \<Rightarrow> False | Some a \<Rightarrow> list_ex (\<lambda>p. p = projectName) (ua_AccessibleProjects a))"

text \<open>A loop that keeps the elements an effectful test accepts.\<close>

fun filter_st :: "('b \<Rightarrow> 's \<Rightarrow> bool \<times> 's) \<Rightarrow> 'b list \<Rightarrow> 's \<Rightarrow> 'b list \<times> 's" where
  "filter_st f [] s = ([], s)"
| "filter_st f (x # xs) s =
     (case f x s of (b, s1) \<Rightarrow> (case filter_st f xs s1 of (ys, s2) \<Rightarrow> (if b then x # ys else ys, s2)))"

subsection \<open>What the service layer asks of an enforcer\<close>

text \<open>
  \<open>good\<close> states answer the requests they are asked (\<open>asks\<close>) by a decision that the answer itself
  leaves as it was, and stay good.
\<close>

locale authorizer =
  fixes can :: "string \<Rightarrow> string list \<Rightarrow> string \<Rightarrow> string \<Rightarrow> 'p \<Rightarrow> (gerror + bool) \<times> 'p"
    and good :: "'p \<Rightarrow> bool"
    and decide :: "'p \<Rightarrow> string \<Rightarrow> string list \<Rightarrow> string \<Rightarrow> string \<Rightarrow> bool"
    and asks :: "'p \<Rightarrow> string \<Rightarrow> string list \<Rightarrow> string \<Rightarrow> string \<Rightarrow> bool"
  assumes can_decides:
    "good p \<Longrightarrow> asks p u gs ob a \<Longrightarrow>
     \<exists>p'. can u gs ob a p = (Inr (decide p u gs ob a), p') \<and> good p' \<and> decide p' = decide p \<and> asks p' = asks p"
begin

text \<open>A loop that keeps what is allowed, each element asked for in the state the previous one left.\<close>

lemma filter_asked:
  assumes "good p"
    and step: "\<And>x q. x \<in> set xs \<Longrightarrow> good q \<Longrightarrow> decide q = decide p \<Longrightarrow> asks q = asks p \<Longrightarrow>
      \<exists>q'. f x q = (P x, q') \<and> good q' \<and> decide q' = decide q \<and> asks q' = asks q"
  shows "\<exists>p'. filter_st f xs p = (filter P xs, p') \<and> good p' \<and> decide p' = decide p \<and> asks p' = asks p"
  using assms
proof (induction xs arbitrary: p)
  case Nil
  then show ?case by simp
next
  case (Cons x xs)
  obtain p1 where p1: "f x p = (P x, p1)" "good p1" "decide p1 = decide p" "asks p1 = asks p"
    using Cons.prems(2) [of x p] Cons.prems(1) by auto
  have "\<exists>p'. filter_st f xs p1 = (filter P xs, p') \<and> good p' \<and> decide p' = decide p1 \<and> asks p' = asks p1"
    by (rule Cons.IH [OF p1(2)]) (use Cons.prems(2) p1(3,4) in auto)
  then show ?case using p1 by auto
qed

end

definition granted_by ::
  "'s casbin_lib \<Rightarrow> project_reader option \<Rightarrow> ('s, 'c) policyEnforcer \<Rightarrow> string \<Rightarrow> string list \<Rightarrow> string \<Rightarrow> string \<Rightarrow> bool" where
  "granted_by lib reader pe u gs object action \<longleftrightarrow>
     (\<exists>sb \<in> set (access_subjects lib (pe_engine pe) u gs).
        \<exists>ob \<in> set (objectsToCheck lib reader gs object action (pe_engine pe)).
          lib_Enforce lib (pe_engine pe) sb ob action = Inr True)"

definition clean_request ::
  "'s casbin_lib \<Rightarrow> project_reader option \<Rightarrow> ('s, 'c) policyEnforcer \<Rightarrow> string \<Rightarrow> string list \<Rightarrow> string \<Rightarrow> string \<Rightarrow> bool" where
  "clean_request lib reader pe u gs object action \<longleftrightarrow>
     u \<noteq> [] \<and> object \<noteq> [] \<and> action \<noteq> [] \<and>
     (\<forall>sb \<in> set (access_subjects lib (pe_engine pe) u gs).
        \<forall>ob \<in> set (objectsToCheck lib reader gs object action (pe_engine pe)). clean (sb, ob, action))"

context policy_enforcer begin

lemma enforcer_is_authorizer:
  "authorizer (CanAccessWithGroups lib ops reader now) (pe_coherent lib cinv look now)
     (granted_by lib reader) (clean_request lib reader)"
proof
  fix p u gs ob a
  assume *: "pe_coherent lib cinv look now p" "clean_request lib reader p u gs ob a"
  from CanAccessWithGroups_step [OF *(1), of u ob a gs reader] *(2)
  obtain pe' where "CanAccessWithGroups lib ops reader now u gs ob a p = (Inr (granted_by lib reader p u gs ob a), pe')"
      "only_cache p pe'" "pe_coherent lib cinv look now pe'"
    unfolding clean_request_def granted_by_def by auto
  then show "\<exists>p'. CanAccessWithGroups lib ops reader now u gs ob a p = (Inr (granted_by lib reader p u gs ob a), p') \<and>
      pe_coherent lib cinv look now p' \<and> granted_by lib reader p' = granted_by lib reader p \<and>
      clean_request lib reader p' = clean_request lib reader p"
    by (auto simp: granted_by_def [abs_def] clean_request_def [abs_def])
qed

end

interpretation acc: authorizer "CanAccessWithGroups mem_lib memory_cache_ops reader now"
    "pe_coherent mem_lib cache_inv cache_look now" "granted_by mem_lib reader" "clean_request mem_lib reader"
  for reader now
  by (rule mpe.enforcer_is_authorizer)

end
