(* ===== verification/Rgd_Cache.thy ===== *)
theory Rgd_Cache
  imports Knodex_Prelude "HOL-Library.AList" "HOL-Library.List_Lexorder" "HOL-Library.Product_Lexorder"
    "HOL-Library.Char_ord" "HOL-Library.Word" "HOL-Library.Multiset"
begin

text \<open>
  \<open>kro/watcher/cache.go\<close>: the cache of ResourceGraphDefinitions behind the catalog, with its five
  inverted indexes, its filter, its sort and its pagination. The indexes are reached through the
  locale \<open>term_index\<close>, interpreted on the maps of the code. The lemmas show that in every reachable
  cache the indexes say exactly what the stored definitions say, that a listing by index is the
  listing of a full scan, in an order that does not depend on the iteration of a Go map, and who can
  see what; pages are computed in 64-bit arithmetic, and a slice out of range is a panic (\<open>None\<close>).
\<close>

subsection \<open>Data\<close>

record GVKRef =
  gvk_Group :: string
  gvk_Version :: string
  gvk_Kind :: string

text \<open>
  \<open>models.CatalogRGD\<close> without its secret references and its raw specification, which neither the
  cache nor the catalog service reads. Labels and annotations are association lists, empty for a nil
  map; instants are numbers.
\<close>

record CatalogRGD =
  rgd_Name :: string
  rgd_Title :: string
  rgd_Namespace :: string
  rgd_Description :: string
  rgd_Tags :: "string list"
  rgd_Category :: string
  rgd_Icon :: string
  rgd_DocsURL :: string
  rgd_Organization :: string
  rgd_Package :: string
  rgd_Labels :: "(string \<times> string) list"
  rgd_Annotations :: "(string \<times> string) list"
  rgd_InstanceCount :: int
  rgd_APIVersion :: string
  rgd_Kind :: string
  rgd_PluralName :: string
  rgd_IsClusterScoped :: bool
  rgd_Status :: string
  rgd_LastIssuedRevision :: int
  rgd_ExtendsKinds :: "string list"
  rgd_DependsOnKinds :: "string list"
  rgd_ProducesKinds :: "GVKRef list"
  rgd_AllowedDeploymentModes :: "string list"
  rgd_CreatedAt :: int
  rgd_UpdatedAt :: int
  rgd_ResourceVersion :: string

record CatalogRGDList =
  list_Items :: "CatalogRGD list"
  list_TotalCount :: nat
  list_Page :: "64 word"
  list_PageSize :: "64 word"

record ListOptions =
  opt_Namespace :: string
  opt_Namespaces :: "string list"
  opt_Projects :: "string list"
  opt_Organization :: string
  opt_IncludePublic :: bool
  opt_ExtendsKind :: string
  opt_Tags :: "string list"
  opt_Category :: string
  opt_Search :: string
  opt_Status :: string
  opt_DependsOnKind :: string
  opt_ProducesKind :: string
  opt_ProducesGroup :: string
  opt_Page :: "64 word"
  opt_PageSize :: "64 word"
  opt_SortBy :: string
  opt_SortOrder :: string

definition DefaultListOptions :: ListOptions where
  "DefaultListOptions =
     \<lparr>opt_Namespace = [], opt_Namespaces = [], opt_Projects = [], opt_Organization = [],
      opt_IncludePublic = False, opt_ExtendsKind = [], opt_Tags = [], opt_Category = [], opt_Search = [],
      opt_Status = [], opt_DependsOnKind = [], opt_ProducesKind = [], opt_ProducesGroup = [],
      opt_Page = 1, opt_PageSize = 20, opt_SortBy = ''name'', opt_SortOrder = ''asc''\<rparr>"

abbreviation "RGDProjectLabel \<equiv> ''knodex.io/project''"
abbreviation "CatalogAnnotation \<equiv> ''knodex.io/catalog''"

text \<open>Reading a key of a Go map of strings, the empty string when it is missing.\<close>

definition map_str :: "(string \<times> string) list \<Rightarrow> string \<Rightarrow> string" where
  "map_str m k = (case map_of m k of None \<Rightarrow> [] | Some v \<Rightarrow> v)"

subsection \<open>The indexes\<close>

text \<open>A \<open>map[string]map[string]bool\<close> whose inner maps only hold true.\<close>

type_synonym kindex = "string \<rightharpoonup> string set"

definition ix_add :: "kindex \<Rightarrow> string \<Rightarrow> string \<Rightarrow> kindex" where
  "ix_add ix t key = ix(t \<mapsto> insert key (case ix t of None \<Rightarrow> {} | Some keys \<Rightarrow> keys))"

definition ix_remove :: "kindex \<Rightarrow> string \<Rightarrow> string \<Rightarrow> kindex" where
  "ix_remove ix t key =
     (case ix t of
        None \<Rightarrow> ix
      | Some keys \<Rightarrow> (let keys' = keys - {key} in if keys' = {} then ix(t := None) else ix(t \<mapsto> keys')))"

record RGDCache =
  rc_rgds :: "(string \<times> CatalogRGD) list"
  rc_tagIndex :: kindex
  rc_projectIndex :: kindex
  rc_extendsKindIndex :: kindex
  rc_dependsOnKindIndex :: kindex
  rc_producesKindIndex :: kindex

definition NewRGDCache :: RGDCache where
  "NewRGDCache =
     \<lparr>rc_rgds = [], rc_tagIndex = Map.empty, rc_projectIndex = Map.empty, rc_extendsKindIndex = Map.empty,
      rc_dependsOnKindIndex = Map.empty, rc_producesKindIndex = Map.empty\<rparr>"

definition rgd_cacheKey :: "string \<Rightarrow> string \<Rightarrow> string" where
  "rgd_cacheKey namespace name = namespace @ ''/'' @ name"

definition project_terms :: "CatalogRGD \<Rightarrow> string list" where
  "project_terms rgd =
     (let projectLabel = map_str (rgd_Labels rgd) RGDProjectLabel
      in if projectLabel = [] then [] else [projectLabel])"

text \<open>The removal of the entries of an RGD from every index, and their insertion.\<close>

definition unindex :: "string \<Rightarrow> CatalogRGD \<Rightarrow> RGDCache \<Rightarrow> RGDCache" where
  "unindex key old c =
     c\<lparr>rc_tagIndex := foldl (\<lambda>ix tag. ix_remove ix (to_lower tag) key) (rc_tagIndex c) (rgd_Tags old),
       rc_projectIndex := foldl (\<lambda>ix p. ix_remove ix p key) (rc_projectIndex c) (project_terms old),
       rc_extendsKindIndex := foldl (\<lambda>ix kind. ix_remove ix kind key) (rc_extendsKindIndex c) (rgd_ExtendsKinds old),
       rc_dependsOnKindIndex := foldl (\<lambda>ix kind. ix_remove ix kind key) (rc_dependsOnKindIndex c) (rgd_DependsOnKinds old),
       rc_producesKindIndex :=
         foldl (\<lambda>ix gvk. ix_remove ix (gvk_Kind gvk) key) (rc_producesKindIndex c) (rgd_ProducesKinds old)\<rparr>"

definition index_rgd :: "string \<Rightarrow> CatalogRGD \<Rightarrow> RGDCache \<Rightarrow> RGDCache" where
  "index_rgd key rgd c =
     c\<lparr>rc_tagIndex := foldl (\<lambda>ix tag. ix_add ix (to_lower tag) key) (rc_tagIndex c) (rgd_Tags rgd),
       rc_projectIndex := foldl (\<lambda>ix p. ix_add ix p key) (rc_projectIndex c) (project_terms rgd),
       rc_extendsKindIndex := foldl (\<lambda>ix kind. ix_add ix kind key) (rc_extendsKindIndex c) (rgd_ExtendsKinds rgd),
       rc_dependsOnKindIndex := foldl (\<lambda>ix kind. ix_add ix kind key) (rc_dependsOnKindIndex c) (rgd_DependsOnKinds rgd),
       rc_producesKindIndex :=
         foldl (\<lambda>ix gvk. ix_add ix (gvk_Kind gvk) key) (rc_producesKindIndex c) (rgd_ProducesKinds rgd)\<rparr>"

definition rgd_Set :: "CatalogRGD \<Rightarrow> RGDCache \<Rightarrow> RGDCache" where
  "rgd_Set rgd c =
     (let key = rgd_cacheKey (rgd_Namespace rgd) (rgd_Name rgd);
          c1 = (case map_of (rc_rgds c) key of Some old \<Rightarrow> unindex key old c | None \<Rightarrow> c)
      in index_rgd key rgd (c1\<lparr>rc_rgds := AList.update key rgd (rc_rgds c1)\<rparr>))"

definition rgd_Get :: "RGDCache \<Rightarrow> string \<Rightarrow> string \<Rightarrow> CatalogRGD option" where
  "rgd_Get c namespace name = map_of (rc_rgds c) (rgd_cacheKey namespace name)"

definition rgd_Delete :: "string \<Rightarrow> string \<Rightarrow> RGDCache \<Rightarrow> RGDCache" where
  "rgd_Delete namespace name c =
     (let key = rgd_cacheKey namespace name;
          c1 = (case map_of (rc_rgds c) key of Some old \<Rightarrow> unindex key old c | None \<Rightarrow> c)
      in c1\<lparr>rc_rgds := AList.delete key (rc_rgds c1)\<rparr>)"

definition rgd_Clear :: "RGDCache \<Rightarrow> RGDCache" where
  "rgd_Clear c = NewRGDCache"

definition rgd_Count :: "RGDCache \<Rightarrow> nat" where
  "rgd_Count c = length (rc_rgds c)"

definition rgd_All :: "RGDCache \<Rightarrow> CatalogRGD list" where
  "rgd_All c = map snd (rc_rgds c)"

text \<open>
  A loop over the keys of a set that looks each key up. The iteration order of a Go map is arbitrary;
  here it is that of the stored entries.
\<close>

definition rgds_of :: "RGDCache \<Rightarrow> string set \<Rightarrow> CatalogRGD list" where
  "rgds_of c keys = map snd (filter (\<lambda>(key, _). key \<in> keys) (rc_rgds c))"

definition GetByDependsOnKind :: "RGDCache \<Rightarrow> string \<Rightarrow> CatalogRGD list" where
  "GetByDependsOnKind c kind =
     (case rc_dependsOnKindIndex c kind of None \<Rightarrow> [] | Some keys \<Rightarrow> rgds_of c keys)"

definition GetByExtendsKind :: "RGDCache \<Rightarrow> string \<Rightarrow> CatalogRGD list" where
  "GetByExtendsKind c kind =
     (case rc_extendsKindIndex c kind of None \<Rightarrow> [] | Some keys \<Rightarrow> rgds_of c keys)"

subsection \<open>The filter\<close>

definition visible :: "ListOptions \<Rightarrow> CatalogRGD \<Rightarrow> bool" where
  "visible opts rgd =
     (if opt_IncludePublic opts \<or> length (opt_Projects opts) > 0
      then (let projectLabel = map_str (rgd_Labels rgd) RGDProjectLabel;
                isPublic = (projectLabel = []);
                isInUserProject = (length (opt_Projects opts) > 0 \<and> projectLabel \<noteq> [] \<and>
                                   projectLabel \<in> set (opt_Projects opts))
            in opt_IncludePublic opts \<and> isPublic \<or> isInUserProject)
      else True)"

definition matchesFilter :: "ListOptions \<Rightarrow> CatalogRGD \<Rightarrow> bool" where
  "matchesFilter opts rgd =
     (if map_str (rgd_Annotations rgd) CatalogAnnotation \<noteq> ''true'' then False
      else if opt_Organization opts \<noteq> [] \<and> rgd_Organization rgd \<noteq> [] \<and>
              rgd_Organization rgd \<noteq> opt_Organization opts then False
      else if \<not> visible opts rgd then False
      else if length (opt_Namespaces opts) > 0 \<and> rgd_Namespace rgd \<notin> set (opt_Namespaces opts) then False
      else if length (opt_Namespaces opts) = 0 \<and> opt_Namespace opts \<noteq> [] \<and>
              rgd_Namespace rgd \<noteq> opt_Namespace opts then False
      else if opt_Category opts \<noteq> [] \<and> rgd_Category rgd \<noteq> opt_Category opts then False
      else if \<not> list_all (\<lambda>t. to_lower t \<in> set (map to_lower (rgd_Tags rgd))) (opt_Tags opts) then False
      else if opt_ExtendsKind opts \<noteq> [] \<and> opt_ExtendsKind opts \<notin> set (rgd_ExtendsKinds rgd) then False
      else if opt_DependsOnKind opts \<noteq> [] \<and> opt_DependsOnKind opts \<notin> set (rgd_DependsOnKinds rgd) then False
      else if opt_ProducesKind opts \<noteq> [] \<and>
              \<not> list_ex (\<lambda>gvk. gvk_Kind gvk = opt_ProducesKind opts \<and>
                     (opt_ProducesGroup opts = [] \<or> gvk_Group gvk = opt_ProducesGroup opts)) (rgd_ProducesKinds rgd)
        then False
      else if opt_Status opts \<noteq> [] \<and> rgd_Status rgd \<noteq> opt_Status opts then False
      else if opt_Search opts \<noteq> [] then
        (let search = to_lower (opt_Search opts)
         in contains (to_lower (rgd_Name rgd)) search \<or> contains (to_lower (rgd_Title rgd)) search \<or>
            contains (to_lower (rgd_Description rgd)) search)
      else True)"

subsection \<open>Candidates from the indexes\<close>

text \<open>
  \<open>Inl ()\<close> is the early return of the empty set, \<open>Inr None\<close> a nil set (no filter of this kind).
\<close>

definition kind_candidates :: "kindex \<Rightarrow> string \<Rightarrow> unit + string set option" where
  "kind_candidates ix kind =
     (if kind = [] then Inr None
      else (case ix kind of None \<Rightarrow> Inl () | Some keys \<Rightarrow> Inr (Some keys)))"

fun tag_rest :: "kindex \<Rightarrow> string list \<Rightarrow> string set \<Rightarrow> unit + string set option" where
  "tag_rest ix [] cands = Inr (Some cands)"
| "tag_rest ix (tag # tags) cands =
     (case ix (to_lower tag) of
        None \<Rightarrow> Inl ()
      | Some keys \<Rightarrow> tag_rest ix tags (Set.filter (\<lambda>key. key \<in> keys) cands))"

fun tag_candidates :: "kindex \<Rightarrow> string list \<Rightarrow> unit + string set option" where
  "tag_candidates ix [] = Inr None"
| "tag_candidates ix (tag # tags) =
     (case ix (to_lower tag) of None \<Rightarrow> Inl () | Some keys \<Rightarrow> tag_rest ix tags keys)"

definition project_candidates :: "kindex \<Rightarrow> ListOptions \<Rightarrow> string set option" where
  "project_candidates ix opts =
     (if length (opt_Projects opts) > 0 \<and> \<not> opt_IncludePublic opts
      then Some (foldl (\<lambda>acc p. case ix p of None \<Rightarrow> acc | Some keys \<Rightarrow> acc \<union> keys) {} (opt_Projects opts))
      else None)"

fun intersect_all :: "string set list \<Rightarrow> string set option" where
  "intersect_all [] = None"
| "intersect_all (s # ss) = Some (Set.filter (\<lambda>key. list_all (\<lambda>t. key \<in> t) ss) s)"

definition getCandidateKeys :: "RGDCache \<Rightarrow> ListOptions \<Rightarrow> string set option" where
  "getCandidateKeys c opts =
     (case kind_candidates (rc_extendsKindIndex c) (opt_ExtendsKind opts) of
        Inl _ \<Rightarrow> Some {}
      | Inr e \<Rightarrow>
          (case kind_candidates (rc_dependsOnKindIndex c) (opt_DependsOnKind opts) of
             Inl _ \<Rightarrow> Some {}
           | Inr d \<Rightarrow>
               (case kind_candidates (rc_producesKindIndex c) (opt_ProducesKind opts) of
                  Inl _ \<Rightarrow> Some {}
                | Inr p \<Rightarrow>
                    (case tag_candidates (rc_tagIndex c) (opt_Tags opts) of
                       Inl _ \<Rightarrow> Some {}
                     | Inr t \<Rightarrow>
                         intersect_all (List.map_filter id [t, project_candidates (rc_projectIndex c) opts, e, d, p])))))"

subsection \<open>Sorting and pages\<close>

definition rgd_less :: "string \<Rightarrow> bool \<Rightarrow> CatalogRGD \<Rightarrow> CatalogRGD \<Rightarrow> bool" where
  "rgd_less sortBy ascending a b =
     (let (lt, eq) =
            (if sortBy = ''createdAt'' then (rgd_CreatedAt a < rgd_CreatedAt b, rgd_CreatedAt a = rgd_CreatedAt b)
             else if sortBy = ''updatedAt'' then (rgd_UpdatedAt a < rgd_UpdatedAt b, rgd_UpdatedAt a = rgd_UpdatedAt b)
             else (let na = to_lower (rgd_Name a); nb = to_lower (rgd_Name b) in (na < nb, na = nb)))
      in if eq
         then (let ka = to_lower (rgd_Namespace a @ ''/'' @ rgd_Name a); kb = to_lower (rgd_Namespace b @ ''/'' @ rgd_Name b)
               in if ascending then ka < kb else ka > kb)
         else if ascending then lt else \<not> lt)"

text \<open>\<open>sort.SliceStable\<close> for a given order: stable insertion.\<close>

fun insert_stable :: "('a \<Rightarrow> 'a \<Rightarrow> bool) \<Rightarrow> 'a \<Rightarrow> 'a list \<Rightarrow> 'a list" where
  "insert_stable lt x [] = [x]"
| "insert_stable lt x (y # ys) = (if lt y x then y # insert_stable lt x ys else x # y # ys)"

definition slice_stable :: "('a \<Rightarrow> 'a \<Rightarrow> bool) \<Rightarrow> 'a list \<Rightarrow> 'a list" where
  "slice_stable lt xs = foldr (insert_stable lt) xs []"

definition sortRGDs :: "CatalogRGD list \<Rightarrow> string \<Rightarrow> string \<Rightarrow> CatalogRGD list" where
  "sortRGDs rgds sortBy sortOrder = slice_stable (rgd_less sortBy (sortOrder \<noteq> ''desc'')) rgds"

text \<open>\<open>xs[lo:hi]\<close> with \<open>hi\<close> at most the length; \<open>None\<close> is the run-time panic.\<close>

definition go_slice :: "'a list \<Rightarrow> int \<Rightarrow> int \<Rightarrow> 'a list option" where
  "go_slice xs lo hi =
     (if 0 \<le> lo \<and> lo \<le> hi \<and> hi \<le> int (length xs)
      then Some (take (nat hi - nat lo) (drop (nat lo) xs)) else None)"

definition page_items :: "64 word \<Rightarrow> 64 word \<Rightarrow> 'a list \<Rightarrow> 'a list option" where
  "page_items page pageSize xs =
     (let start = (page - 1) * pageSize;
          finish = start + pageSize;
          total = int (length xs)
      in if sint start \<ge> total then Some []
         else go_slice xs (sint start) (if sint finish > total then total else sint finish))"

definition matching :: "RGDCache \<Rightarrow> ListOptions \<Rightarrow> CatalogRGD list" where
  "matching c opts =
     (case getCandidateKeys c opts of
        Some keys \<Rightarrow> filter (matchesFilter opts) (rgds_of c keys)
      | None \<Rightarrow> filter (matchesFilter opts) (rgd_All c))"

definition rgd_List :: "RGDCache \<Rightarrow> ListOptions \<Rightarrow> CatalogRGDList option" where
  "rgd_List c opts =
     (let matches = sortRGDs (matching c opts) (opt_SortBy opts) (opt_SortOrder opts)
      in map_option
           (\<lambda>items. \<lparr>list_Items = items, list_TotalCount = length matches, list_Page = opt_Page opts,
                     list_PageSize = opt_PageSize opts\<rparr>)
           (page_items (opt_Page opts) (opt_PageSize opts) matches))"

text \<open>The lookup by name of \<open>rgd_watcher.go\<close>: the first match of the iteration.\<close>

definition GetRGDByName :: "RGDCache \<Rightarrow> string \<Rightarrow> CatalogRGD option" where
  "GetRGDByName c name = find (\<lambda>rgd. rgd_Name rgd = name) (rgd_All c)"

definition GetRGDByKind :: "RGDCache \<Rightarrow> string \<Rightarrow> CatalogRGD option" where
  "GetRGDByKind c kind = find (\<lambda>rgd. rgd_Kind rgd = kind) (rgd_All c)"

subsection \<open>Indexes as sets\<close>

locale term_index =
  fixes add :: "'i \<Rightarrow> string \<Rightarrow> string \<Rightarrow> 'i"
    and rem :: "'i \<Rightarrow> string \<Rightarrow> string \<Rightarrow> 'i"
    and keys :: "'i \<Rightarrow> string \<Rightarrow> string set"
  assumes keys_add: "keys (add ix t k) u = (if u = t then insert k (keys ix u) else keys ix u)"
    and keys_rem: "keys (rem ix t k) u = (if u = t then keys ix u - {k} else keys ix u)"
begin

lemma keys_add_all:
  "keys (foldl (\<lambda>ix x. add ix (f x) k) ix xs) u = (if u \<in> f ` set xs then insert k (keys ix u) else keys ix u)"
  by (induction xs arbitrary: ix) (auto simp: keys_add)

lemma keys_rem_all:
  "keys (foldl (\<lambda>ix x. rem ix (f x) k) ix xs) u = (if u \<in> f ` set xs then keys ix u - {k} else keys ix u)"
  by (induction xs arbitrary: ix) (auto simp: keys_rem)

text \<open>
  An index describes stored objects when a term leads to the keys of exactly those objects that have
  the term.
\<close>

definition describes :: "('b \<Rightarrow> string set) \<Rightarrow> (string \<rightharpoonup> 'b) \<Rightarrow> 'i \<Rightarrow> bool" where
  "describes terms m ix \<longleftrightarrow> (\<forall>t k. k \<in> keys ix t \<longleftrightarrow> (\<exists>r. m k = Some r \<and> t \<in> terms r))"

lemma describes_drop:
  assumes "describes terms m ix" "\<And>old. m k = Some old \<Longrightarrow> terms old = g ` set (ys old)"
  shows "describes terms (m(k := None))
    (case m k of None \<Rightarrow> ix | Some old \<Rightarrow> foldl (\<lambda>ix x. rem ix (g x) k) ix (ys old))"
  using assms by (cases "m k") (auto simp: describes_def keys_rem_all)

lemma describes_insert:
  assumes "describes terms (m(k := None)) ix" "terms new = f ` set xs"
  shows "describes terms (m(k \<mapsto> new)) (foldl (\<lambda>ix x. add ix (f x) k) ix xs)"
  using assms by (auto simp: describes_def keys_add_all split: if_splits)

end

definition ix_keys :: "kindex \<Rightarrow> string \<Rightarrow> string set" where
  "ix_keys ix t = (case ix t of None \<Rightarrow> {} | Some keys \<Rightarrow> keys)"

interpretation ix: term_index ix_add ix_remove ix_keys
  by unfold_locales (auto simp: ix_keys_def ix_add_def ix_remove_def Let_def split: option.splits)

subsection \<open>The invariant of the cache\<close>

definition tag_terms :: "CatalogRGD \<Rightarrow> string set" where "tag_terms r = to_lower ` set (rgd_Tags r)"
definition produced :: "CatalogRGD \<Rightarrow> string set" where "produced r = gvk_Kind ` set (rgd_ProducesKinds r)"

definition rgd_key :: "CatalogRGD \<Rightarrow> string" where
  "rgd_key r = rgd_cacheKey (rgd_Namespace r) (rgd_Name r)"

definition described :: "(string \<rightharpoonup> CatalogRGD) \<Rightarrow> RGDCache \<Rightarrow> bool" where
  "described m c \<longleftrightarrow>
     ix.describes tag_terms m (rc_tagIndex c) \<and>
     ix.describes (set \<circ> project_terms) m (rc_projectIndex c) \<and>
     ix.describes (set \<circ> rgd_ExtendsKinds) m (rc_extendsKindIndex c) \<and>
     ix.describes (set \<circ> rgd_DependsOnKinds) m (rc_dependsOnKindIndex c) \<and>
     ix.describes produced m (rc_producesKindIndex c)"

definition rgd_inv :: "RGDCache \<Rightarrow> bool" where
  "rgd_inv c \<longleftrightarrow>
     distinct (map fst (rc_rgds c)) \<and> (\<forall>(k, r) \<in> set (rc_rgds c). k = rgd_key r) \<and>
     described (map_of (rc_rgds c)) c"

text \<open>The part of \<open>Set\<close> and \<open>Delete\<close> that drops the old entries.\<close>

definition drop_old :: "string \<Rightarrow> RGDCache \<Rightarrow> RGDCache" where
  "drop_old key c = (case map_of (rc_rgds c) key of Some old \<Rightarrow> unindex key old c | None \<Rightarrow> c)"

lemma drop_old_sel:
  "rc_rgds (drop_old key c) = rc_rgds c"
  "rc_tagIndex (drop_old key c) = (case map_of (rc_rgds c) key of None \<Rightarrow> rc_tagIndex c
     | Some old \<Rightarrow> foldl (\<lambda>ix tag. ix_remove ix (to_lower tag) key) (rc_tagIndex c) (rgd_Tags old))"
  "rc_projectIndex (drop_old key c) = (case map_of (rc_rgds c) key of None \<Rightarrow> rc_projectIndex c
     | Some old \<Rightarrow> foldl (\<lambda>ix p. ix_remove ix p key) (rc_projectIndex c) (project_terms old))"
  "rc_extendsKindIndex (drop_old key c) = (case map_of (rc_rgds c) key of None \<Rightarrow> rc_extendsKindIndex c
     | Some old \<Rightarrow> foldl (\<lambda>ix p. ix_remove ix p key) (rc_extendsKindIndex c) (rgd_ExtendsKinds old))"
  "rc_dependsOnKindIndex (drop_old key c) = (case map_of (rc_rgds c) key of None \<Rightarrow> rc_dependsOnKindIndex c
     | Some old \<Rightarrow> foldl (\<lambda>ix p. ix_remove ix p key) (rc_dependsOnKindIndex c) (rgd_DependsOnKinds old))"
  "rc_producesKindIndex (drop_old key c) = (case map_of (rc_rgds c) key of None \<Rightarrow> rc_producesKindIndex c
     | Some old \<Rightarrow> foldl (\<lambda>ix g. ix_remove ix (gvk_Kind g) key) (rc_producesKindIndex c) (rgd_ProducesKinds old))"
  by (cases "map_of (rc_rgds c) key"; simp add: drop_old_def unindex_def)+

lemma rgd_Set_eq:
  "rgd_Set r c = index_rgd (rgd_key r) r
     ((drop_old (rgd_key r) c)\<lparr>rc_rgds := AList.update (rgd_key r) r (rc_rgds c)\<rparr>)"
  unfolding rgd_Set_def Let_def drop_old_def [symmetric] rgd_key_def [symmetric] by (simp add: drop_old_sel)

lemma rgd_Delete_eq:
  "rgd_Delete ns nm c = (drop_old (rgd_cacheKey ns nm) c)\<lparr>rc_rgds := AList.delete (rgd_cacheKey ns nm) (rc_rgds c)\<rparr>"
  unfolding rgd_Delete_def Let_def drop_old_def [symmetric] by (simp add: drop_old_sel)

lemma described_drop_old:
  assumes "described (map_of (rc_rgds c)) c"
  shows "described ((map_of (rc_rgds c))(k := None)) (drop_old k c)"
  unfolding described_def drop_old_sel
proof (intro conjI)
  note I = assms [unfolded described_def]
  show "ix.describes tag_terms ((map_of (rc_rgds c))(k := None)) (case map_of (rc_rgds c) k of None \<Rightarrow> rc_tagIndex c
     | Some old \<Rightarrow> foldl (\<lambda>ix tag. ix_remove ix (to_lower tag) k) (rc_tagIndex c) (rgd_Tags old))"
    by (rule ix.describes_drop) (use I in \<open>simp_all add: tag_terms_def\<close>)
  show "ix.describes produced ((map_of (rc_rgds c))(k := None)) (case map_of (rc_rgds c) k of None \<Rightarrow> rc_producesKindIndex c
     | Some old \<Rightarrow> foldl (\<lambda>ix g. ix_remove ix (gvk_Kind g) k) (rc_producesKindIndex c) (rgd_ProducesKinds old))"
    by (rule ix.describes_drop) (use I in \<open>simp_all add: produced_def\<close>)
qed (use assms in \<open>auto simp: described_def intro!: ix.describes_drop [where g = "\<lambda>x. x"]\<close>)

lemma described_index:
  assumes "described (m(k := None)) c"
  shows "described (m(k \<mapsto> r)) (index_rgd k r c)"
proof -
  note I = assms [unfolded described_def]
  have "ix.describes tag_terms (m(k \<mapsto> r)) (foldl (\<lambda>ix tag. ix_add ix (to_lower tag) k) (rc_tagIndex c) (rgd_Tags r))"
    by (rule ix.describes_insert) (use I in \<open>simp_all add: tag_terms_def\<close>)
  moreover have "ix.describes produced (m(k \<mapsto> r))
      (foldl (\<lambda>ix g. ix_add ix (gvk_Kind g) k) (rc_producesKindIndex c) (rgd_ProducesKinds r))"
    by (rule ix.describes_insert) (use I in \<open>simp_all add: produced_def\<close>)
  ultimately show ?thesis
    using I by (auto simp: described_def index_rgd_def intro!: ix.describes_insert [where f = "\<lambda>x. x", simplified])
qed

lemma update_entry: "x \<in> set (AList.update k r al) \<Longrightarrow> x = (k, r) \<or> x \<in> set al"
  by (induction al) (auto split: if_splits)

lemma described_rgds [simp]: "described m (c\<lparr>rc_rgds := l\<rparr>) = described m c"
  by (simp add: described_def)

lemma rgd_inv_Set:
  assumes "rgd_inv c"
  shows "rgd_inv (rgd_Set r c)"
proof -
  let ?k = "rgd_key r"
  have "distinct (map fst (AList.update ?k r (rc_rgds c)))"
    using assms by (simp add: rgd_inv_def distinct_update)
  moreover have "\<forall>(k, q) \<in> set (AList.update ?k r (rc_rgds c)). k = rgd_key q"
    using assms by (auto simp: rgd_inv_def dest!: update_entry)
  moreover have "described ((map_of (rc_rgds c))(?k \<mapsto> r)) (rgd_Set r c)"
    unfolding rgd_Set_eq
    by (rule described_index) (use assms in \<open>simp add: rgd_inv_def described_drop_old\<close>)
  moreover have "rc_rgds (rgd_Set r c) = AList.update ?k r (rc_rgds c)"
    by (simp add: rgd_Set_eq index_rgd_def)
  ultimately show ?thesis by (simp add: rgd_inv_def update_conv')
qed

lemma rgd_inv_Delete:
  assumes "rgd_inv c"
  shows "rgd_inv (rgd_Delete ns nm c)"
proof -
  let ?k = "rgd_cacheKey ns nm"
  have "distinct (map fst (AList.delete ?k (rc_rgds c)))"
    using assms by (simp add: rgd_inv_def distinct_delete)
  moreover have "\<forall>(k, q) \<in> set (AList.delete ?k (rc_rgds c)). k = rgd_key q"
    using assms by (auto simp: rgd_inv_def AList.delete_eq)
  moreover have "described ((map_of (rc_rgds c))(?k := None)) (rgd_Delete ns nm c)"
    using assms by (simp add: rgd_Delete_eq rgd_inv_def described_drop_old)
  moreover have "rc_rgds (rgd_Delete ns nm c) = AList.delete ?k (rc_rgds c)"
    by (simp add: rgd_Delete_eq)
  ultimately show ?thesis by (simp add: rgd_inv_def delete_conv')
qed

lemma rgd_inv_New: "rgd_inv NewRGDCache"
  by (simp add: rgd_inv_def NewRGDCache_def described_def ix.describes_def ix_keys_def)

text \<open>What may happen to a cache.\<close>

inductive cache_step :: "RGDCache \<Rightarrow> RGDCache \<Rightarrow> bool" where
  set_rgd: "cache_step c (rgd_Set r c)"
| delete_rgd: "cache_step c (rgd_Delete ns nm c)"
| clear_rgds: "cache_step c (rgd_Clear c)"

lemma reach_Set: "cache_step\<^sup>*\<^sup>* b c \<Longrightarrow> cache_step\<^sup>*\<^sup>* b (rgd_Set r c)"
  by (erule rtranclp.rtrancl_into_rtrancl) (rule set_rgd)

lemma reach_Delete: "cache_step\<^sup>*\<^sup>* b c \<Longrightarrow> cache_step\<^sup>*\<^sup>* b (rgd_Delete ns nm c)"
  by (erule rtranclp.rtrancl_into_rtrancl) (rule delete_rgd)

lemma rgd_inv_reachable: "cache_step\<^sup>*\<^sup>* NewRGDCache c \<Longrightarrow> rgd_inv c"
proof (induction rule: rtranclp_induct)
  case base
  show ?case by (rule rgd_inv_New)
next
  case (step c c')
  from step(2,3) show ?case
    by cases (simp_all add: rgd_inv_Set rgd_inv_Delete rgd_Clear_def rgd_inv_New)
qed

subsection \<open>The candidates miss nothing\<close>

definition admits :: "unit + string set option \<Rightarrow> string \<Rightarrow> bool" where
  "admits x k \<longleftrightarrow> (\<exists>e. x = Inr e \<and> (\<forall>S. e = Some S \<longrightarrow> k \<in> S))"

lemma kind_candidates_admits: "kind = [] \<or> k \<in> ix_keys ix kind \<Longrightarrow> admits (kind_candidates ix kind) k"
  by (auto simp: admits_def kind_candidates_def ix_keys_def split: option.splits)

lemma tag_rest_admits: "k \<in> S \<Longrightarrow> \<forall>t \<in> set tags. k \<in> ix_keys ix (to_lower t) \<Longrightarrow> admits (tag_rest ix tags S) k"
  by (induction tags arbitrary: S) (auto simp: admits_def ix_keys_def split: option.splits)

lemma tag_candidates_admits: "\<forall>t \<in> set tags. k \<in> ix_keys ix (to_lower t) \<Longrightarrow> admits (tag_candidates ix tags) k"
  using tag_rest_admits [of k _ "tl tags" ix]
  by (cases tags) (auto simp: admits_def [of "Inr None"] ix_keys_def split: option.splits)

lemma union_candidates:
  "foldl (\<lambda>acc p. case ix p of None \<Rightarrow> acc | Some keys \<Rightarrow> acc \<union> keys) S ps = S \<union> (\<Union>p \<in> set ps. ix_keys ix p)"
  by (induction ps arbitrary: S) (auto simp: ix_keys_def split: option.split)

lemma intersect_all_Some: "intersect_all ss = Some S \<Longrightarrow> \<forall>t \<in> set ss. k \<in> t \<Longrightarrow> k \<in> S"
  by (cases ss) (auto simp: list_all_iff)

lemma project_candidates_admits:
  assumes "visible opts r" "\<forall>p \<in> set (project_terms r). k \<in> ix_keys ix p" "project_candidates ix opts = Some S"
  shows "k \<in> S"
  using assms by (auto simp: project_candidates_def visible_def union_candidates project_terms_def Let_def split: if_splits)

lemma matchesFilter_elims:
  assumes "matchesFilter opts r"
  shows "visible opts r"
    and "\<forall>t \<in> set (opt_Tags opts). to_lower t \<in> tag_terms r"
    and "opt_ExtendsKind opts = [] \<or> opt_ExtendsKind opts \<in> set (rgd_ExtendsKinds r)"
    and "opt_DependsOnKind opts = [] \<or> opt_DependsOnKind opts \<in> set (rgd_DependsOnKinds r)"
    and "opt_ProducesKind opts = [] \<or> opt_ProducesKind opts \<in> produced r"
  subgoal using assms by (simp only: matchesFilter_def split: if_splits)
  subgoal using assms by (simp only: matchesFilter_def tag_terms_def list_all_iff set_map split: if_splits; blast)
  subgoal using assms by (simp only: matchesFilter_def split: if_splits; blast)
  subgoal using assms by (simp only: matchesFilter_def split: if_splits; blast)
  subgoal using assms by (simp only: matchesFilter_def produced_def list_ex_iff split: if_splits; metis image_eqI)
  done

lemma candidates_complete:
  assumes "described m c" "m k = Some r" "matchesFilter opts r" "getCandidateKeys c opts = Some S"
  shows "k \<in> S"
proof -
  note I = assms(1) [unfolded described_def ix.describes_def]
  note f = matchesFilter_elims [OF assms(3)]
  obtain e where e: "kind_candidates (rc_extendsKindIndex c) (opt_ExtendsKind opts) = Inr e" "\<forall>S. e = Some S \<longrightarrow> k \<in> S"
    using kind_candidates_admits [of "opt_ExtendsKind opts" k "rc_extendsKindIndex c"] f(3) I assms(2) by (auto simp: admits_def)
  obtain d where d: "kind_candidates (rc_dependsOnKindIndex c) (opt_DependsOnKind opts) = Inr d" "\<forall>S. d = Some S \<longrightarrow> k \<in> S"
    using kind_candidates_admits [of "opt_DependsOnKind opts" k "rc_dependsOnKindIndex c"] f(4) I assms(2) by (auto simp: admits_def)
  obtain p where p: "kind_candidates (rc_producesKindIndex c) (opt_ProducesKind opts) = Inr p" "\<forall>S. p = Some S \<longrightarrow> k \<in> S"
    using kind_candidates_admits [of "opt_ProducesKind opts" k "rc_producesKindIndex c"] f(5) I assms(2) by (auto simp: admits_def)
  obtain t where t: "tag_candidates (rc_tagIndex c) (opt_Tags opts) = Inr t" "\<forall>S. t = Some S \<longrightarrow> k \<in> S"
    using tag_candidates_admits [of "opt_Tags opts" k "rc_tagIndex c"] f(2) I assms(2) by (auto simp: admits_def)
  have pr: "k \<in> S" if "project_candidates (rc_projectIndex c) opts = Some S" for S
    using project_candidates_admits [OF f(1) _ that] I assms(2) by auto
  have "intersect_all (List.map_filter id [t, project_candidates (rc_projectIndex c) opts, e, d, p]) = Some S"
    using assms(4) e(1) d(1) p(1) t(1) by (simp add: getCandidateKeys_def)
  then show ?thesis
    by (rule intersect_all_Some) (use e(2) d(2) p(2) t(2) pr in \<open>auto simp: map_filter_def\<close>)
qed

lemma filter_by_key:
  "\<forall>x \<in> set al. P (snd x) \<longrightarrow> fst x \<in> S \<Longrightarrow>
   filter P (map snd (filter (\<lambda>(key, _). key \<in> S) al)) = filter P (map snd al)"
  by (induction al) auto

lemma matching_scan:
  assumes "rgd_inv c"
  shows "matching c opts = filter (matchesFilter opts) (rgd_All c)"
proof (cases "getCandidateKeys c opts")
  case None
  then show ?thesis by (simp add: matching_def)
next
  case (Some S)
  have "k \<in> S" if "(k, r) \<in> set (rc_rgds c)" "matchesFilter opts r" for k r
    using candidates_complete [of "map_of (rc_rgds c)" c k r opts S, OF _ _ that(2) Some] assms that(1) by (simp add: rgd_inv_def map_of_is_SomeI)
  then have "\<forall>x \<in> set (rc_rgds c). matchesFilter opts (snd x) \<longrightarrow> fst x \<in> S" by auto
  then show ?thesis by (simp add: matching_def Some rgds_of_def rgd_All_def filter_by_key)
qed

subsection \<open>The order\<close>

definition rank :: "string \<Rightarrow> CatalogRGD \<Rightarrow> int \<times> string" where
  "rank sortBy r =
     (if sortBy = ''createdAt'' then (rgd_CreatedAt r, [])
      else if sortBy = ''updatedAt'' then (rgd_UpdatedAt r, [])
      else (0, to_lower (rgd_Name r)))"

definition row :: "string \<Rightarrow> CatalogRGD \<Rightarrow> (int \<times> string) \<times> string" where
  "row sortBy r = (rank sortBy r, to_lower (rgd_key r))"

lemma rgd_less_row:
  "rgd_less sortBy True a b \<longleftrightarrow> row sortBy a < row sortBy b"
  "rgd_less sortBy False a b \<longleftrightarrow> row sortBy b < row sortBy a"
  by (auto simp: rgd_less_def row_def rank_def rgd_key_def rgd_cacheKey_def Let_def less_prod_def)

lemma sortRGDs_asc: "sortRGDs rs sortBy sortOrder = sort_key (row sortBy) rs" if "sortOrder \<noteq> ''desc''"
proof -
  have "insert_stable (rgd_less sortBy True) x ys = insort_key (row sortBy) x ys" for x ys
    by (induction ys) (auto simp: rgd_less_row)
  then have "foldr (insert_stable (rgd_less sortBy True)) rs [] = foldr (insort_key (row sortBy)) rs []"
    by (induction rs) simp_all
  with that show ?thesis by (simp add: sortRGDs_def slice_stable_def sort_key_def)
qed

lemma insert_stable_mset: "mset (insert_stable lt x ys) = add_mset x (mset ys)"
  by (induction ys) auto

lemma slice_stable_mset: "mset (slice_stable lt xs) = mset xs"
  by (induction xs) (auto simp: slice_stable_def insert_stable_mset)

lemma sortRGDs_mset: "mset (sortRGDs rs sortBy sortOrder) = mset rs"
  by (simp add: sortRGDs_def slice_stable_mset)

lemma sortRGDs_set: "set (sortRGDs rs sortBy sortOrder) = set rs"
  by (metis sortRGDs_mset set_mset_mset)

lemma insert_stable_desc:
  fixes f :: "'a \<Rightarrow> 'k::linorder"
  shows "sorted (map f (rev ys)) \<Longrightarrow> sorted (map f (rev (insert_stable (\<lambda>a b. f b < f a) x ys)))"
proof (induction ys)
  case (Cons y ys)
  have "set (insert_stable (\<lambda>a b. f b < f a) x ys) = insert x (set ys)"
    using insert_stable_mset [of "\<lambda>a b. f b < f a" x ys] by (metis set_mset_mset set_mset_add_mset_insert)
  with Cons show ?case by (auto simp: sorted_append)
qed simp

lemma sortRGDs_desc: "sorted (map (row sortBy) (rev (sortRGDs rs sortBy ''desc'')))"
proof -
  have "sorted (map (row sortBy) (rev (foldr (insert_stable (rgd_less sortBy False)) rs [])))"
  proof (induction rs)
    case (Cons r rs)
    have "rgd_less sortBy False = (\<lambda>a b. row sortBy b < row sortBy a)"
      by (intro ext) (rule rgd_less_row(2))
    with Cons show ?case by (simp add: insert_stable_desc)
  qed simp
  then show ?thesis by (simp add: sortRGDs_def slice_stable_def)
qed

lemma sorted_by_key_unique:
  fixes f :: "'a \<Rightarrow> 'k::linorder"
  assumes "sorted (map f xs)" "sorted (map f ys)" "mset xs = mset ys" "inj_on f (set xs)"
  shows "xs = ys"
proof -
  have "map f xs = map f ys"
    using assms(1,2,3) by (metis mset_map properties_for_sort)
  moreover have "set ys = set xs" using assms(3) by (metis set_mset_mset)
  ultimately show ?thesis using assms(4) by (auto simp: inj_on_map_eq_map)
qed

text \<open>The sort does not see the order of its input when no two definitions have the same key.\<close>

lemma sortRGDs_unique:
  assumes "mset rs = mset qs" "inj_on (\<lambda>r. to_lower (rgd_key r)) (set rs)"
  shows "sortRGDs rs sortBy sortOrder = sortRGDs qs sortBy sortOrder"
proof -
  have inj: "inj_on (row sortBy) (set rs)"
    using assms(2) by (auto simp: inj_on_def row_def)
  have m: "mset (sortRGDs rs sortBy sortOrder) = mset (sortRGDs qs sortBy sortOrder)"
    using assms(1) by (simp add: sortRGDs_mset)
  have inj': "inj_on (row sortBy) (set (sortRGDs rs sortBy sortOrder))" using inj by (simp add: sortRGDs_set)
  show ?thesis
  proof (cases "sortOrder = ''desc''")
    case True
    then have "rev (sortRGDs rs sortBy sortOrder) = rev (sortRGDs qs sortBy sortOrder)"
      using m inj' by (intro sorted_by_key_unique [where f = "row sortBy"]) (simp_all add: sortRGDs_desc)
    then show ?thesis by simp
  next
    case False
    then show ?thesis
      using m inj' by (intro sorted_by_key_unique [where f = "row sortBy"]) (simp_all add: sortRGDs_asc)
  qed
qed

lemma same_entries:
  assumes "rgd_inv c" "rgd_inv d" "map_of (rc_rgds c) = map_of (rc_rgds d)"
  shows "mset (rc_rgds c) = mset (rc_rgds d)"
proof -
  have "distinct (map fst (rc_rgds c))" "distinct (map fst (rc_rgds d))"
    using assms(1,2) by (simp_all add: rgd_inv_def)
  then show ?thesis
    using assms(3) by (metis distinct_map map_of_inject_set set_eq_iff_mset_eq_distinct)
qed

subsection \<open>Pages\<close>

text \<open>Without overflow a page is the window of the list that its number and size name.\<close>

lemma page_items_window:
  assumes "0 < n" "0 < sz" "n * sz < 2 ^ 63"
  shows "page_items (word_of_nat n) (word_of_nat sz) xs = Some (take sz (drop ((n - 1) * sz) xs))"
proof -
  define st where "st = (n - 1) * sz"
  have e: "st + sz = n * sz" using assms(1) by (simp add: st_def algebra_simps mult_eq_if)
  have w1: "(word_of_nat n - 1) * word_of_nat sz = (word_of_nat st :: 64 word)"
    using assms(1) by (cases n) (simp_all add: st_def)
  have w2: "word_of_nat st + word_of_nat sz = (word_of_nat (st + sz) :: 64 word)" by simp
  have s: "sint (word_of_nat m :: 64 word) = int m" if "m < 2 ^ 63" for m
    using that by (simp add: sint_uint unat_of_nat uint_nat signed_take_bit_int_eq_self take_bit_nat_eq_self)
  have b: "st < 2 ^ 63" "st + sz < 2 ^ 63" using assms e by linarith+
  have s1: "sint ((word_of_nat n - 1) * word_of_nat sz :: 64 word) = int st" unfolding w1 by (rule s [OF b(1)])
  have s2: "sint ((word_of_nat n - 1) * word_of_nat sz + word_of_nat sz :: 64 word) = int (st + sz)"
    unfolding w1 w2 by (rule s [OF b(2)])
  have "page_items (word_of_nat n) (word_of_nat sz) xs =
    (if int st \<ge> int (length xs) then Some []
     else go_slice xs (int st) (if int (st + sz) > int (length xs) then int (length xs) else int (st + sz)))"
    unfolding page_items_def Let_def s1 s2 ..
  also have "\<dots> = Some (take sz (drop st xs))"
    by (auto simp: go_slice_def nat_add_distrib)
  finally show ?thesis by (simp add: st_def)
qed

lemma windows_cover: "0 < sz \<Longrightarrow> concat (map (\<lambda>i. take sz (drop (i * sz) xs)) [0..<n]) = take (n * sz) xs"
  by (induction n) (simp_all add: take_add [symmetric] add.commute)

abbreviation page_of :: "ListOptions \<Rightarrow> nat \<Rightarrow> nat \<Rightarrow> ListOptions" where
  "page_of opts n sz \<equiv> opts\<lparr>opt_Page := word_of_nat n, opt_PageSize := word_of_nat sz\<rparr>"

lemma matchesFilter_page: "matchesFilter (page_of opts n sz) = matchesFilter opts"
  by (intro ext, cases opts)
    (simp only: matchesFilter_def visible_def ListOptions.select_convs ListOptions.update_convs)

lemma page_items_subset: "page_items page pageSize xs = Some ys \<Longrightarrow> set ys \<subseteq> set xs"
  unfolding page_items_def go_slice_def Let_def
  by (auto split: if_splits simp del: set_take_subset) (meson in_set_dropD in_set_takeD)+

text \<open>Every page of a reachable cache is a window of the sorted scan.\<close>

lemma rgd_List_window:
  assumes "rgd_inv c" "0 < n" "0 < sz" "n * sz < 2 ^ 63"
  shows "rgd_List c (page_of opts n sz) =
    (let all = sortRGDs (filter (matchesFilter opts) (rgd_All c)) (opt_SortBy opts) (opt_SortOrder opts)
     in Some \<lparr>list_Items = take sz (drop ((n - 1) * sz) all), list_TotalCount = length all,
              list_Page = word_of_nat n, list_PageSize = word_of_nat sz\<rparr>)"
proof -
  have "matching c (page_of opts n sz) = filter (matchesFilter opts) (rgd_All c)"
    using matching_scan [OF assms(1), of "page_of opts n sz"] by (simp only: matchesFilter_page)
  then show ?thesis
    by (simp add: rgd_List_def Let_def page_items_window [OF assms(2-4)])
qed

lemma rgd_List_items:
  assumes "rgd_inv c" "rgd_List c opts = Some l" "r \<in> set (list_Items l)"
  shows "r \<in> set (rgd_All c) \<and> matchesFilter opts r"
proof -
  have "set (list_Items l) \<subseteq> set (sortRGDs (matching c opts) (opt_SortBy opts) (opt_SortOrder opts))"
    using assms(2) by (auto simp: rgd_List_def Let_def dest: page_items_subset [THEN subsetD])
  with assms(3) show ?thesis by (auto simp: sortRGDs_set matching_scan [OF assms(1)])
qed

subsection \<open>Properties\<close>

definition demo_rgd :: "string \<Rightarrow> string list \<Rightarrow> string \<Rightarrow> CatalogRGD" where
  "demo_rgd nm tags project =
     \<lparr>rgd_Name = nm, rgd_Title = nm, rgd_Namespace = [], rgd_Description = [], rgd_Tags = tags,
      rgd_Category = ''db'', rgd_Icon = [], rgd_DocsURL = [], rgd_Organization = [], rgd_Package = [],
      rgd_Labels = (if project = [] then [] else [(RGDProjectLabel, project)]),
      rgd_Annotations = [(CatalogAnnotation, ''true'')], rgd_InstanceCount = 0, rgd_APIVersion = ''v1'',
      rgd_Kind = ''Thing'', rgd_PluralName = [], rgd_IsClusterScoped = False, rgd_Status = ''Active'',
      rgd_LastIssuedRevision = 0, rgd_ExtendsKinds = [], rgd_DependsOnKinds = [], rgd_ProducesKinds = [],
      rgd_AllowedDeploymentModes = [], rgd_CreatedAt = 0, rgd_UpdatedAt = 0, rgd_ResourceVersion = ''1''\<rparr>"

definition cache_ab :: RGDCache where
  "cache_ab = rgd_Set (demo_rgd ''b'' [''SQL''] []) (rgd_Set (demo_rgd ''a'' [''sql''] ''acme'') NewRGDCache)"
definition cache_ba :: RGDCache where
  "cache_ba = rgd_Delete [] ''c'' (rgd_Set (demo_rgd ''a'' [''sql''] ''acme'')
     (rgd_Set (demo_rgd ''c'' [''sql''] []) (rgd_Set (demo_rgd ''b'' [''SQL''] []) NewRGDCache)))"

lemma demo_caches_reachable: "cache_step\<^sup>*\<^sup>* NewRGDCache cache_ab" "cache_step\<^sup>*\<^sup>* NewRGDCache cache_ba"
  unfolding cache_ab_def cache_ba_def
  by (intro reach_Set reach_Delete rtranclp.rtrancl_refl)+

lemma listing_history_independent_aux:
  assumes "cache_step\<^sup>*\<^sup>* NewRGDCache c" "cache_step\<^sup>*\<^sup>* NewRGDCache d"
    and "map_of (rc_rgds c) = map_of (rc_rgds d)"
    and "inj_on (\<lambda>r. to_lower (rgd_key r)) (set (rgd_All c))"
  shows "rgd_List c opts = rgd_List d opts"
proof -
  note inv = rgd_inv_reachable [OF assms(1)] rgd_inv_reachable [OF assms(2)]
  have "mset (rgd_All c) = mset (rgd_All d)"
    using same_entries [OF inv assms(3)] by (simp add: rgd_All_def)
  then have m: "mset (matching c opts) = mset (matching d opts)"
    by (simp add: matching_scan inv)
  have "inj_on (\<lambda>r. to_lower (rgd_key r)) (set (matching c opts))"
    using assms(4) by (rule inj_on_subset) (auto simp: matching_scan inv)
  from sortRGDs_unique [OF m this] show ?thesis unfolding rgd_List_def by simp
qed

text \<open>
  C25: the indexes of the RGD cache are invisible. Whatever sequence of \<open>Set\<close>, \<open>Delete\<close> and \<open>Clear\<close>
  built two caches, when they hold the same definitions (whose keys differ when lowered) every listing
  of the one is the listing of the other, page, order and total included, although each goes through
  its own inverted indexes and its own iteration order; and the total of a listing counts exactly the
  stored definitions that pass the filter.
\<close>

theorem listing_depends_on_contents_only:
  assumes "cache_step\<^sup>*\<^sup>* NewRGDCache c" "cache_step\<^sup>*\<^sup>* NewRGDCache d"
    and "map_of (rc_rgds c) = map_of (rc_rgds d)"
    and "inj_on (\<lambda>r. to_lower (rgd_key r)) (set (rgd_All c))"
  shows "rgd_List c opts = rgd_List d opts \<and>
    (\<forall>l. rgd_List c opts = Some l \<longrightarrow> list_TotalCount l = length (filter (matchesFilter opts) (rgd_All c)))"
proof -
  have "rgd_List c opts = rgd_List d opts" by (rule listing_history_independent_aux [OF assms])
  have "length (sortRGDs (matching c opts) (opt_SortBy opts) (opt_SortOrder opts)) = length (filter (matchesFilter opts) (rgd_All c))"
    using sortRGDs_mset [of "matching c opts"] by (metis mset_eq_length matching_scan rgd_inv_reachable assms(1))
  then have "\<forall>l. rgd_List c opts = Some l \<longrightarrow> list_TotalCount l = length (filter (matchesFilter opts) (rgd_All c))"
    by (auto simp: rgd_List_def Let_def)
  with \<open>rgd_List c opts = rgd_List d opts\<close> show ?thesis by (rule conjI)
qed

lemma demo_caches_same: "map_of (rc_rgds cache_ab) = map_of (rc_rgds cache_ba)"
proof -
  have "rc_rgds cache_ab = [(''/a'', demo_rgd ''a'' [''sql''] ''acme''), (''/b'', demo_rgd ''b'' [''SQL''] [])]"
    "rc_rgds cache_ba = [(''/b'', demo_rgd ''b'' [''SQL''] []), (''/a'', demo_rgd ''a'' [''sql''] ''acme'')]"
    by code_simp+
  then show ?thesis by auto
qed

lemma demo_caches_distinct: "inj_on (\<lambda>r. to_lower (rgd_key r)) (set (rgd_All cache_ab))"
proof -
  have "distinct (map (\<lambda>r. to_lower (rgd_key r)) (rgd_All cache_ab))" by code_simp
  then show ?thesis by (simp add: distinct_map)
qed

lemma listing_depends_on_contents_only_witness:
  "rgd_List cache_ab (DefaultListOptions\<lparr>opt_Tags := [''sql'']\<rparr>) =
   rgd_List cache_ba (DefaultListOptions\<lparr>opt_Tags := [''sql'']\<rparr>)"
  using listing_depends_on_contents_only [OF demo_caches_reachable demo_caches_same demo_caches_distinct]
  by (rule conjunct1)

lemma demo_listing:
  "map_option (\<lambda>l. (map rgd_Name (list_Items l), list_TotalCount l))
     (rgd_List cache_ba (DefaultListOptions\<lparr>opt_Tags := [''sql''], opt_SortOrder := ''desc''\<rparr>)) = Some ([''b'', ''a''], 2)"
  by code_simp



text \<open>
  The handler lets any positive page through. With the largest one the product overflows and the
  start of the slice is negative: the listing panics.
\<close>

lemma page_overflow_panics:
  "rgd_List cache_ab (DefaultListOptions\<lparr>opt_Page := 9223372036854775807\<rparr>) = None"
  by code_simp

text \<open>The handler accepts \<open>sortBy=category\<close>, but the listing is then by name.\<close>

lemma sort_by_category_is_by_name: "sortRGDs rs ''category'' ord = sortRGDs rs ''name'' ord"
proof -
  have "rgd_less ''category'' b = rgd_less ''name'' b" for b by (intro ext) (simp add: rgd_less_def)
  then show ?thesis by (simp add: sortRGDs_def)
qed

end
