(* ===== verification/Catalog_Service.thy ===== *)
theory Catalog_Service
  imports Authorization_Service Rgd_Cache
begin

text \<open>
  \<open>services/catalog_service.go\<close>: the catalog as a user sees it. A request goes through the visibility
  filter of the RGD cache, an optional list cache in Redis, and one authorization question per
  definition, and is paginated afterwards. The service is a record of its optional collaborators; the
  states behind the enforcer and behind Redis are threaded through every operation. A run-time panic
  is \<open>None\<close>.
\<close>

subsection \<open>Data\<close>

datatype service_error = ErrResourceNotFound | ErrForbidden | ErrServiceUnavailable

record RGDFilters =
  rf_Namespace :: string
  rf_Category :: string
  rf_Tags :: "string list"
  rf_ExtendsKind :: string
  rf_Search :: string
  rf_DependsOnKind :: string
  rf_ProducesKind :: string
  rf_ProducesGroup :: string
  rf_Status :: string
  rf_Page :: "64 word"
  rf_PageSize :: "64 word"
  rf_SortBy :: string
  rf_SortOrder :: string

definition DefaultRGDFilters :: RGDFilters where
  "DefaultRGDFilters =
     \<lparr>rf_Namespace = [], rf_Category = [], rf_Tags = [], rf_ExtendsKind = [], rf_Search = [], rf_DependsOnKind = [],
      rf_ProducesKind = [], rf_ProducesGroup = [], rf_Status = [], rf_Page = 1, rf_PageSize = 20,
      rf_SortBy = ''name'', rf_SortOrder = ''asc''\<rparr>"

text \<open>\<open>RGDResponse\<close> without secret references; instants stay numbers until they are printed.\<close>

record RGDResponse =
  resp_Name :: string
  resp_Title :: string
  resp_Namespace :: string
  resp_Description :: string
  resp_Tags :: "string list"
  resp_Category :: string
  resp_Icon :: string
  resp_DocsURL :: string
  resp_Labels :: "(string \<times> string) list"
  resp_Instances :: int
  resp_APIVersion :: string
  resp_Kind :: string
  resp_ExtendsKinds :: "string list"
  resp_Status :: string
  resp_DependsOnKinds :: "string list"
  resp_ProducesKinds :: "GVKRef list"
  resp_AllowedDeploymentModes :: "string list"
  resp_IsClusterScoped :: bool
  resp_CreatedAt :: int
  resp_UpdatedAt :: int

definition ToRGDResponse :: "CatalogRGD \<Rightarrow> int \<Rightarrow> RGDResponse" where
  "ToRGDResponse rgd instanceCount =
     \<lparr>resp_Name = rgd_Name rgd, resp_Title = rgd_Title rgd, resp_Namespace = rgd_Namespace rgd,
      resp_Description = rgd_Description rgd, resp_Tags = rgd_Tags rgd, resp_Category = rgd_Category rgd,
      resp_Icon = rgd_Icon rgd, resp_DocsURL = rgd_DocsURL rgd, resp_Labels = rgd_Labels rgd,
      resp_Instances = instanceCount, resp_APIVersion = rgd_APIVersion rgd, resp_Kind = rgd_Kind rgd,
      resp_ExtendsKinds = rgd_ExtendsKinds rgd, resp_Status = rgd_Status rgd,
      resp_DependsOnKinds = rgd_DependsOnKinds rgd, resp_ProducesKinds = rgd_ProducesKinds rgd,
      resp_AllowedDeploymentModes = rgd_AllowedDeploymentModes rgd, resp_IsClusterScoped = rgd_IsClusterScoped rgd,
      resp_CreatedAt = rgd_CreatedAt rgd, resp_UpdatedAt = rgd_UpdatedAt rgd\<rparr>"

record ListRGDsResult =
  lr_Items :: "RGDResponse list"
  lr_TotalCount :: nat
  lr_Page :: "64 word"
  lr_PageSize :: "64 word"

record RGDFilterOptions =
  fo_Projects :: "string list"
  fo_Tags :: "string list"
  fo_Categories :: "string list"

subsection \<open>Collaborators\<close>

record rgd_provider =
  pv_ListRGDs :: "ListOptions \<Rightarrow> CatalogRGDList option"
  pv_GetRGD :: "string \<Rightarrow> string \<Rightarrow> CatalogRGD option"
  pv_GetRGDByName :: "string \<Rightarrow> CatalogRGD option"

text \<open>The watcher answers from its cache.\<close>

definition cache_provider :: "RGDCache \<Rightarrow> rgd_provider" where
  "cache_provider c = \<lparr>pv_ListRGDs = rgd_List c, pv_GetRGD = rgd_Get c, pv_GetRGDByName = GetRGDByName c\<rparr>"

text \<open>
  What the service asks of Redis: the value under a key when it is there and can be decoded, and the
  state after an attempt to store an encoded value.
\<close>

record 'r redis_values =
  rv_GetList :: "string \<Rightarrow> 'r \<Rightarrow> CatalogRGDList option"
  rv_SetList :: "string \<Rightarrow> CatalogRGDList \<Rightarrow> 'r \<Rightarrow> 'r"
  rv_GetFilters :: "string \<Rightarrow> 'r \<Rightarrow> RGDFilterOptions option"
  rv_SetFilters :: "string \<Rightarrow> RGDFilterOptions \<Rightarrow> 'r \<Rightarrow> 'r"

record ('p, 'r) CatalogService =
  cs_rgdProvider :: "rgd_provider option"
  cs_instanceCounter :: "(string \<Rightarrow> string \<Rightarrow> string list \<Rightarrow> int) option"
  cs_policyEnforcer :: "'p enforcer_ops option"
  cs_redisClient :: "'r redis_values option"
  cs_organizationFilter :: string

subsection \<open>Options and cache keys\<close>

definition set_str :: "string \<Rightarrow> string \<Rightarrow> string" where
  "set_str new old = (if new \<noteq> [] then new else old)"

definition set_pos :: "64 word \<Rightarrow> 64 word \<Rightarrow> 64 word" where
  "set_pos new old = (if sint new > 0 then new else old)"

definition filtersToListOptions :: "RGDFilters \<Rightarrow> ListOptions" where
  "filtersToListOptions f =
     (let d = DefaultListOptions
      in d\<lparr>opt_Namespace := set_str (rf_Namespace f) (opt_Namespace d),
           opt_Category := set_str (rf_Category f) (opt_Category d),
           opt_ExtendsKind := set_str (rf_ExtendsKind f) (opt_ExtendsKind d),
           opt_Tags := (if length (rf_Tags f) > 0 then rf_Tags f else opt_Tags d),
           opt_Search := set_str (rf_Search f) (opt_Search d),
           opt_DependsOnKind := set_str (rf_DependsOnKind f) (opt_DependsOnKind d),
           opt_ProducesKind := set_str (rf_ProducesKind f) (opt_ProducesKind d),
           opt_ProducesGroup := set_str (rf_ProducesGroup f) (opt_ProducesGroup d),
           opt_Status := set_str (rf_Status f) (opt_Status d),
           opt_Page := set_pos (rf_Page f) (opt_Page d),
           opt_PageSize := set_pos (rf_PageSize f) (opt_PageSize d),
           opt_SortBy := set_str (rf_SortBy f) (opt_SortBy d),
           opt_SortOrder := set_str (rf_SortOrder f) (opt_SortOrder d)\<rparr>)"

text \<open>The verbs \<open>%d\<close> and \<open>%t\<close>.\<close>

fun show_nat :: "nat \<Rightarrow> string" where
  "show_nat n = (if n < 10 then [char_of (48 + n)] else show_nat (n div 10) @ [char_of (48 + n mod 10)])"

declare show_nat.simps [simp del]

definition show_int :: "int \<Rightarrow> string" where
  "show_int i = (if i < 0 then CHR ''-'' # show_nat (nat (- i)) else show_nat (nat i))"

definition show_bool :: "bool \<Rightarrow> string" where
  "show_bool b = (if b then ''true'' else ''false'')"

definition listCacheKey :: "ListOptions \<Rightarrow> string" where
  "listCacheKey opts =
     ''rgd:list:org='' @ opt_Organization opts @ '':ns='' @ opt_Namespace opts @ '':cat='' @ opt_Category opts
     @ '':tags='' @ join_on '','' (sort (opt_Tags opts)) @ '':ek='' @ opt_ExtendsKind opts
     @ '':search='' @ opt_Search opts @ '':dok='' @ opt_DependsOnKind opts @ '':pk='' @ opt_ProducesKind opts
     @ '':pg='' @ opt_ProducesGroup opts @ '':projects='' @ join_on '','' (sort (opt_Projects opts))
     @ '':public='' @ show_bool (opt_IncludePublic opts) @ '':status='' @ opt_Status opts
     @ '':page='' @ show_int (sint (opt_Page opts)) @ '':size='' @ show_int (sint (opt_PageSize opts))
     @ '':sort='' @ opt_SortBy opts @ '':'' @ opt_SortOrder opts"

definition filtersCacheKey :: "('p, 'r) CatalogService \<Rightarrow> string list \<Rightarrow> bool \<Rightarrow> string" where
  "filtersCacheKey svc projects includePublic =
     ''rgd:filters:org='' @ cs_organizationFilter svc @ '':projects='' @ join_on '','' (sort projects)
     @ '':public='' @ show_bool includePublic"

subsection \<open>Access to one definition\<close>

definition canAccessRGD ::
  "('p, 'r) CatalogService \<Rightarrow> UserAuthContext option \<Rightarrow> CatalogRGD \<Rightarrow> 'p \<Rightarrow> bool \<times> 'p" where
  "canAccessRGD svc authCtx rgd p =
     (case authCtx of
        None \<Rightarrow> (False, p)
      | Some a \<Rightarrow>
          (case cs_policyEnforcer svc of
             Some en \<Rightarrow>
               (case FormatRGDObject (rgd_Category rgd) (rgd_Name rgd) of
                  Inl _ \<Rightarrow> (False, p)
                | Inr obj \<Rightarrow>
                    (case en_CanAccessWithGroups en (ua_UserID a) (ua_Groups a) obj ''get'' p of
                       (Inl _, p1) \<Rightarrow> (False, p1)
                     | (Inr allowed, p1) \<Rightarrow> (allowed, p1)))
           | None \<Rightarrow>
               (let projectLabel = map_str (rgd_Labels rgd) RGDProjectLabel
                in (if projectLabel = [] then True
                    else list_ex (\<lambda>project. projectLabel = project) (ua_AccessibleProjects a), p))))"

definition getFilteredInstanceCount ::
  "('p, 'r) CatalogService \<Rightarrow> UserAuthContext option \<Rightarrow> CatalogRGD \<Rightarrow> int" where
  "getFilteredInstanceCount svc authCtx rgd =
     (case cs_instanceCounter svc of
        None \<Rightarrow> rgd_InstanceCount rgd
      | Some counter \<Rightarrow>
          counter (rgd_Namespace rgd) (rgd_Name rgd)
            (case authCtx of None \<Rightarrow> [] | Some a \<Rightarrow> ua_AccessibleNamespaces a))"

subsection \<open>Operations\<close>

definition getRGDsWithCaching ::
  "('p, 'r) CatalogService \<Rightarrow> rgd_provider \<Rightarrow> ListOptions \<Rightarrow> 'r \<Rightarrow> (CatalogRGDList \<times> 'r) option" where
  "getRGDsWithCaching svc provider opts r =
     (case cs_redisClient svc of
        None \<Rightarrow> map_option (\<lambda>result. (result, r)) (pv_ListRGDs provider opts)
      | Some redis \<Rightarrow>
          (let cacheKey = listCacheKey opts
           in case rv_GetList redis cacheKey r of
                Some result \<Rightarrow> Some (result, r)
              | None \<Rightarrow> map_option (\<lambda>result. (result, rv_SetList redis cacheKey result r)) (pv_ListRGDs provider opts)))"

text \<open>The options of a listing: organization, visibility, and everything at once when Casbin filters.\<close>

definition user_options ::
  "('p, 'r) CatalogService \<Rightarrow> UserAuthContext option \<Rightarrow> ListOptions \<Rightarrow> ListOptions" where
  "user_options svc authCtx opts =
     (let opts = opts\<lparr>opt_Organization := cs_organizationFilter svc\<rparr>
      in case authCtx of
           None \<Rightarrow> opts
         | Some a \<Rightarrow> opts\<lparr>opt_Projects := ua_AccessibleProjects a, opt_IncludePublic := True\<rparr>)"

definition fetch_all :: "ListOptions \<Rightarrow> ListOptions" where
  "fetch_all opts = opts\<lparr>opt_Page := 1, opt_PageSize := 10000\<rparr>"

definition ListRGDs ::
  "('p, 'r) CatalogService \<Rightarrow> UserAuthContext option \<Rightarrow> RGDFilters \<Rightarrow> 'p \<Rightarrow> 'r \<Rightarrow>
   ((service_error + ListRGDsResult) \<times> 'p \<times> 'r) option" where
  "ListRGDs svc authCtx filters p r =
     (case cs_rgdProvider svc of
        None \<Rightarrow> Some (Inl ErrServiceUnavailable, p, r)
      | Some provider \<Rightarrow>
          (let requested = filtersToListOptions filters;
               enforced = (cs_policyEnforcer svc \<noteq> None \<and> authCtx \<noteq> None);
               opts = user_options svc authCtx requested;
               opts = (if enforced then fetch_all opts else opts)
           in case getRGDsWithCaching svc provider opts r of
                None \<Rightarrow> None
              | Some (result, r1) \<Rightarrow>
                  (let (filteredItems, p1) =
                         (if enforced then filter_st (canAccessRGD svc authCtx) (list_Items result) p
                          else (list_Items result, p));
                       respond = (\<lambda>totalCount page pageSize items.
                         (Inr \<lparr>lr_Items = map (\<lambda>rgd. ToRGDResponse rgd (getFilteredInstanceCount svc authCtx rgd)) items,
                               lr_TotalCount = totalCount, lr_Page = page, lr_PageSize = pageSize\<rparr>, p1, r1))
                   in if enforced
                      then map_option
                             (respond (length filteredItems) (opt_Page requested) (opt_PageSize requested))
                             (page_items (opt_Page requested) (opt_PageSize requested) filteredItems)
                      else Some (respond (list_TotalCount result) (list_Page result) (list_PageSize result) filteredItems))))"

definition cs_GetRGD ::
  "('p, 'r) CatalogService \<Rightarrow> UserAuthContext option \<Rightarrow> string \<Rightarrow> string \<Rightarrow> 'p \<Rightarrow> (service_error + RGDResponse) \<times> 'p" where
  "cs_GetRGD svc authCtx name namespace p =
     (case cs_rgdProvider svc of
        None \<Rightarrow> (Inl ErrServiceUnavailable, p)
      | Some provider \<Rightarrow>
          (case (if namespace \<noteq> [] then pv_GetRGD provider namespace name else pv_GetRGDByName provider name) of
             None \<Rightarrow> (Inl ErrResourceNotFound, p)
           | Some rgd \<Rightarrow>
               (if cs_organizationFilter svc \<noteq> [] \<and> rgd_Organization rgd \<noteq> [] \<and>
                   rgd_Organization rgd \<noteq> cs_organizationFilter svc then (Inl ErrResourceNotFound, p)
                else (let (accessible, p1) = (if authCtx \<noteq> None then canAccessRGD svc authCtx rgd p else (True, p))
                      in if \<not> accessible then (Inl ErrForbidden, p1)
                         else (Inr (ToRGDResponse rgd (getFilteredInstanceCount svc authCtx rgd)), p1)))))"

definition GetCount ::
  "('p, 'r) CatalogService \<Rightarrow> UserAuthContext option \<Rightarrow> 'p \<Rightarrow> ((service_error + nat) \<times> 'p) option" where
  "GetCount svc authCtx p =
     (case cs_rgdProvider svc of
        None \<Rightarrow> Some (Inl ErrServiceUnavailable, p)
      | Some provider \<Rightarrow>
          (let blank = DefaultListOptions\<lparr>opt_SortBy := [], opt_SortOrder := [], opt_Page := 1,
                 opt_PageSize := (if cs_policyEnforcer svc \<noteq> None then 10000 else 1)\<rparr>
           in case pv_ListRGDs provider (user_options svc authCtx blank) of
                None \<Rightarrow> None
              | Some result \<Rightarrow>
                  (if cs_policyEnforcer svc \<noteq> None \<and> authCtx \<noteq> None
                   then (case filter_st (canAccessRGD svc authCtx) (list_Items result) p of
                           (items, p1) \<Rightarrow> Some (Inr (length items), p1))
                   else Some (Inr (list_TotalCount result), p))))"

text \<open>\<open>collection.SortedKeys\<close> of the set of the values of a list.\<close>

definition SortedKeys :: "string list \<Rightarrow> string list" where
  "SortedKeys xs = sort (remdups xs)"

definition filter_options :: "CatalogRGD list \<Rightarrow> RGDFilterOptions" where
  "filter_options rgds =
     \<lparr>fo_Projects = SortedKeys (filter (\<lambda>p. p \<noteq> []) (map (\<lambda>r. map_str (rgd_Labels r) RGDProjectLabel) rgds)),
      fo_Tags = SortedKeys (filter (\<lambda>t. t \<noteq> []) (concat (map rgd_Tags rgds))),
      fo_Categories = SortedKeys (filter (\<lambda>c. c \<noteq> []) (map rgd_Category rgds))\<rparr>"

definition GetFilters ::
  "('p, 'r) CatalogService \<Rightarrow> UserAuthContext option \<Rightarrow> 'p \<Rightarrow> 'r \<Rightarrow>
   ((service_error + RGDFilterOptions) \<times> 'p \<times> 'r) option" where
  "GetFilters svc authCtx p r =
     (case cs_rgdProvider svc of
        None \<Rightarrow> Some (Inl ErrServiceUnavailable, p, r)
      | Some provider \<Rightarrow>
          (let accessibleProjects = (case authCtx of None \<Rightarrow> [] | Some a \<Rightarrow> ua_AccessibleProjects a);
               cacheKey = filtersCacheKey svc accessibleProjects True;
               shared = (if cs_policyEnforcer svc = None then cs_redisClient svc else None)
           in case (case shared of None \<Rightarrow> None | Some redis \<Rightarrow> rv_GetFilters redis cacheKey r) of
                Some opts \<Rightarrow> Some (Inr opts, p, r)
              | None \<Rightarrow>
                  (let opts = DefaultListOptions\<lparr>opt_SortBy := [], opt_SortOrder := [],
                         opt_Organization := cs_organizationFilter svc, opt_Projects := accessibleProjects,
                         opt_IncludePublic := True, opt_Page := 1, opt_PageSize := 10000\<rparr>
                   in case pv_ListRGDs provider opts of
                        None \<Rightarrow> None
                      | Some result \<Rightarrow>
                          (let (rgds, p1) =
                                 (if cs_policyEnforcer svc \<noteq> None \<and> authCtx \<noteq> None
                                  then filter_st (canAccessRGD svc authCtx) (list_Items result) p
                                  else (list_Items result, p));
                               filterOpts = filter_options rgds
                           in Some (Inr filterOpts, p1,
                                    case shared of None \<Rightarrow> r | Some redis \<Rightarrow> rv_SetFilters redis cacheKey filterOpts r)))))"

subsection \<open>What a listing shows\<close>

text \<open>
  The specification: a definition of the catalog, of the user's organization or of none, public or of
  one of the user's projects, that matches the filters of the request; and the question Casbin is asked.
\<close>

definition catalog_shows :: "string \<Rightarrow> UserAuthContext \<Rightarrow> RGDFilters \<Rightarrow> CatalogRGD \<Rightarrow> bool" where
  "catalog_shows org a f rgd \<longleftrightarrow>
     map_str (rgd_Annotations rgd) CatalogAnnotation = ''true'' \<and>
     (org = [] \<or> rgd_Organization rgd = [] \<or> rgd_Organization rgd = org) \<and>
     (map_str (rgd_Labels rgd) RGDProjectLabel = [] \<or>
      map_str (rgd_Labels rgd) RGDProjectLabel \<in> set (ua_AccessibleProjects a)) \<and>
     matchesFilter (filtersToListOptions f) rgd"

definition rgd_permitted ::
  "('p \<Rightarrow> string \<Rightarrow> string list \<Rightarrow> string \<Rightarrow> string \<Rightarrow> bool) \<Rightarrow> 'p \<Rightarrow> UserAuthContext \<Rightarrow> CatalogRGD \<Rightarrow> bool" where
  "rgd_permitted decide p a rgd =
     (case FormatRGDObject (rgd_Category rgd) (rgd_Name rgd) of
        Inl _ \<Rightarrow> False
      | Inr obj \<Rightarrow> decide p (ua_UserID a) (ua_Groups a) obj ''get'')"

definition shown_rgds ::
  "('p \<Rightarrow> string \<Rightarrow> string list \<Rightarrow> string \<Rightarrow> string \<Rightarrow> bool) \<Rightarrow> 'p \<Rightarrow> string \<Rightarrow> UserAuthContext \<Rightarrow> RGDFilters \<Rightarrow>
   CatalogRGD list \<Rightarrow> CatalogRGD list" where
  "shown_rgds decide p org a f rgds =
     filter (rgd_permitted decide p a)
       (sortRGDs (filter (catalog_shows org a f) rgds)
          (opt_SortBy (filtersToListOptions f)) (opt_SortOrder (filtersToListOptions f)))"

text \<open>The fields the service overrides do not disturb the rest of the filter.\<close>

lemma filtersToListOptions_sel:
  "opt_Organization (filtersToListOptions f) = []" "opt_Projects (filtersToListOptions f) = []"
  "opt_IncludePublic (filtersToListOptions f) = False"
  by (simp_all add: filtersToListOptions_def DefaultListOptions_def Let_def)

lemma matchesFilter_user:
  assumes "opt_Organization opts = []" "opt_Projects opts = []" "\<not> opt_IncludePublic opts"
  shows "matchesFilter (opts\<lparr>opt_Organization := org, opt_Projects := ps, opt_IncludePublic := True\<rparr>) rgd \<longleftrightarrow>
    (org = [] \<or> rgd_Organization rgd = [] \<or> rgd_Organization rgd = org) \<and>
    (map_str (rgd_Labels rgd) RGDProjectLabel = [] \<or> map_str (rgd_Labels rgd) RGDProjectLabel \<in> set ps) \<and>
    matchesFilter opts rgd"
proof -
  let ?o = "opts\<lparr>opt_Organization := org, opt_Projects := ps, opt_IncludePublic := True\<rparr>"
  have v: "visible ?o rgd \<longleftrightarrow> map_str (rgd_Labels rgd) RGDProjectLabel = [] \<or> map_str (rgd_Labels rgd) RGDProjectLabel \<in> set ps"
    by (auto simp: visible_def Let_def)
  have w: "visible opts rgd" using assms by (simp add: visible_def)
  have sel: "opt_Organization ?o = org" "opt_Namespaces ?o = opt_Namespaces opts" "opt_Namespace ?o = opt_Namespace opts"
    "opt_Category ?o = opt_Category opts" "opt_Tags ?o = opt_Tags opts" "opt_ExtendsKind ?o = opt_ExtendsKind opts"
    "opt_DependsOnKind ?o = opt_DependsOnKind opts" "opt_ProducesKind ?o = opt_ProducesKind opts"
    "opt_ProducesGroup ?o = opt_ProducesGroup opts" "opt_Status ?o = opt_Status opts" "opt_Search ?o = opt_Search opts"
    by (cases opts; simp only: ListOptions.select_convs ListOptions.update_convs)+
  show ?thesis
    unfolding matchesFilter_def [of ?o] sel v
    unfolding matchesFilter_def [of opts] assms(1)
    using w by presburger
qed

lemma catalog_shows_iff:
  "matchesFilter (user_options svc (Some a) (filtersToListOptions f)) rgd \<longleftrightarrow>
   catalog_shows (cs_organizationFilter svc) a f rgd"
proof -
  have "user_options svc (Some a) opts = opts\<lparr>opt_Organization := cs_organizationFilter svc,
      opt_Projects := ua_AccessibleProjects a, opt_IncludePublic := True\<rparr>" for opts
    by (cases opts) (simp add: user_options_def)
  moreover have "matchesFilter opts rgd \<Longrightarrow> map_str (rgd_Annotations rgd) CatalogAnnotation = ''true''" for opts
    by (simp only: matchesFilter_def split: if_splits)
  ultimately show ?thesis
    using matchesFilter_user [where opts = "filtersToListOptions f" and org = "cs_organizationFilter svc"
        and ps = "ua_AccessibleProjects a" and rgd = rgd]
    by (auto simp: catalog_shows_def filtersToListOptions_sel)
qed

lemma user_options_sort:
  "opt_SortBy (fetch_all (user_options svc ac opts)) = opt_SortBy opts"
  "opt_SortOrder (fetch_all (user_options svc ac opts)) = opt_SortOrder opts"
  by (cases ac; simp add: user_options_def fetch_all_def Let_def)+

lemma fetch_all_page: "fetch_all opts = page_of opts 1 10000"
  by (simp add: fetch_all_def)

lemma fetch_all_listing:
  assumes "rgd_inv c" "length (rgd_All c) \<le> 10000"
  shows "\<exists>l. rgd_List c (fetch_all (user_options svc (Some a) (filtersToListOptions f))) = Some l \<and>
    list_Items l = sortRGDs (filter (catalog_shows (cs_organizationFilter svc) a f) (rgd_All c))
      (opt_SortBy (filtersToListOptions f)) (opt_SortOrder (filtersToListOptions f))"
proof -
  let ?o = "user_options svc (Some a) (filtersToListOptions f)"
  have m: "matchesFilter ?o = catalog_shows (cs_organizationFilter svc) a f"
    by (intro ext) (rule catalog_shows_iff)
  have sel: "opt_SortBy ?o = opt_SortBy (filtersToListOptions f)" "opt_SortOrder ?o = opt_SortOrder (filtersToListOptions f)"
    by (simp_all add: user_options_def Let_def)
  let ?all = "sortRGDs (filter (catalog_shows (cs_organizationFilter svc) a f) (rgd_All c))
      (opt_SortBy (filtersToListOptions f)) (opt_SortOrder (filtersToListOptions f))"
  have "length ?all = length (filter (catalog_shows (cs_organizationFilter svc) a f) (rgd_All c))"
    by (metis mset_eq_length sortRGDs_mset)
  then have "length ?all \<le> 10000"
    using assms(2) length_filter_le [of "catalog_shows (cs_organizationFilter svc) a f" "rgd_All c"] by linarith
  then show ?thesis
    using rgd_List_window [OF assms(1), of 1 10000 ?o] unfolding fetch_all_page m sel Let_def by simp
qed

lemma set_pos_nat: "0 < n \<Longrightarrow> n < 2 ^ 63 \<Longrightarrow> set_pos (word_of_nat n) old = word_of_nat n"
  by (simp add: set_pos_def sint_uint unat_of_nat uint_nat signed_take_bit_int_eq_self take_bit_nat_eq_self)

text \<open>One question to the enforcer, and the listing of a user, over any enforcer that keeps the contract.\<close>

context authorizer begin

lemma canAccess_step:
  assumes "cs_policyEnforcer svc = Some en" "en_CanAccessWithGroups en = can" "good q"
    and "\<forall>ob. FormatRGDObject (rgd_Category rgd) (rgd_Name rgd) = Inr ob \<longrightarrow> asks q (ua_UserID a) (ua_Groups a) ob ''get''"
  shows "\<exists>q'. canAccessRGD svc (Some a) rgd q = (rgd_permitted decide q a rgd, q') \<and>
    good q' \<and> decide q' = decide q \<and> asks q' = asks q"
proof (cases "FormatRGDObject (rgd_Category rgd) (rgd_Name rgd)")
  case (Inl e)
  then show ?thesis using assms(1,3) by (simp add: canAccessRGD_def rgd_permitted_def)
next
  case (Inr ob)
  then obtain q' where "can (ua_UserID a) (ua_Groups a) ob ''get'' q = (Inr (decide q (ua_UserID a) (ua_Groups a) ob ''get''), q')"
      "good q'" "decide q' = decide q" "asks q' = asks q"
    using can_decides [OF assms(3), of "ua_UserID a" "ua_Groups a" ob "''get''"] assms(4) by auto
  then show ?thesis using assms(1,2) Inr by (simp add: canAccessRGD_def rgd_permitted_def)
qed

lemma canAccess_all:
  assumes "cs_policyEnforcer svc = Some en" "en_CanAccessWithGroups en = can" "good p"
    and "\<forall>rgd \<in> set rgds. \<forall>ob. FormatRGDObject (rgd_Category rgd) (rgd_Name rgd) = Inr ob \<longrightarrow>
      asks p (ua_UserID a) (ua_Groups a) ob ''get''"
  shows "\<exists>p'. filter_st (canAccessRGD svc (Some a)) rgds p = (filter (rgd_permitted decide p a) rgds, p') \<and> good p'"
proof -
  have eq: "rgd_permitted decide q a = rgd_permitted decide p a" if "decide q = decide p" for q
    unfolding rgd_permitted_def [abs_def] that ..
  have step: "\<exists>q'. canAccessRGD svc (Some a) rgd q = (rgd_permitted decide p a rgd, q') \<and>
      good q' \<and> decide q' = decide q \<and> asks q' = asks q"
    if "rgd \<in> set rgds" "good q" "decide q = decide p" "asks q = asks p" for rgd q
  proof -
    have "\<forall>ob. FormatRGDObject (rgd_Category rgd) (rgd_Name rgd) = Inr ob \<longrightarrow> asks q (ua_UserID a) (ua_Groups a) ob ''get''"
      unfolding that(4) using assms(4) that(1) by blast
    from canAccess_step [OF assms(1,2) that(2) this] show ?thesis unfolding eq [OF that(3)] .
  qed
  from filter_asked [where f = "canAccessRGD svc (Some a)", OF assms(3) step] show ?thesis by blast
qed

lemma listing_step:
  assumes "rgd_inv c" "cs_rgdProvider svc = Some (cache_provider c)"
    and "cs_policyEnforcer svc = Some en" "en_CanAccessWithGroups en = can" "cs_redisClient svc = None" "good p"
    and asks: "\<forall>rgd \<in> set (rgd_All c). \<forall>ob. FormatRGDObject (rgd_Category rgd) (rgd_Name rgd) = Inr ob \<longrightarrow>
      asks p (ua_UserID a) (ua_Groups a) ob ''get''"
    and "length (rgd_All c) \<le> 10000"
    and page: "rf_Page f = word_of_nat n" "rf_PageSize f = word_of_nat sz" "0 < n" "0 < sz" "n * sz < 2 ^ 63"
  shows "\<exists>p'. ListRGDs svc (Some a) f p r =
      Some (Inr \<lparr>lr_Items = map (\<lambda>rgd. ToRGDResponse rgd (getFilteredInstanceCount svc (Some a) rgd))
                   (take sz (drop ((n - 1) * sz) (shown_rgds decide p (cs_organizationFilter svc) a f (rgd_All c)))),
                 lr_TotalCount = length (shown_rgds decide p (cs_organizationFilter svc) a f (rgd_All c)),
                 lr_Page = rf_Page f, lr_PageSize = rf_PageSize f\<rparr>, p', r) \<and> good p'"
proof -
  obtain l where l: "rgd_List c (fetch_all (user_options svc (Some a) (filtersToListOptions f))) = Some l"
    "list_Items l = sortRGDs (filter (catalog_shows (cs_organizationFilter svc) a f) (rgd_All c))
      (opt_SortBy (filtersToListOptions f)) (opt_SortOrder (filtersToListOptions f))"
    using fetch_all_listing [OF assms(1) assms(8)] by blast
  have "set (list_Items l) \<subseteq> set (rgd_All c)" unfolding l(2) sortRGDs_set by auto
  then obtain p' where p': "filter_st (canAccessRGD svc (Some a)) (list_Items l) p = (filter (rgd_permitted decide p a) (list_Items l), p')"
      "good p'"
    using canAccess_all [OF assms(3,4,6), of "list_Items l" a] asks by (auto simp: subset_iff)
  have b: "n < 2 ^ 63" "sz < 2 ^ 63"
    using page(3-5) le_less_trans [of n "n * sz"] le_less_trans [of sz "n * sz"] by simp_all
  have pg: "opt_Page (filtersToListOptions f) = rf_Page f" "opt_PageSize (filtersToListOptions f) = rf_PageSize f"
    using set_pos_nat [OF page(3) b(1)] set_pos_nat [OF page(4) b(2)] page(1,2)
    by (simp_all add: filtersToListOptions_def Let_def)
  have sh: "filter (rgd_permitted decide p a) (list_Items l) = shown_rgds decide p (cs_organizationFilter svc) a f (rgd_All c)"
    by (simp add: shown_rgds_def l(2))
  have "getRGDsWithCaching svc (cache_provider c) (fetch_all (user_options svc (Some a) (filtersToListOptions f))) r = Some (l, r)"
    using l(1) assms(5) by (simp add: getRGDsWithCaching_def cache_provider_def)
  then show ?thesis
    using assms(2,3) p'
    by (simp add: ListRGDs_def Let_def sh pg page(1,2) page_items_window [OF page(3-5)])
qed

end

subsection \<open>Properties\<close>

text \<open>
  C27: an authenticated listing shows exactly what the user may see. Over any enforcer that answers by
  its decisions, and a reachable cache of at most 10000 definitions, without Redis: the total is the
  number of definitions that are in the catalog, belong to the organization or to none, are public or
  in one of the user's projects, match the filters and are allowed by Casbin for \<open>get\<close> on
  \<open>rgds/{category}/{name}\<close>; the items are the requested page of their sorted list; an object name that
  cannot be formatted is hidden; and nothing panics while page times size does not overflow.
\<close>

theorem listing_shows_exactly_the_permitted:
  assumes "authorizer can good decide asks" "cache_step\<^sup>*\<^sup>* NewRGDCache c"
    and "cs_rgdProvider svc = Some (cache_provider c)" "cs_policyEnforcer svc = Some en"
    and "en_CanAccessWithGroups en = can" "cs_redisClient svc = None" "good p"
    and "\<forall>rgd \<in> set (rgd_All c). \<forall>ob. FormatRGDObject (rgd_Category rgd) (rgd_Name rgd) = Inr ob \<longrightarrow>
           asks p (ua_UserID a) (ua_Groups a) ob ''get''"
    and "length (rgd_All c) \<le> 10000"
    and "rf_Page f = word_of_nat n" "rf_PageSize f = word_of_nat sz" "0 < n" "0 < sz" "n * sz < 2 ^ 63"
  shows "\<exists>p'. ListRGDs svc (Some a) f p r =
      Some (Inr \<lparr>lr_Items = map (\<lambda>rgd. ToRGDResponse rgd (getFilteredInstanceCount svc (Some a) rgd))
                   (take sz (drop ((n - 1) * sz) (shown_rgds decide p (cs_organizationFilter svc) a f (rgd_All c)))),
                 lr_TotalCount = length (shown_rgds decide p (cs_organizationFilter svc) a f (rgd_All c)),
                 lr_Page = rf_Page f, lr_PageSize = rf_PageSize f\<rparr>, p', r) \<and>
      good p' \<and>
      set (shown_rgds decide p (cs_organizationFilter svc) a f (rgd_All c)) =
        {rgd \<in> set (rgd_All c). catalog_shows (cs_organizationFilter svc) a f rgd \<and> rgd_permitted decide p a rgd}"
proof -
  have inv: "rgd_inv c" by (rule rgd_inv_reachable [OF assms(2)])
  have set: "set (shown_rgds decide p (cs_organizationFilter svc) a f (rgd_All c)) =
      {rgd \<in> set (rgd_All c). catalog_shows (cs_organizationFilter svc) a f rgd \<and> rgd_permitted decide p a rgd}"
    by (auto simp: shown_rgds_def sortRGDs_set)
  have "\<exists>p'. ListRGDs svc (Some a) f p r =
      Some (Inr \<lparr>lr_Items = map (\<lambda>rgd. ToRGDResponse rgd (getFilteredInstanceCount svc (Some a) rgd))
                   (take sz (drop ((n - 1) * sz) (shown_rgds decide p (cs_organizationFilter svc) a f (rgd_All c)))),
                 lr_TotalCount = length (shown_rgds decide p (cs_organizationFilter svc) a f (rgd_All c)),
                 lr_Page = rf_Page f, lr_PageSize = rf_PageSize f\<rparr>, p', r) \<and> good p'"
    by (rule authorizer.listing_step [OF assms(1) inv]) (fact assms)+
  with set show ?thesis by blast
qed

definition demo_pe :: "(mem_store, inMemoryCache) policyEnforcer" where
  "demo_pe =
     \<lparr>pe_engine = \<lparr>mem_p = [[''user:al'', ''rgds/db/*'', ''get'', ''allow'']], mem_g = [], mem_g2 = []\<rparr>,
      pe_loaded = [], pe_cache = Some NewAuthorizationCache, pe_cacheEnabled = True,
      pe_cacheTTL = 300, pe_PolicyReloads = 0, pe_BackgroundSyncs = 0, pe_WatcherRestarts = 0\<rparr>"

definition demo_enforcer :: "(mem_store, inMemoryCache) policyEnforcer enforcer_ops" where
  "demo_enforcer =
     \<lparr>en_CanAccessWithGroups = CanAccessWithGroups mem_lib memory_cache_ops None 0,
      en_GetAccessibleProjects = GetAccessibleProjects mem_lib memory_cache_ops None 0\<rparr>"

definition demo_catalog :: "RGDCache \<Rightarrow> ((mem_store, inMemoryCache) policyEnforcer, unit) CatalogService" where
  "demo_catalog c =
     \<lparr>cs_rgdProvider = Some (cache_provider c), cs_instanceCounter = None, cs_policyEnforcer = Some demo_enforcer,
      cs_redisClient = None, cs_organizationFilter = []\<rparr>"

definition demo_user :: "string list \<Rightarrow> UserAuthContext" where
  "demo_user projects =
     \<lparr>ua_UserID = ''user:al'', ua_Groups = [], ua_Roles = [], ua_AccessibleProjects = projects, ua_AccessibleNamespaces = []\<rparr>"

lemma demo_pe_coherent: "pe_coherent mem_lib cache_inv cache_look now demo_pe"
  by (simp add: pe_coherent_def demo_pe_def NewAuthorizationCache_def NewAuthorizationCacheWithTTL_def
      cache_inv_def cache_look_def)

lemma demo_asks:
  "\<forall>rgd \<in> set (rgd_All cache_ab). \<forall>ob. FormatRGDObject (rgd_Category rgd) (rgd_Name rgd) = Inr ob \<longrightarrow>
     clean_request mem_lib None demo_pe (ua_UserID (demo_user ps)) (ua_Groups (demo_user ps)) ob ''get''"
proof -
  have a: "rgd_All cache_ab = [demo_rgd ''a'' [''sql''] ''acme'', demo_rgd ''b'' [''SQL''] []]" by code_simp
  have f: "FormatRGDObject (rgd_Category (demo_rgd nm t pr)) (rgd_Name (demo_rgd nm t pr)) = FormatRGDObject ''db'' nm" for nm t pr
    by (simp add: demo_rgd_def)
  have o: "FormatRGDObject ''db'' ''a'' = Inr ''rgds/db/a''" "FormatRGDObject ''db'' ''b'' = Inr ''rgds/db/b''"
    by code_simp+
  have s: "access_subjects mem_lib (pe_engine demo_pe) ''user:al'' [] = [''user:al'']"
    "objectsToCheck mem_lib None [] ''rgds/db/a'' ''get'' (pe_engine demo_pe) = [''rgds/db/a'']"
    "objectsToCheck mem_lib None [] ''rgds/db/b'' ''get'' (pe_engine demo_pe) = [''rgds/db/b'']"
    by code_simp+
  show ?thesis unfolding a by (auto simp: f o clean_request_def demo_user_def s clean_def)
qed

theorem listing_shows_exactly_the_permitted_witness:
  "\<exists>p'. ListRGDs (demo_catalog cache_ab) (Some (demo_user [])) DefaultRGDFilters demo_pe () =
      Some (Inr \<lparr>lr_Items = [ToRGDResponse (demo_rgd ''b'' [''SQL''] []) 0], lr_TotalCount = 1,
                 lr_Page = 1, lr_PageSize = 20\<rparr>, p', ())"
proof -
  have *: "shown_rgds (granted_by mem_lib None) demo_pe [] (demo_user []) DefaultRGDFilters (rgd_All cache_ab) =
      [demo_rgd ''b'' [''SQL''] []]" by code_simp
  have l: "length (rgd_All cache_ab) \<le> 10000" by code_simp
  have sel: "cs_rgdProvider (demo_catalog cache_ab) = Some (cache_provider cache_ab)"
    "cs_policyEnforcer (demo_catalog cache_ab) = Some demo_enforcer"
    "en_CanAccessWithGroups demo_enforcer = CanAccessWithGroups mem_lib memory_cache_ops None 0"
    "cs_redisClient (demo_catalog cache_ab) = None"
    by (simp_all add: demo_catalog_def demo_enforcer_def)
  have pg: "rf_Page DefaultRGDFilters = word_of_nat 1" "rf_PageSize DefaultRGDFilters = word_of_nat 20"
    "0 < (1::nat)" "0 < (20::nat)" "1 * 20 < (2::nat) ^ 63"
    by (simp_all add: DefaultRGDFilters_def)
  have o: "cs_organizationFilter (demo_catalog cache_ab) = []"
    "map (\<lambda>rgd. ToRGDResponse rgd (getFilteredInstanceCount (demo_catalog cache_ab) (Some (demo_user [])) rgd)) [demo_rgd ''b'' [''SQL''] []]
       = [ToRGDResponse (demo_rgd ''b'' [''SQL''] []) 0]"
    by (simp_all add: demo_catalog_def getFilteredInstanceCount_def demo_rgd_def)
  have t: "take 20 (drop ((1 - 1) * 20) [demo_rgd ''b'' [''SQL''] []]) = [demo_rgd ''b'' [''SQL''] []]" by simp
  note T = listing_shows_exactly_the_permitted [where can = "CanAccessWithGroups mem_lib memory_cache_ops None 0" and
      good = "pe_coherent mem_lib cache_inv cache_look 0" and decide = "granted_by mem_lib None" and
      asks = "clean_request mem_lib None" and r = "()", OF mpe.enforcer_is_authorizer demo_caches_reachable(1)]
  have d: "rf_Page DefaultRGDFilters = 1" "rf_PageSize DefaultRGDFilters = 20" "length [demo_rgd ''b'' [''SQL''] []] = 1"
    by (simp_all add: DefaultRGDFilters_def)
  from T [OF sel demo_pe_coherent demo_asks [of "[]"] l pg] show ?thesis
    unfolding o(1) * t o(2) d by blast
qed

text \<open>
  Without an authentication context the listing is not empty, as its comment says, but unfiltered: it
  shows the definitions of every project.
\<close>

lemma unauthenticated_listing_shows_all_projects:
  "map_option (\<lambda>(x, _). case x of Inr res \<Rightarrow> map resp_Name (lr_Items res) | Inl _ \<Rightarrow> [])
     (ListRGDs (demo_catalog cache_ab) None DefaultRGDFilters demo_pe ()) = Some [''a'', ''b'']"
  by code_simp

text \<open>
  A definition of another project, hidden from the listing, is returned when it is asked for by name:
  with an enforcer, \<open>GetRGD\<close> does not look at the project.
\<close>

lemma hidden_definition_is_gettable:
  "map_option (\<lambda>(x, _). case x of Inr res \<Rightarrow> map resp_Name (lr_Items res) | Inl _ \<Rightarrow> [])
     (ListRGDs (demo_catalog cache_ab) (Some (demo_user [''beta''])) DefaultRGDFilters demo_pe ()) = Some [''b''] \<and>
   (case fst (cs_GetRGD (demo_catalog cache_ab) (Some (demo_user [''beta''])) ''a'' [] demo_pe) of
      Inr resp \<Rightarrow> map_str (resp_Labels resp) RGDProjectLabel | Inl _ \<Rightarrow> []) = ''acme''"
  by (rule conjI; code_simp)

text \<open>The fields of a cache key are not delimited: two different requests share an entry.\<close>

lemma list_cache_keys_collide:
  "listCacheKey (DefaultListOptions\<lparr>opt_Search := ''a:dok=b''\<rparr>) =
   listCacheKey (DefaultListOptions\<lparr>opt_Search := ''a'', opt_DependsOnKind := ''b:dok=''\<rparr>)"
  by code_simp

end
