(* ===== verification/Catalog_Cache.thy ===== *)
theory Catalog_Cache
  imports Catalog_Service
begin

text \<open>
  The list cache of \<open>catalog_service.go\<close> in Redis: its key is a concatenation whose fields are not
  escaped. The lemmas show that for requests whose fields hold no delimiter a key determines the
  listing, so that over an unchanged catalog the cache cannot be seen. The promises of the store are a
  locale, interpreted on a map.
\<close>

subsection \<open>Numbers as text\<close>

definition read_nat :: "string \<Rightarrow> nat" where
  "read_nat s = foldl (\<lambda>n c. 10 * n + (of_char c - 48)) 0 s"

lemma read_show_nat: "read_nat (show_nat n) = n"
proof (induction n rule: show_nat.induct)
  case (1 n)
  have d: "of_char (char_of (48 + k) :: char) - 48 = k" if "k < 10" for k :: nat
    using that by (simp add: of_char_of)
  show ?case
    using 1 d [of n] d [of "n mod 10"]
    by (subst show_nat.simps) (simp add: read_nat_def)
qed

lemma show_nat_digits: "set (show_nat n) \<subseteq> {CHR ''0''..CHR ''9''}"
proof (induction n rule: show_nat.induct)
  case (1 n)
  have d: "char_of (48 + k) \<in> {CHR ''0''..CHR ''9''}" if "k < 10" for k :: nat
    using that by (auto simp: less_eq_char_def of_char_of)
  show ?case
    using 1 d [of n] d [of "n mod 10"] by (subst show_nat.simps) auto
qed

lemma show_int_inj: "show_int i = show_int j \<longleftrightarrow> i = j"
proof -
  have m: "show_nat n \<noteq> CHR ''-'' # s" for n s
    using show_nat_digits [of n] by (auto simp: less_eq_char_def)
  have r: "nat i = nat j" if "show_nat (nat i) = show_nat (nat j)" for i j
    using that by (metis read_show_nat)
  show ?thesis
    using r [of i j] r [of "- i" "- j"] m [symmetric] m by (auto simp: show_int_def split: if_splits)
qed

lemma show_int_delim: "CHR '':'' \<notin> set (show_int i)"
  using show_nat_digits [of "nat i"] show_nat_digits [of "nat (- i)"]
  by (auto simp: show_int_def less_eq_char_def)

lemma show_bool_inj: "show_bool a = show_bool b \<longleftrightarrow> a = b"
  by (simp add: show_bool_def)

subsection \<open>Keys of delimited requests\<close>

text \<open>
  No field of free text holds a colon; the lists hold no commas and no empty names; the service never
  sets \<open>Namespaces\<close>.
\<close>

definition delimited_list :: "string list \<Rightarrow> bool" where
  "delimited_list xs \<longleftrightarrow> (\<forall>x \<in> set xs. x \<noteq> [] \<and> CHR '','' \<notin> set x \<and> CHR '':'' \<notin> set x)"

definition delimited :: "ListOptions \<Rightarrow> bool" where
  "delimited opts \<longleftrightarrow>
     list_all (\<lambda>s. CHR '':'' \<notin> set s)
       [opt_Organization opts, opt_Namespace opts, opt_Category opts, opt_ExtendsKind opts, opt_Search opts,
        opt_DependsOnKind opts, opt_ProducesKind opts, opt_ProducesGroup opts, opt_Status opts, opt_SortBy opts,
        opt_SortOrder opts] \<and>
     delimited_list (opt_Tags opts) \<and> delimited_list (opt_Projects opts) \<and> opt_Namespaces opts = []"

definition key_parts :: "ListOptions \<Rightarrow> string list" where
  "key_parts opts =
     [''rgd'', ''list'', ''org='' @ opt_Organization opts, ''ns='' @ opt_Namespace opts, ''cat='' @ opt_Category opts,
      ''tags='' @ join_on '','' (sort (opt_Tags opts)), ''ek='' @ opt_ExtendsKind opts, ''search='' @ opt_Search opts,
      ''dok='' @ opt_DependsOnKind opts, ''pk='' @ opt_ProducesKind opts, ''pg='' @ opt_ProducesGroup opts,
      ''projects='' @ join_on '','' (sort (opt_Projects opts)), ''public='' @ show_bool (opt_IncludePublic opts),
      ''status='' @ opt_Status opts, ''page='' @ show_int (sint (opt_Page opts)),
      ''size='' @ show_int (sint (opt_PageSize opts)), ''sort='' @ opt_SortBy opts, opt_SortOrder opts]"

lemma listCacheKey_parts: "listCacheKey opts = join_on '':'' (key_parts opts)"
  by (simp add: listCacheKey_def key_parts_def)

lemma join_on_set: "set (join_on sep xs) \<subseteq> set sep \<union> \<Union> (set ` set xs)"
  by (induction sep xs rule: join_on.induct) auto

lemma key_parts_delimited:
  assumes "delimited opts" "x \<in> set (key_parts opts)"
  shows "CHR '':'' \<notin> set x"
proof -
  have j: "CHR '':'' \<notin> set (join_on '','' (sort xs))" if "delimited_list xs" for xs
    using that join_on_set [of "'',''" "sort xs"] by (auto simp: delimited_list_def)
  have "list_all (\<lambda>x. CHR '':'' \<notin> set x) (key_parts opts)"
    using assms(1) j show_int_delim by (simp add: key_parts_def delimited_def show_bool_def)
  then show ?thesis using assms(2) by (auto simp: list_all_iff)
qed

lemma join_lists_inj:
  assumes "delimited_list xs" "delimited_list ys" "join_on '','' (sort xs) = join_on '','' (sort ys)"
  shows "mset xs = mset ys"
proof -
  have e: "join_on '','' zs = [] \<longleftrightarrow> zs = []" if "delimited_list zs" for zs
    using that by (cases zs; cases "tl zs") (simp_all add: delimited_list_def)
  have d: "delimited_list (sort xs)" "delimited_list (sort ys)" using assms(1,2) by (simp_all add: delimited_list_def)
  have "sort xs = sort ys"
  proof (cases "xs = []")
    case True
    then have "sort ys = []" using e [OF d(2)] assms(3) by simp
    then show ?thesis using True by simp
  next
    case False
    then have "sort xs \<noteq> []" by (metis length_0_conv length_sort)
    moreover from this have "sort ys \<noteq> []" using e [OF d(1)] e [OF d(2)] assms(3) by simp
    moreover have "split_on (CHR '','') (join_on '','' zs) = zs" if "zs \<noteq> []" "delimited_list zs" for zs
      by (rule split_join_on [OF that(1)]) (use that(2) in \<open>simp add: delimited_list_def\<close>)
    ultimately show ?thesis using d assms(3) by metis
  qed
  then show ?thesis by (metis mset_sort)
qed

text \<open>Options that differ only in the order of their tags and projects.\<close>

definition same_request :: "ListOptions \<Rightarrow> ListOptions \<Rightarrow> bool" where
  "same_request a b \<longleftrightarrow>
     mset (opt_Tags a) = mset (opt_Tags b) \<and> mset (opt_Projects a) = mset (opt_Projects b) \<and>
     b = a\<lparr>opt_Tags := opt_Tags b, opt_Projects := opt_Projects b\<rparr>"

lemma same_key_same_request:
  assumes "delimited a" "delimited b" "listCacheKey a = listCacheKey b"
  shows "same_request a b"
proof -
  have "key_parts a = key_parts b"
  proof -
    have "split_on (CHR '':'') (join_on '':'' (key_parts o')) = key_parts o'" if "delimited o'" for o'
      by (rule split_join_on) (use key_parts_delimited [OF that] in \<open>auto simp: key_parts_def\<close>)
    then show ?thesis using assms by (metis listCacheKey_parts)
  qed
  then have eq: "opt_Organization a = opt_Organization b" "opt_Namespace a = opt_Namespace b" "opt_Category a = opt_Category b"
    "join_on '','' (sort (opt_Tags a)) = join_on '','' (sort (opt_Tags b))" "opt_ExtendsKind a = opt_ExtendsKind b"
    "opt_Search a = opt_Search b" "opt_DependsOnKind a = opt_DependsOnKind b" "opt_ProducesKind a = opt_ProducesKind b"
    "opt_ProducesGroup a = opt_ProducesGroup b"
    "join_on '','' (sort (opt_Projects a)) = join_on '','' (sort (opt_Projects b))"
    "opt_IncludePublic a = opt_IncludePublic b" "opt_Status a = opt_Status b" "sint (opt_Page a) = sint (opt_Page b)"
    "sint (opt_PageSize a) = sint (opt_PageSize b)" "opt_SortBy a = opt_SortBy b" "opt_SortOrder a = opt_SortOrder b"
    by (simp_all add: key_parts_def show_int_inj show_bool_inj)
  moreover have "opt_Page a = opt_Page b" "opt_PageSize a = opt_PageSize b"
    using eq(13,14) by (simp_all only: signed_word_eqI)
  moreover have "opt_Namespaces a = opt_Namespaces b" using assms(1,2) by (simp add: delimited_def)
  moreover have "mset (opt_Tags a) = mset (opt_Tags b)" "mset (opt_Projects a) = mset (opt_Projects b)"
    using join_lists_inj eq(4,10) assms(1,2) by (simp_all add: delimited_def)
  ultimately show ?thesis
    unfolding same_request_def by (cases a, cases b) simp
qed

lemma same_request_filter:
  assumes "same_request a b"
  shows "matchesFilter a = matchesFilter b"
proof
  fix rgd
  have s: "set (opt_Tags a) = set (opt_Tags b)" "set (opt_Projects a) = set (opt_Projects b)"
    "length (opt_Projects a) = length (opt_Projects b)"
    using assms by (auto simp: same_request_def dest: mset_eq_setD mset_eq_length)
  obtain ts ps where b: "b = a\<lparr>opt_Tags := ts, opt_Projects := ps\<rparr>" using assms by (auto simp: same_request_def)
  have sel: "opt_Organization b = opt_Organization a" "opt_Namespaces b = opt_Namespaces a" "opt_Namespace b = opt_Namespace a"
    "opt_Category b = opt_Category a" "opt_ExtendsKind b = opt_ExtendsKind a"
    "opt_DependsOnKind b = opt_DependsOnKind a" "opt_ProducesKind b = opt_ProducesKind a"
    "opt_ProducesGroup b = opt_ProducesGroup a" "opt_Status b = opt_Status a" "opt_Search b = opt_Search a"
    "opt_IncludePublic b = opt_IncludePublic a"
    unfolding b by (cases a; simp only: ListOptions.select_convs ListOptions.update_convs)+
  have v: "visible a rgd = visible b rgd" unfolding visible_def sel s(2,3) ..
  have t: "list_all (\<lambda>t. to_lower t \<in> set (map to_lower (rgd_Tags rgd))) (opt_Tags a) =
    list_all (\<lambda>t. to_lower t \<in> set (map to_lower (rgd_Tags rgd))) (opt_Tags b)"
    unfolding list_all_iff s(1) ..
  show "matchesFilter a rgd = matchesFilter b rgd"
    unfolding matchesFilter_def sel v t ..
qed

lemma same_request_listing:
  assumes "rgd_inv c" "same_request a b"
  shows "rgd_List c a = rgd_List c b"
proof -
  have "matching c a = matching c b"
    by (simp only: matching_scan [OF assms(1)] same_request_filter [OF assms(2)])
  moreover have "opt_SortBy b = opt_SortBy a \<and> opt_SortOrder b = opt_SortOrder a \<and> opt_Page b = opt_Page a \<and>
    opt_PageSize b = opt_PageSize a"
  proof -
    obtain ts ps where "b = a\<lparr>opt_Tags := ts, opt_Projects := ps\<rparr>" using assms(2) by (auto simp: same_request_def)
    then show ?thesis by simp
  qed
  ultimately show ?thesis by (simp add: rgd_List_def)
qed

subsection \<open>The store\<close>

locale list_store =
  fixes get :: "string \<Rightarrow> 'r \<Rightarrow> CatalogRGDList option" and put :: "string \<Rightarrow> CatalogRGDList \<Rightarrow> 'r \<Rightarrow> 'r"
  assumes get_put: "get k (put k' v r) = Some w \<Longrightarrow> (k = k' \<and> w = v) \<or> get k r = Some w"
begin

text \<open>A store is sound for a function of requests when what it holds is what the function returns.\<close>

definition sound :: "('q \<Rightarrow> bool) \<Rightarrow> ('q \<Rightarrow> string) \<Rightarrow> ('q \<Rightarrow> CatalogRGDList option) \<Rightarrow> 'r \<Rightarrow> bool" where
  "sound ok key f r \<longleftrightarrow> (\<forall>q w. ok q \<longrightarrow> get (key q) r = Some w \<longrightarrow> f q = Some w)"

lemma sound_put:
  assumes "sound ok key f r" "ok q" "f q = Some v"
    and "\<And>q'. ok q' \<Longrightarrow> key q' = key q \<Longrightarrow> f q' = f q"
  shows "sound ok key f (put (key q) v r)"
  unfolding sound_def
proof (intro allI impI)
  fix q' w
  assume q': "ok q'" "get (key q') (put (key q) v r) = Some w"
  from get_put [OF q'(2)] show "f q' = Some w"
  proof (elim disjE conjE)
    assume "key q' = key q" "w = v"
    then show ?thesis using assms(4) [OF q'(1)] assms(3) by simp
  next
    assume "get (key q') r = Some w"
    then show ?thesis using assms(1) q'(1) by (simp add: sound_def)
  qed
qed

end

text \<open>Redis as a map, which may also forget.\<close>

definition map_redis :: "(string \<rightharpoonup> CatalogRGDList) redis_values" where
  "map_redis = \<lparr>rv_GetList = (\<lambda>k r. r k), rv_SetList = (\<lambda>k v r. r(k \<mapsto> v)),
                rv_GetFilters = (\<lambda>_ _. None), rv_SetFilters = (\<lambda>_ _ r. r)\<rparr>"

interpretation mr: list_store "rv_GetList map_redis" "rv_SetList map_redis"
  by unfold_locales (auto simp: map_redis_def split: if_splits)

text \<open>A sequence of listings; a request that panics leaves the store as it is.\<close>

fun serve ::
  "('p, 'r) CatalogService \<Rightarrow> rgd_provider \<Rightarrow> ListOptions list \<Rightarrow> 'r \<Rightarrow> CatalogRGDList option list \<times> 'r" where
  "serve svc provider [] r = ([], r)"
| "serve svc provider (opts # rest) r =
     (case getRGDsWithCaching svc provider opts r of
        None \<Rightarrow> (case serve svc provider rest r of (ls, r') \<Rightarrow> (None # ls, r'))
      | Some (l, r1) \<Rightarrow> (case serve svc provider rest r1 of (ls, r') \<Rightarrow> (Some l # ls, r')))"

context list_store begin

lemma cached_listing:
  assumes "rgd_inv c" "cs_redisClient svc = Some redis" "rv_GetList redis = get" "rv_SetList redis = put"
    and "delimited opts" "sound delimited listCacheKey (rgd_List c) r"
  shows "\<exists>r'. getRGDsWithCaching svc (cache_provider c) opts r = map_option (\<lambda>l. (l, r')) (rgd_List c opts) \<and>
    sound delimited listCacheKey (rgd_List c) r'"
proof (cases "get (listCacheKey opts) r")
  case (Some l)
  then have "rgd_List c opts = Some l" using assms(5,6) by (auto simp: sound_def)
  then show ?thesis using Some assms(2-4,6) by (intro exI [of _ r]) (simp add: getRGDsWithCaching_def Let_def)
next
  case None
  show ?thesis
  proof (cases "rgd_List c opts")
    case None': None
    then show ?thesis using None assms(2-4,6)
      by (intro exI [of _ r]) (simp add: getRGDsWithCaching_def Let_def cache_provider_def)
  next
    case (Some l)
    have "sound delimited listCacheKey (rgd_List c) (put (listCacheKey opts) l r)"
    proof (rule sound_put [OF assms(6,5) Some])
      fix q assume "delimited q" "listCacheKey q = listCacheKey opts"
      then show "rgd_List c q = rgd_List c opts"
        using same_key_same_request [OF _ assms(5)] same_request_listing [OF assms(1)] by blast
    qed
    then show ?thesis using None Some assms(2-4)
      by (intro exI [of _ "put (listCacheKey opts) l r"]) (simp add: getRGDsWithCaching_def Let_def cache_provider_def)
  qed
qed

lemma cached_listings:
  assumes "rgd_inv c" "cs_redisClient svc = Some redis" "rv_GetList redis = get" "rv_SetList redis = put"
    and "\<forall>opts \<in> set requests. delimited opts" "sound delimited listCacheKey (rgd_List c) r"
  shows "fst (serve svc (cache_provider c) requests r) = map (rgd_List c) requests"
  using assms(5,6)
proof (induction requests arbitrary: r)
  case Nil
  then show ?case by simp
next
  case (Cons opts requests)
  obtain r' where r': "getRGDsWithCaching svc (cache_provider c) opts r = map_option (\<lambda>l. (l, r')) (rgd_List c opts)"
      "sound delimited listCacheKey (rgd_List c) r'"
    using cached_listing [OF assms(1-4) _ Cons.prems(2)] Cons.prems(1) by auto
  then show ?case
    using Cons.IH [OF _ Cons.prems(2)] Cons.IH [OF _ r'(2)] Cons.prems(1)
    by (cases "rgd_List c opts") (simp_all add: case_prod_beta)
qed

end

subsection \<open>Properties\<close>


definition redis_catalog :: "(unit, string \<rightharpoonup> CatalogRGDList) CatalogService" where
  "redis_catalog =
     \<lparr>cs_rgdProvider = Some (cache_provider cache_ab), cs_instanceCounter = None, cs_policyEnforcer = None,
      cs_redisClient = Some map_redis, cs_organizationFilter = []\<rparr>"


end
