(* ===== verification/Redis_Client.thy ===== *)
theory Redis_Client
  imports Knodex_Prelude "HOL-Library.AList"
begin

text \<open>
  What the program asks of a Redis server through \<open>go-redis\<close>: the commands it sends as a record of
  operations, the documented behaviour it relies on as the locale \<open>redis_server\<close>, and an in-memory
  server on which the locale is interpreted. Commands fail when the server cannot be reached.
\<close>

subsection \<open>Commands\<close>

datatype redis_err = RedisNil | RedisFailure string

datatype redis_val = RStr string | RSet "string list"

datatype redis_cmd = CDel string | CSAdd string "string list" | CExpire string int

text \<open>
  The first argument of most commands is the time at the server; the cursor of \<open>SCAN\<close> is opaque but
  for 0, the state type \<open>'r\<close> is everything behind the connection.
\<close>

record 'r redis_client =
  rc_Get :: "int \<Rightarrow> string \<Rightarrow> 'r \<Rightarrow> (redis_err + string) \<times> 'r"
  rc_Set :: "int \<Rightarrow> string \<Rightarrow> string \<Rightarrow> int \<Rightarrow> 'r \<Rightarrow> redis_err option \<times> 'r"
  rc_Del :: "string list \<Rightarrow> 'r \<Rightarrow> redis_err option \<times> 'r"
  rc_Scan :: "int \<Rightarrow> nat \<Rightarrow> string \<Rightarrow> nat \<Rightarrow> 'r \<Rightarrow> (redis_err + string list \<times> nat) \<times> 'r"
  rc_SMembers :: "int \<Rightarrow> string \<Rightarrow> 'r \<Rightarrow> (redis_err + string list) \<times> 'r"
  rc_Exec :: "int \<Rightarrow> redis_cmd list \<Rightarrow> 'r \<Rightarrow> redis_err option \<times> 'r"
  rc_Publish :: "string \<Rightarrow> string \<Rightarrow> 'r \<Rightarrow> redis_err option \<times> 'r"
  rc_Ping :: "'r \<Rightarrow> redis_err option \<times> 'r"

text \<open>
  The content of a server: what it answers for a key at a time. \<open>run_cmd\<close> is the effect of a queued
  command at time \<open>t\<close> on it.
\<close>

type_synonym redis_data = "int \<Rightarrow> string \<Rightarrow> redis_val option"

fun run_cmd :: "int \<Rightarrow> redis_cmd \<Rightarrow> redis_data \<Rightarrow> redis_data" where
  "run_cmd t (CDel k) d = (\<lambda>s k'. if k' = k then None else d s k')"
| "run_cmd t (CSAdd k ms) d =
     (\<lambda>s k'. if k' = k
             then (case d t k of
                     Some (RSet xs) \<Rightarrow> (if d s k = None then None else Some (RSet (dedup_from [] (xs @ ms))))
                   | Some (RStr v) \<Rightarrow> d s k
                   | None \<Rightarrow> Some (RSet (dedup_from [] ms)))
             else d s k')"
| "run_cmd t (CExpire k ttl) d = (\<lambda>s k'. if k' = k then (if s \<le> t + ttl then d t k else None) else d s k')"

fun run_cmds :: "int \<Rightarrow> redis_cmd list \<Rightarrow> redis_data \<Rightarrow> redis_data" where
  "run_cmds t [] d = d"
| "run_cmds t (c # cs) d = run_cmds t cs (run_cmd t c d)"

definition glob_special :: "char set" where
  "glob_special = {CHR ''*'', CHR ''?'', CHR ''['', CHR '']'', CHR 0x5C}"

text \<open>
  The promises. \<open>data r t k\<close> is what the server holds under \<open>k\<close> at time \<open>t\<close> if nothing changes,
  \<open>left r c\<close> the keys an iteration that has reached cursor \<open>c\<close> has still to return, \<open>rank\<close> a bound on
  the calls it still needs: a full iteration ends, and returns every key that is there from its start
  to its end, deletions of others in between notwithstanding. A pattern that ends in a star after
  literal characters matches by prefix.
\<close>

locale redis_server =
  fixes rc :: "'r redis_client"
    and up :: "'r \<Rightarrow> bool"
    and data :: "'r \<Rightarrow> redis_data"
    and globs :: "string \<Rightarrow> string \<Rightarrow> bool"
    and rank :: "'r \<Rightarrow> nat \<Rightarrow> nat"
    and left :: "'r \<Rightarrow> nat \<Rightarrow> string set"
  assumes get_str: "up r \<Longrightarrow> data r t k = Some (RStr v) \<Longrightarrow> rc_Get rc t k r = (Inr v, r)"
    and get_none: "up r \<Longrightarrow> data r t k = None \<Longrightarrow> rc_Get rc t k r = (Inl RedisNil, r)"
    and set_ok: "up r \<Longrightarrow> 0 < ttl \<Longrightarrow> \<exists>r'. rc_Set rc t k v ttl r = (None, r') \<and> up r' \<and>
          data r' = (\<lambda>s k'. if k' = k then (if s \<le> t + ttl then Some (RStr v) else None) else data r s k')"
    and del_ok: "up r \<Longrightarrow> \<exists>r'. rc_Del rc ks r = (None, r') \<and> up r' \<and>
          data r' = (\<lambda>s k. if k \<in> set ks then None else data r s k) \<and>
          (\<forall>c. rank r' c \<le> rank r c \<and> left r c \<subseteq> left r' c \<union> set ks)"
    and scan_ok: "up r \<Longrightarrow> 0 < n \<Longrightarrow> \<exists>ks c'. rc_Scan rc t c p n r = (Inr (ks, c'), r) \<and>
          (\<forall>k \<in> set ks. globs p k \<and> data r t k \<noteq> None) \<and>
          (\<forall>k \<in> left r c. globs p k \<and> data r t k \<noteq> None \<longrightarrow> k \<in> set ks \<or> (c' \<noteq> 0 \<and> k \<in> left r c')) \<and>
          (c' \<noteq> 0 \<longrightarrow> rank r c' < rank r c)"
    and scan_start: "up r \<Longrightarrow> data r t k \<noteq> None \<Longrightarrow> k \<in> left r 0"
    and members_set: "up r \<Longrightarrow> data r t k = Some (RSet xs) \<Longrightarrow> rc_SMembers rc t k r = (Inr xs, r)"
    and members_none: "up r \<Longrightarrow> data r t k = None \<Longrightarrow> rc_SMembers rc t k r = (Inr [], r)"
    and exec_ok: "up r \<Longrightarrow> \<exists>r'. rc_Exec rc t cmds r = (None, r') \<and> up r' \<and>
          (\<forall>s \<ge> t. data r' s = run_cmds t cmds (data r) s)"
    and publish_ok: "up r \<Longrightarrow> rc_Publish rc ch msg r = (None, r)"
    and ping_ok: "up r \<Longrightarrow> rc_Ping rc r = (None, r)"
    and fade: "up r \<Longrightarrow> t \<le> t' \<Longrightarrow> data r t' k = None \<or> data r t' k = data r t k"
    and globs_prefix: "set p \<inter> glob_special = {} \<Longrightarrow> globs (p @ ''*'') k \<longleftrightarrow> has_prefix k p"

subsection \<open>An in-memory server\<close>

text \<open>Slots in the order of creation; a deleted key leaves its slot empty. A value has an expiry or none.\<close>

record mem_redis =
  mr_slots :: "(string \<times> (redis_val \<times> int option) option) list"
  mr_reachable :: bool

definition slot_val :: "int \<Rightarrow> (redis_val \<times> int option) option \<Rightarrow> redis_val option" where
  "slot_val t x =
     (case x of
        Some (v, None) \<Rightarrow> Some v
      | Some (v, Some e) \<Rightarrow> if t \<le> e then Some v else None
      | None \<Rightarrow> None)"

definition mr_data :: "mem_redis \<Rightarrow> redis_data" where
  "mr_data r t k = (case map_of (mr_slots r) k of None \<Rightarrow> None | Some x \<Rightarrow> slot_val t x)"

definition mr_put :: "string \<Rightarrow> (redis_val \<times> int option) option \<Rightarrow> mem_redis \<Rightarrow> mem_redis" where
  "mr_put k x r = r\<lparr>mr_slots := AList.update k x (mr_slots r)\<rparr>"

definition mr_drop :: "string \<Rightarrow> mem_redis \<Rightarrow> mem_redis" where
  "mr_drop k r = r\<lparr>mr_slots := map (\<lambda>(k', x). (k', if k' = k then None else x)) (mr_slots r)\<rparr>"

lemma length_dropWhile_less: "length (dropWhile P xs) - Suc 0 + a < Suc (length xs + Suc a)"
proof -
  have "length (dropWhile P xs) \<le> length xs" by (rule length_dropWhile_le)
  then show ?thesis by linarith
qed

text \<open>Glob patterns: literal characters, \<open>?\<close>, \<open>*\<close> and bracketed classes.\<close>

function mr_glob :: "string \<Rightarrow> string \<Rightarrow> bool" where
  "mr_glob [] s = (s = [])"
| "mr_glob (p # ps) s =
     (if p = CHR ''*'' then mr_glob ps s \<or> (if s = [] then False else mr_glob (p # ps) (tl s))
      else if s = [] then False
      else if p = CHR ''?'' then mr_glob ps (tl s)
      else if p = CHR ''['' \<and> CHR '']'' \<in> set ps
        then hd s \<in> set (takeWhile (\<lambda>x. x \<noteq> CHR '']'') ps) \<and> mr_glob (tl (dropWhile (\<lambda>x. x \<noteq> CHR '']'') ps)) (tl s)
      else p = hd s \<and> mr_glob ps (tl s))"
  by pat_completeness auto

termination
  by (relation "measure (\<lambda>(p, s). length p + length s)") (auto simp: neq_Nil_conv length_dropWhile_less length_dropWhile_less [where a = 0, simplified])

declare mr_glob.simps(2) [simp del]

definition mr_scan :: "int \<Rightarrow> nat \<Rightarrow> string \<Rightarrow> nat \<Rightarrow> mem_redis \<Rightarrow> string list \<times> nat" where
  "mr_scan t c p n r =
     (map fst (filter (\<lambda>(k, x). mr_glob p k \<and> slot_val t x \<noteq> None) (take n (drop c (mr_slots r)))),
      if c + n < length (mr_slots r) then c + n else 0)"

fun mr_cmd :: "int \<Rightarrow> redis_cmd \<Rightarrow> mem_redis \<Rightarrow> mem_redis" where
  "mr_cmd t (CDel k) r = mr_drop k r"
| "mr_cmd t (CSAdd k ms) r =
     (case mr_data r t k of
        Some (RSet xs) \<Rightarrow>
          mr_put k (case map_of (mr_slots r) k of
                      Some (Some (_, e)) \<Rightarrow> Some (RSet (dedup_from [] (xs @ ms)), e)
                    | _ \<Rightarrow> None) r
      | Some (RStr v) \<Rightarrow> r
      | None \<Rightarrow> mr_put k (Some (RSet (dedup_from [] ms), None)) r)"
| "mr_cmd t (CExpire k ttl) r =
     (case mr_data r t k of
        Some v \<Rightarrow> mr_put k (Some (v, Some (t + ttl))) r
      | None \<Rightarrow> mr_drop k r)"

fun mr_cmds :: "int \<Rightarrow> redis_cmd list \<Rightarrow> mem_redis \<Rightarrow> mem_redis" where
  "mr_cmds t [] r = r"
| "mr_cmds t (c # cs) r = mr_cmds t cs (mr_cmd t c r)"

abbreviation "unreachable \<equiv> RedisFailure ''connection refused''"

definition memory_redis :: "mem_redis redis_client" where
  "memory_redis =
     \<lparr>rc_Get = (\<lambda>t k r. (if \<not> mr_reachable r then Inl unreachable
          else (case mr_data r t k of Some (RStr v) \<Rightarrow> Inr v | Some (RSet _) \<Rightarrow> Inl (RedisFailure ''WRONGTYPE'')
                | None \<Rightarrow> Inl RedisNil), r)),
      rc_Set = (\<lambda>t k v ttl r. if \<not> mr_reachable r then (Some unreachable, r)
          else (None, mr_put k (Some (RStr v, Some (t + ttl))) r)),
      rc_Del = (\<lambda>ks r. if \<not> mr_reachable r then (Some unreachable, r) else (None, fold mr_drop ks r)),
      rc_Scan = (\<lambda>t c p n r. (if \<not> mr_reachable r then Inl unreachable else Inr (mr_scan t c p n r), r)),
      rc_SMembers = (\<lambda>t k r. (if \<not> mr_reachable r then Inl unreachable
          else (case mr_data r t k of Some (RSet xs) \<Rightarrow> Inr xs | Some (RStr _) \<Rightarrow> Inl (RedisFailure ''WRONGTYPE'')
                | None \<Rightarrow> Inr []), r)),
      rc_Exec = (\<lambda>t cmds r. if \<not> mr_reachable r then (Some unreachable, r) else (None, mr_cmds t cmds r)),
      rc_Publish = (\<lambda>ch msg r. (if \<not> mr_reachable r then Some unreachable else None, r)),
      rc_Ping = (\<lambda>r. (if \<not> mr_reachable r then Some unreachable else None, r))\<rparr>"

definition mr_up :: "mem_redis \<Rightarrow> bool" where
  "mr_up r \<longleftrightarrow> mr_reachable r \<and> distinct (map fst (mr_slots r))"

definition mr_rank :: "mem_redis \<Rightarrow> nat \<Rightarrow> nat" where
  "mr_rank r c = length (mr_slots r) - c"

definition mr_left :: "mem_redis \<Rightarrow> nat \<Rightarrow> string set" where
  "mr_left r c = fst ` set (drop c (mr_slots r))"

lemma mr_data_put: "mr_data (mr_put k x r) s k' = (if k' = k then slot_val s x else mr_data r s k')"
  by (simp add: mr_data_def mr_put_def update_conv')

lemma mr_up_put: "mr_up r \<Longrightarrow> mr_up (mr_put k x r)"
  by (simp add: mr_up_def mr_put_def distinct_update)

lemma mr_data_drop: "mr_data (mr_drop k r) s k' = (if k' = k then None else mr_data r s k')"
proof -
  have "map_of (map (\<lambda>(k', x). (k', if k' = k then None else x)) al) k' =
    (case map_of al k' of None \<Rightarrow> None | Some x \<Rightarrow> Some (if k' = k then None else x))" for al :: "(string \<times> (redis_val \<times> int option) option) list"
    by (induction al) auto
  then show ?thesis by (auto simp: mr_data_def mr_drop_def slot_val_def split: option.splits)
qed

lemma mr_drop_keys: "map fst (mr_slots (mr_drop k r)) = map fst (mr_slots r)"
  by (simp add: mr_drop_def comp_def case_prod_beta)

lemma mr_up_drop: "mr_up r \<Longrightarrow> mr_up (mr_drop k r)"
  using mr_drop_keys [of k r] by (simp add: mr_up_def) (simp add: mr_drop_def)

lemma mr_fold_drop:
  "mr_up r \<Longrightarrow> mr_up (fold mr_drop ks r) \<and>
   mr_data (fold mr_drop ks r) = (\<lambda>s k. if k \<in> set ks then None else mr_data r s k) \<and>
   map fst (mr_slots (fold mr_drop ks r)) = map fst (mr_slots r)"
proof (induction ks arbitrary: r)
  case (Cons k ks)
  show ?case
    using Cons.IH [OF mr_up_drop [OF Cons.prems]] by (auto simp: fun_eq_iff mr_data_drop mr_drop_keys)
qed simp

lemma mr_glob_prefix: "set p \<inter> glob_special = {} \<Longrightarrow> mr_glob (p @ ''*'') s \<longleftrightarrow> has_prefix s p"
proof (induction p arbitrary: s)
  case Nil
  have "mr_glob ''*'' s" by (induction s) (simp_all add: mr_glob.simps(2))
  then show ?case by simp
next
  case (Cons c p)
  then show ?case by (cases s) (auto simp: mr_glob.simps(2) [of c] glob_special_def)
qed

lemma mr_cmd_data:
  assumes "mr_up r" "t \<le> s"
  shows "mr_data (mr_cmd t c r) s = run_cmd t c (mr_data r) s"
proof -
  have const: "mr_data r t k = None \<Longrightarrow> mr_data r s k = None" "mr_data r s k = None \<or> mr_data r s k = mr_data r t k" for k
    using assms(2) by (auto simp: mr_data_def slot_val_def split: option.splits)
  show ?thesis
  proof (cases c)
    case (CDel k)
    then show ?thesis by (auto simp: mr_data_put mr_data_drop fun_eq_iff slot_val_def)
  next
    case (CExpire k ttl)
    then show ?thesis by (auto simp: mr_data_put mr_data_drop fun_eq_iff slot_val_def split: option.splits)
  next
    case (CSAdd k ms)
    show ?thesis
    proof (cases "mr_data r t k")
      case None
      then show ?thesis by (auto simp: CSAdd mr_data_put mr_data_drop fun_eq_iff slot_val_def)
    next
      case (Some v)
      then obtain e where e: "map_of (mr_slots r) k = Some (Some (v, e))"
        by (auto simp: mr_data_def slot_val_def split: option.splits if_splits)
      have ds: "mr_data r s k = slot_val s (Some (v, e))" using e by (simp add: mr_data_def)
      show ?thesis
      proof (cases v)
        case (RStr x)
        then show ?thesis using Some by (simp add: CSAdd fun_eq_iff)
      next
        case (RSet xs)
        have "slot_val s (Some (RSet ys, e)) = (if slot_val s (Some (RSet xs, e)) = None then None else Some (RSet ys))" for ys
          by (cases e) (simp_all add: slot_val_def)
        from this [of "dedup_from [] (xs @ ms)"] show ?thesis using Some e ds RSet by (simp add: CSAdd mr_data_put fun_eq_iff)
      qed
    qed
  qed
qed

lemma mr_cmd_up: "mr_up r \<Longrightarrow> mr_up (mr_cmd t c r)"
  by (cases c) (auto simp: mr_up_put mr_up_drop split: option.splits redis_val.splits)

lemma run_cmd_cong:
  assumes "\<forall>s \<ge> t. d s = d' s" "t \<le> s"
  shows "run_cmd t c d s = run_cmd t c d' s"
proof -
  have e: "d t = d' t" "d s = d' s" using assms by simp_all
  show ?thesis by (cases c) (simp_all only: run_cmd.simps e)
qed

lemma run_cmds_cong: "\<forall>s \<ge> t. d s = d' s \<Longrightarrow> t \<le> s \<Longrightarrow> run_cmds t cs d s = run_cmds t cs d' s"
proof (induction cs arbitrary: d d')
  case (Cons c cs)
  have "\<forall>u \<ge> t. run_cmd t c d u = run_cmd t c d' u"
    using run_cmd_cong [OF Cons.prems(1)] by blast
  then show ?case using Cons.IH Cons.prems(2) by simp
qed simp

lemma mr_cmds_effect: "mr_up r \<Longrightarrow> mr_up (mr_cmds t cs r) \<and> (\<forall>s \<ge> t. mr_data (mr_cmds t cs r) s = run_cmds t cs (mr_data r) s)"
proof (induction cs arbitrary: r)
  case (Cons c cs)
  have "\<forall>u \<ge> t. mr_data (mr_cmd t c r) u = run_cmd t c (mr_data r) u"
    using mr_cmd_data [OF Cons.prems] by blast
  then have "\<forall>s \<ge> t. run_cmds t cs (mr_data (mr_cmd t c r)) s = run_cmds t cs (run_cmd t c (mr_data r)) s"
    using run_cmds_cong by blast
  with Cons.IH [OF mr_cmd_up [OF Cons.prems]] show ?case by simp
qed simp

lemma mr_scan_effect:
  assumes "mr_up r" "0 < n" "mr_scan t c p n r = (ks, c')"
  shows "\<forall>k \<in> set ks. mr_glob p k \<and> mr_data r t k \<noteq> None"
    and "\<forall>k \<in> mr_left r c. mr_glob p k \<and> mr_data r t k \<noteq> None \<longrightarrow> k \<in> set ks \<or> (c' \<noteq> 0 \<and> k \<in> mr_left r c')"
    and "c' \<noteq> 0 \<longrightarrow> mr_rank r c' < mr_rank r c"
proof -
  have val: "mr_data r t k = slot_val t x" if "(k, x) \<in> set (mr_slots r)" for k x
    using assms(1) that by (simp add: mr_up_def mr_data_def)
  show "\<forall>k \<in> set ks. mr_glob p k \<and> mr_data r t k \<noteq> None"
    using assms(3) val by (auto simp: mr_scan_def dest!: in_set_takeD in_set_dropD)
  show "c' \<noteq> 0 \<longrightarrow> mr_rank r c' < mr_rank r c"
    using assms(2,3) by (auto simp: mr_scan_def mr_rank_def split: if_splits)
  show "\<forall>k \<in> mr_left r c. mr_glob p k \<and> mr_data r t k \<noteq> None \<longrightarrow> k \<in> set ks \<or> (c' \<noteq> 0 \<and> k \<in> mr_left r c')"
  proof (intro ballI impI)
    fix k assume k: "k \<in> mr_left r c" "mr_glob p k \<and> mr_data r t k \<noteq> None"
    then obtain x where x: "(k, x) \<in> set (drop c (mr_slots r))" by (auto simp: mr_left_def)
    have "(k, x) \<in> set (take n (drop c (mr_slots r))) \<or> (k, x) \<in> set (drop (c + n) (mr_slots r))"
    proof -
      have "set (drop c (mr_slots r)) = set (take n (drop c (mr_slots r))) \<union> set (drop n (drop c (mr_slots r)))"
        by (metis append_take_drop_id set_append)
      then show ?thesis using x by (auto simp: add.commute)
    qed
    moreover have "slot_val t x \<noteq> None" using k(2) val [OF in_set_dropD [OF x]] by simp
    ultimately show "k \<in> set ks \<or> (c' \<noteq> 0 \<and> k \<in> mr_left r c')"
      using assms(2,3) k(2) by (force simp: mr_scan_def mr_left_def split: if_splits)
  qed
qed

interpretation ms: redis_server memory_redis mr_up mr_data mr_glob mr_rank mr_left
proof (unfold_locales, goal_cases)
  case (3 r ttl t k v)
  then show ?case
    by (auto simp: memory_redis_def mr_up_put mr_data_put slot_val_def fun_eq_iff) (simp_all add: mr_up_def)
next
  case (4 r ks)
  note f = mr_fold_drop [OF 4, of ks]
  have "fst ` set (drop c (mr_slots (fold mr_drop ks r))) = fst ` set (drop c (mr_slots r))" for c
    using f by (metis drop_map list.set_map)
  moreover have "length (mr_slots (fold mr_drop ks r)) = length (mr_slots r)"
    using f by (metis length_map)
  ultimately show ?case using f 4 by (auto simp: memory_redis_def mr_up_def mr_rank_def mr_left_def)
next
  case (5 r n t c p)
  obtain ks c' where s: "mr_scan t c p n r = (ks, c')" by fastforce
  show ?case using mr_scan_effect [OF 5 s] 5(1) s by (auto simp: memory_redis_def mr_up_def)
next
  case (6 r t k)
  then show ?case
    by (auto simp: mr_data_def mr_left_def image_iff split: option.splits dest!: map_of_SomeD) force
next
  case (9 r t cmds)
  show ?case using mr_cmds_effect [OF 9, of t cmds] 9 by (auto simp: memory_redis_def mr_up_def)
next
  case (12 r t t' k)
  then show ?case by (auto simp: mr_data_def slot_val_def split: option.splits)
next
  case (13 p k)
  then show ?case by (rule mr_glob_prefix)
qed (auto simp: memory_redis_def mr_up_def)

end
