(* ===== verification/Role_Store.thy ===== *)
theory Role_Store
  imports Redis_Client Policy_Enforce
begin

text \<open>
  \<open>rbac/redis_role_store.go\<close>: the roles of users in Redis, one set per user that expires. Errors of
  Redis are swallowed, so that the enforcer goes on without it. Loading everything is an unbounded
  loop over \<open>SCAN\<close>; the lemmas show that it ends on a server that keeps its promises, and that what
  was saved is what is loaded until it expires.
\<close>

subsection \<open>The store\<close>

record 'r RedisRoleStore =
  rs_client :: "'r redis_client option"
  rs_ttl :: int

definition NewRedisRoleStore :: "'r redis_client option \<Rightarrow> int \<Rightarrow> 'r RedisRoleStore" where
  "NewRedisRoleStore client ttl = \<lparr>rs_client = client, rs_ttl = ttl\<rparr>"

definition redisRoleKeyPrefix :: string where
  "redisRoleKeyPrefix = ''casbin:user_roles:''"

abbreviation "redisRoleScanCount \<equiv> (100::nat)"

definition SaveUserRoles ::
  "'r RedisRoleStore \<Rightarrow> int \<Rightarrow> string \<Rightarrow> string list \<Rightarrow> 'r \<Rightarrow> gerror option \<times> 'r" where
  "SaveUserRoles s now userID roles r =
     (case rs_client s of
        None \<Rightarrow> (None, r)
      | Some rc \<Rightarrow>
          (if userID = [] then (Some (Err ''userID cannot be empty''), r)
           else (let key = redisRoleKeyPrefix @ userID;
                     cmds = [CDel key] @ (if length roles > 0 then [CSAdd key roles] else [])
                              @ (if length roles > 0 then [CExpire key (rs_ttl s)] else [])
                 in (None, snd (rc_Exec rc now cmds r)))))"

text \<open>\<open>None\<close> in the result is a nil slice.\<close>

definition LoadUserRoles ::
  "'r RedisRoleStore \<Rightarrow> int \<Rightarrow> string \<Rightarrow> 'r \<Rightarrow> (gerror + string list option) \<times> 'r" where
  "LoadUserRoles s now userID r =
     (case rs_client s of
        None \<Rightarrow> (Inr None, r)
      | Some rc \<Rightarrow>
          (if userID = [] then (Inl (Err ''userID cannot be empty''), r)
           else (case rc_SMembers rc now (redisRoleKeyPrefix @ userID) r of
                   (Inl _, r1) \<Rightarrow> (Inr None, r1)
                 | (Inr roles, r1) \<Rightarrow> (Inr (Some roles), r1))))"

definition DeleteUserRoles :: "'r RedisRoleStore \<Rightarrow> string \<Rightarrow> 'r \<Rightarrow> gerror option \<times> 'r" where
  "DeleteUserRoles s userID r =
     (case rs_client s of
        None \<Rightarrow> (None, r)
      | Some rc \<Rightarrow>
          (if userID = [] then (Some (Err ''userID cannot be empty''), r)
           else (None, snd (rc_Del rc [redisRoleKeyPrefix @ userID] r))))"

text \<open>The loop over one batch of keys; users whose roles cannot be read are skipped.\<close>

fun load_batch ::
  "'r redis_client \<Rightarrow> int \<Rightarrow> string list \<Rightarrow> (string \<times> string list) list \<Rightarrow> 'r \<Rightarrow> (string \<times> string list) list \<times> 'r" where
  "load_batch rc now [] result r = (result, r)"
| "load_batch rc now (key # keys) result r =
     (let userID = trim_prefix key redisRoleKeyPrefix
      in if userID = [] then load_batch rc now keys result r
         else (case rc_SMembers rc now key r of
                 (Inl _, r1) \<Rightarrow> load_batch rc now keys result r1
               | (Inr roles, r1) \<Rightarrow>
                   load_batch rc now keys (if length roles > 0 then AList.update userID roles result else result) r1))"

text \<open>The loop over \<open>SCAN\<close>; not returning is \<open>None\<close>, a nil map \<open>Some (None, _)\<close>.\<close>

partial_function (option) scan_roles ::
  "'r redis_client \<Rightarrow> int \<Rightarrow> nat \<Rightarrow> (string \<times> string list) list \<Rightarrow> 'r \<Rightarrow>
   ((string \<times> string list) list option \<times> 'r) option" where
  "scan_roles rc now cursor result r =
     (case rc_Scan rc now cursor (redisRoleKeyPrefix @ ''*'') redisRoleScanCount r of
        (Inl _, r1) \<Rightarrow> Some (None, r1)
      | (Inr (keys, nextCursor), r1) \<Rightarrow>
          (case load_batch rc now keys result r1 of
             (result', r2) \<Rightarrow>
               (if nextCursor = 0 then Some (Some result', r2) else scan_roles rc now nextCursor result' r2)))"

definition LoadAllUserRoles ::
  "'r RedisRoleStore \<Rightarrow> int \<Rightarrow> 'r \<Rightarrow> ((string \<times> string list) list option \<times> 'r) option" where
  "LoadAllUserRoles s now r =
     (case rs_client s of
        None \<Rightarrow> Some (None, r)
      | Some rc \<Rightarrow> scan_roles rc now 0 [] r)"

subsection \<open>What is loaded\<close>

text \<open>The roles a server holds for a user.\<close>

definition stored_roles :: "redis_data \<Rightarrow> int \<Rightarrow> string \<Rightarrow> string list option" where
  "stored_roles d t user =
     (case d t (redisRoleKeyPrefix @ user) of Some (RSet xs) \<Rightarrow> Some xs | _ \<Rightarrow> None)"

text \<open>All keys under the prefix are sets with members, as only this store writes them.\<close>

definition role_keys_ok :: "redis_data \<Rightarrow> int \<Rightarrow> bool" where
  "role_keys_ok d t \<longleftrightarrow>
     (\<forall>k v. has_prefix k redisRoleKeyPrefix \<longrightarrow> d t k = Some v \<longrightarrow> (\<exists>xs. v = RSet xs \<and> xs \<noteq> []))"

lemma trim_role_key: "trim_prefix (redisRoleKeyPrefix @ user) redisRoleKeyPrefix = user"
  by (simp add: trim_prefix_def)

context redis_server begin

lemma load_batch_step:
  assumes "up r" "role_keys_ok (data r) t" "\<forall>k \<in> set keys. has_prefix k redisRoleKeyPrefix \<and> data r t k \<noteq> None"
  shows "\<exists>res'. load_batch rc t keys res r = (res', r) \<and> (distinct (map fst res) \<longrightarrow> distinct (map fst res')) \<and>
    (\<forall>u. map_of res' u = (if u \<noteq> [] \<and> redisRoleKeyPrefix @ u \<in> set keys then stored_roles (data r) t u else map_of res u))"
  using assms(3)
proof (induction keys arbitrary: res)
  case Nil
  then show ?case by simp
next
  case (Cons key keys)
  obtain user where key: "key = redisRoleKeyPrefix @ user" using Cons.prems by (auto elim: prefixE)
  obtain xs where xs: "data r t key = Some (RSet xs)" "xs \<noteq> []"
  proof -
    obtain v where v: "data r t key = Some v" using Cons.prems by auto
    then have "\<exists>xs. v = RSet xs \<and> xs \<noteq> []" using assms(2) Cons.prems unfolding role_keys_ok_def by (meson list.set_intros(1))
    with v that show thesis by blast
  qed
  have sr: "stored_roles (data r) t user = Some xs" using xs by (simp add: stored_roles_def key)
  let ?res = "if user = [] then res else AList.update user xs res"
  obtain res' where res': "load_batch rc t keys ?res r = (res', r)"
      "distinct (map fst ?res) \<longrightarrow> distinct (map fst res')"
      "\<And>u. map_of res' u = (if u \<noteq> [] \<and> redisRoleKeyPrefix @ u \<in> set keys then stored_roles (data r) t u else map_of ?res u)"
    using Cons.IH [of ?res] Cons.prems by auto
  have dist: "distinct (map fst res) \<longrightarrow> distinct (map fst res')"
    using res'(2) distinct_update [of res user xs] by auto
  have "load_batch rc t (key # keys) res r = (res', r)"
    using res'(1) members_set [OF assms(1) xs(1)] xs(2) by (simp add: key trim_role_key Let_def split: if_splits)
  moreover have "map_of ?res u = (if u \<noteq> [] \<and> u = user then stored_roles (data r) t u else map_of res u)" for u
    using sr by (simp add: update_conv')
  ultimately show ?case using res'(3) dist by (auto simp: key)
qed

lemma scan_roles_total:
  assumes "up r" "role_keys_ok (data r) t"
    and "\<forall>k. has_prefix k redisRoleKeyPrefix \<and> data r t k \<noteq> None \<longrightarrow>
           k \<in> left r c \<or> (\<forall>u. u \<noteq> [] \<and> k = redisRoleKeyPrefix @ u \<longrightarrow> map_of res u = stored_roles (data r) t u)"
    and "\<forall>u xs. map_of res u = Some xs \<longrightarrow> u \<noteq> [] \<and> stored_roles (data r) t u = Some xs" "distinct (map fst res)"
  shows "\<exists>res'. scan_roles rc t c res r = Some (Some res', r) \<and> distinct (map fst res') \<and>
    (\<forall>u. map_of res' u = (if u = [] then None else stored_roles (data r) t u))"
  using assms(3-5)
proof (induction "rank r c" arbitrary: c res rule: less_induct)
  case less
  have lit: "set redisRoleKeyPrefix \<inter> glob_special = {}" by (auto simp: glob_special_def redisRoleKeyPrefix_def)
  obtain keys c' where s: "rc_Scan rc t c (redisRoleKeyPrefix @ ''*'') redisRoleScanCount r = (Inr (keys, c'), r)"
      "\<forall>k \<in> set keys. has_prefix k redisRoleKeyPrefix \<and> data r t k \<noteq> None"
      "\<forall>k \<in> left r c. has_prefix k redisRoleKeyPrefix \<and> data r t k \<noteq> None \<longrightarrow> k \<in> set keys \<or> (c' \<noteq> 0 \<and> k \<in> left r c')"
      "c' \<noteq> 0 \<longrightarrow> rank r c' < rank r c"
    using scan_ok [OF assms(1), of redisRoleScanCount t c "redisRoleKeyPrefix @ ''*''"] globs_prefix [OF lit] by auto
  obtain res1 where b: "load_batch rc t keys res r = (res1, r)"
      "\<And>u. map_of res1 u = (if u \<noteq> [] \<and> redisRoleKeyPrefix @ u \<in> set keys then stored_roles (data r) t u else map_of res u)"
      and dist: "distinct (map fst res1)"
    using load_batch_step [OF assms(1,2) s(2), of res] less.prems(3) by blast
  have sound: "\<forall>u xs. map_of res1 u = Some xs \<longrightarrow> u \<noteq> [] \<and> stored_roles (data r) t u = Some xs"
    using b(2) less.prems(2) by (auto split: if_splits)
  have pend: "\<forall>k. has_prefix k redisRoleKeyPrefix \<and> data r t k \<noteq> None \<longrightarrow>
      (c' \<noteq> 0 \<and> k \<in> left r c') \<or> (\<forall>u. u \<noteq> [] \<and> k = redisRoleKeyPrefix @ u \<longrightarrow> map_of res1 u = stored_roles (data r) t u)"
    using b(2) s(3) less.prems(1) by metis
  show ?case
  proof (cases "c' = 0")
    case True
    have "map_of res1 u = (if u = [] then None else stored_roles (data r) t u)" for u
    proof (cases "u = [] \<or> data r t (redisRoleKeyPrefix @ u) = None")
      case True
      then have "u = [] \<or> stored_roles (data r) t u = None" by (auto simp: stored_roles_def)
      then show ?thesis using sound by (cases "map_of res1 u") auto
    next
      case False
      then show ?thesis using pend [rule_format, of "redisRoleKeyPrefix @ u"] \<open>c' = 0\<close> by auto
    qed
    then show ?thesis using s(1) b(1) True dist by (subst scan_roles.simps) simp
  next
    case False
    then obtain res' where "scan_roles rc t c' res1 r = Some (Some res', r)" "distinct (map fst res')"
        "\<forall>u. map_of res' u = (if u = [] then None else stored_roles (data r) t u)"
      using less.hyps [of c' res1] s(4) pend sound dist by auto
    then show ?thesis using s(1) b(1) False by (subst scan_roles.simps) simp
  qed
qed

text \<open>What a save leaves on the server.\<close>

lemma save_effect:
  assumes "up r" "rs_client s = Some rc" "user \<noteq> []" "t \<le> u"
  shows "\<exists>r'. SaveUserRoles s t user roles r = (None, r') \<and> up r' \<and>
    stored_roles (data r') u v =
      (if v = user then (if roles \<noteq> [] \<and> u \<le> t + rs_ttl s then Some (dedup_from [] roles) else None)
       else stored_roles (data r) u v)"
proof -
  let ?key = "redisRoleKeyPrefix @ user"
  let ?cmds = "[CDel ?key] @ (if length roles > 0 then [CSAdd ?key roles] else []) @ (if length roles > 0 then [CExpire ?key (rs_ttl s)] else [])"
  obtain r' where r': "rc_Exec rc t ?cmds r = (None, r')" "up r'" "data r' u = run_cmds t ?cmds (data r) u"
    using exec_ok [OF assms(1), of t ?cmds] assms(4) by auto
  have "run_cmds t ?cmds (data r) u (redisRoleKeyPrefix @ v) =
    (if v = user then (if roles \<noteq> [] \<and> u \<le> t + rs_ttl s then Some (RSet (dedup_from [] roles)) else None)
     else data r u (redisRoleKeyPrefix @ v))"
    by (cases "roles = []") simp_all
  then show ?thesis using assms(2,3) r' by (simp add: SaveUserRoles_def Let_def stored_roles_def)
qed

end

subsection \<open>As the enforcer sees it\<close>

text \<open>
  The store behind the interface of the enforcer, which drops the errors of the other operations. A
  load that fails yields no roles; that every load on a reachable server returns is shown below.
\<close>

definition redis_role_ops :: "'r RedisRoleStore \<Rightarrow> int \<Rightarrow> 'r role_store_ops" where
  "redis_role_ops s now =
     \<lparr>rs_SaveUserRoles = (\<lambda>r user roles. snd (SaveUserRoles s now user roles r)),
      rs_DeleteUserRoles = (\<lambda>r user. snd (DeleteUserRoles s user r)),
      rs_LoadAllUserRoles = (\<lambda>r. case LoadAllUserRoles s now r of Some (Some res, _) \<Rightarrow> Inr res | _ \<Rightarrow> Inr [])\<rparr>"

context redis_server begin

lemma load_all_total:
  assumes "up r" "rs_client s = Some rc" "role_keys_ok (data r) t"
  shows "\<exists>res. LoadAllUserRoles s t r = Some (Some res, r) \<and> distinct (map fst res) \<and>
    (\<forall>u. map_of res u = (if u = [] then None else stored_roles (data r) t u))"
proof -
  have "\<exists>res. scan_roles rc t 0 [] r = Some (Some res, r) \<and> distinct (map fst res) \<and>
      (\<forall>u. map_of res u = (if u = [] then None else stored_roles (data r) t u))"
    by (rule scan_roles_total [OF assms(1,3)]) (use scan_start [OF assms(1)] in auto)
  then show ?thesis using assms(2) by (simp add: LoadAllUserRoles_def)
qed

lemma save_keeps_keys_ok:
  assumes "up r" "rs_client s = Some rc" "t \<le> u" "role_keys_ok (data r) u"
    and "snd (SaveUserRoles s t user roles r) = r'"
  shows "up r' \<and> role_keys_ok (data r') u"
proof (cases "user = []")
  case True
  then show ?thesis using assms by (auto simp: SaveUserRoles_def)
next
  case False
  let ?key = "redisRoleKeyPrefix @ user"
  let ?cmds = "[CDel ?key] @ (if length roles > 0 then [CSAdd ?key roles] else []) @ (if length roles > 0 then [CExpire ?key (rs_ttl s)] else [])"
  obtain r1 where r1: "rc_Exec rc t ?cmds r = (None, r1)" "up r1" "data r1 u = run_cmds t ?cmds (data r) u"
    using exec_ok [OF assms(1), of t ?cmds] assms(3) by auto
  have "r' = r1" using assms(2,5) False r1(1) by (simp add: SaveUserRoles_def Let_def)
  have d: "dedup_from [] roles \<noteq> []" if "roles \<noteq> []"
    using set_dedup_from [of "[]" roles] that by auto
  have "\<exists>xs. v = RSet xs \<and> xs \<noteq> []" if "has_prefix k redisRoleKeyPrefix" "data r1 u k = Some v" for k v
  proof (cases "k = ?key")
    case True
    then show ?thesis using that(2) r1(3) d by (cases "roles = []") (auto split: if_splits)
  next
    case False
    then have "data r u k = Some v" using that(2) r1(3) by (cases "roles = []") auto
    then show ?thesis using assms(4) that(1) by (auto simp: role_keys_ok_def)
  qed
  then show ?thesis using r1(2) \<open>r' = r1\<close> by (simp add: role_keys_ok_def)
qed

end

context policy_enforcer begin

lemma restore_roles_effect:
  "pol (restore_roles lib u rs s) = pol s \<and> grp2 (restore_roles lib u rs s) = grp2 s \<and>
   grp (restore_roles lib u rs s) = grp s \<union> {(u, r) | r. r \<in> set rs \<and> r \<noteq> [] \<and> isValidRoleFormat r}"
proof (induction rs arbitrary: s)
  case Nil
  then show ?case by simp
next
  case (Cons r rs)
  show ?case
  proof (cases "r = [] \<or> \<not> isValidRoleFormat r")
    case True
    then show ?thesis using Cons.IH [of s] by auto
  next
    case False
    obtain s1 where s1: "lib_AddGroupingPolicy lib s u r = (Inr ((u, r) \<notin> grp s), s1)" "pol s1 = pol s"
        "grp s1 = insert (u, r) (grp s)" "grp2 s1 = grp2 s"
      using AddGroupingPolicy by blast
    then show ?thesis using Cons.IH [of s1] False by (auto simp: ce_AddUserRole_def)
  qed
qed

lemma restore_users_effect:
  "pol (restore_users lib al s) = pol s \<and>
   grp (restore_users lib al s) = grp s \<union> {(u, r). \<exists>rs. (u, rs) \<in> set al \<and> r \<in> set rs \<and> r \<noteq> [] \<and> isValidRoleFormat r}"
proof (induction al arbitrary: s)
  case Nil
  then show ?case by simp
next
  case (Cons x al)
  obtain u rs where x: "x = (u, rs)" by (cases x)
  show ?case using Cons.IH [of "restore_roles lib u rs s"] restore_roles_effect [of u rs s] by (auto simp: x)
qed

end

subsection \<open>Properties\<close>

text \<open>
  C29: loading the roles returns, and returns everything. Whatever batches and cursors the server
  chooses, on a reachable server that keeps its promise for \<open>SCAN\<close> the unbounded loop of
  \<open>LoadAllUserRoles\<close> ends, without a bound on the number of users, and its map holds for each user
  with a name exactly the roles stored at that time, and no one else.
\<close>

theorem load_all_ends_with_every_user:
  assumes "redis_server rc up data globs rank left" "up r" "rs_client s = Some rc" "role_keys_ok (data r) t"
  shows "\<exists>res. LoadAllUserRoles s t r = Some (Some res, r) \<and> distinct (map fst res) \<and>
    (\<forall>u. map_of res u = (if u = [] then None else stored_roles (data r) t u))"
  using redis_server.load_all_total [OF assms] .

definition demo_store :: "mem_redis RedisRoleStore" where
  "demo_store = NewRedisRoleStore (Some memory_redis) 86400"

definition demo_redis :: mem_redis where
  "demo_redis = snd (SaveUserRoles demo_store 0 ''user:al'' [''role:serveradmin'', ''proj:alpha:dev'']
     (snd (SaveUserRoles demo_store 0 ''user:bo'' [''proj:alpha:dev''] \<lparr>mr_slots = [], mr_reachable = True\<rparr>)))"

lemma empty_redis_ok:
  "mr_up \<lparr>mr_slots = [], mr_reachable = True\<rparr>" "role_keys_ok (mr_data \<lparr>mr_slots = [], mr_reachable = True\<rparr>) t"
  by (simp_all add: mr_up_def role_keys_ok_def mr_data_def)

lemma demo_redis_ok: "0 \<le> t \<Longrightarrow> mr_up demo_redis \<and> role_keys_ok (mr_data demo_redis) t"
proof -
  assume t: "0 \<le> t"
  have c: "rs_client demo_store = Some memory_redis" by (simp add: demo_store_def NewRedisRoleStore_def)
  note k = ms.save_keeps_keys_ok [OF _ c t]
  from k [OF empty_redis_ok refl, of "''user:bo''" "[''proj:alpha:dev'']"]
  have 1: "mr_up (snd (SaveUserRoles demo_store 0 ''user:bo'' [''proj:alpha:dev''] \<lparr>mr_slots = [], mr_reachable = True\<rparr>)) \<and>
    role_keys_ok (mr_data (snd (SaveUserRoles demo_store 0 ''user:bo'' [''proj:alpha:dev''] \<lparr>mr_slots = [], mr_reachable = True\<rparr>))) t" .
  from k [OF conjunct1 [OF 1] conjunct2 [OF 1] refl, of "''user:al''" "[''role:serveradmin'', ''proj:alpha:dev'']"]
  show ?thesis unfolding demo_redis_def .
qed

lemma load_all_ends_with_every_user_witness:
  "\<exists>res. LoadAllUserRoles demo_store 60 demo_redis = Some (Some res, demo_redis) \<and>
     map_of res ''user:al'' = Some [''role:serveradmin'', ''proj:alpha:dev'']"
proof -
  have c: "rs_client demo_store = Some memory_redis" by (simp add: demo_store_def NewRedisRoleStore_def)
  have v: "stored_roles (mr_data demo_redis) 60 ''user:al'' = Some [''role:serveradmin'', ''proj:alpha:dev'']"
    by code_simp
  show ?thesis
    using load_all_ends_with_every_user [OF ms.redis_server_axioms _ c, of demo_redis 60] demo_redis_ok [of 60] v by auto
qed

text \<open>
  C30: roles survive a restart. When \<open>AssignUserRoles\<close> succeeds with a reachable Redis behind it, the
  process dies, and a new enforcer whose engine knows nothing of the user restores the persisted roles
  before they expire, the restore succeeds and the user has in the new engine exactly the direct roles
  of the old one; policy rules are not touched.
\<close>

theorem restart_restores_assigned_roles:
  assumes "policy_enforcer lib pol grp grp2 hl hl2 km ops cinv look" "redis_server rc up data globs rank left"
    and "up r" "rs_client s = Some rc" "role_keys_ok (data r) t'" "t \<le> t'" "t' \<le> t + rs_ttl s"
    and "AssignUserRoles lib ops (Some (redis_role_ops s t)) user roles (pe, r) = (None, pe1, r1)"
    and "\<forall>x. (user, x) \<notin> grp (pe_engine pe0)"
  shows "\<exists>pe2. RestorePersistedRoles lib ops (Some (redis_role_ops s t')) r1 pe0 = (None, pe2) \<and>
    {x. (user, x) \<in> grp (pe_engine pe2)} = {x. (user, x) \<in> grp (pe_engine pe1)} \<and>
    pol (pe_engine pe2) = pol (pe_engine pe0)"
proof -
  note pe = policy_enforcer.restore_users_effect [OF assms(1)]
  obtain e s' where a: "assignUserRolesInCasbin lib user roles (pe_engine pe) = (e, s')" "e = None \<longleftrightarrow> list_all valid_role roles"
      "grp s' = {l \<in> grp (pe_engine pe). fst l \<noteq> user} \<union> good_links user roles"
    using policy_enforcer.assign_effect [OF assms(1), of user roles "pe_engine pe"] by blast
  have u: "user \<noteq> []" "e = None" using assms(8) a(1) by (auto simp: AssignUserRoles_def split: if_splits option.splits)
  have r1: "r1 = snd (SaveUserRoles s t user roles r)" and eng: "pe_engine pe1 = s'"
    using assms(8) a(1) u by (auto simp: AssignUserRoles_def redis_role_ops_def InvalidateCacheForUser_def
        split: option.splits prod.splits)
  have valid: "list_all valid_role roles" using u(2) a(2) by simp
  then have tw: "takeWhile valid_role roles = roles" by (simp add: takeWhile_eq_all_conv list_all_iff)
  have links: "{x. (user, x) \<in> grp (pe_engine pe1)} = {x \<in> set roles. x \<noteq> [] \<and> isValidRoleFormat x}"
    using a(3) eng valid by (auto simp: good_links_def tw list_all_iff valid_role_def)
  have ok: "up r1" "role_keys_ok (data r1) t'"
    using redis_server.save_keeps_keys_ok [OF assms(2,3,4,6,5) r1 [symmetric]] by simp_all
  obtain res where res: "LoadAllUserRoles s t' r1 = Some (Some res, r1)" "distinct (map fst res)"
      "\<And>u. map_of res u = (if u = [] then None else stored_roles (data r1) t' u)"
    using redis_server.load_all_total [OF assms(2) ok(1) assms(4) ok(2)] by blast
  have mine: "map_of res user = (if roles \<noteq> [] then Some (dedup_from [] roles) else None)"
    using redis_server.save_effect [OF assms(2,3,4) u(1) assms(6), of roles user] res(3) [of user] u(1) assms(7) r1 by auto
  have in_res: "(user, rs) \<in> set res \<longleftrightarrow> map_of res user = Some rs" for rs using res(2) by simp
  let ?s = "restore_users lib res (pe_engine pe0)"
  have got: "{x. (user, x) \<in> grp ?s} = {x \<in> set roles. x \<noteq> [] \<and> isValidRoleFormat x}"
    using pe [of res "pe_engine pe0"] assms(9) mine
    by (auto simp: in_res set_dedup_from split: if_splits)
  show ?thesis
  proof (cases "res = []")
    case True
    then have "RestorePersistedRoles lib ops (Some (redis_role_ops s t')) r1 pe0 = (None, pe0)"
      using res(1) by (simp add: RestorePersistedRoles_def redis_role_ops_def)
    then show ?thesis using got links True by simp
  next
    case False
    then have "RestorePersistedRoles lib ops (Some (redis_role_ops s t')) r1 pe0 =
        (None, clear_cache_if_enabled ops (pe0\<lparr>pe_engine := ?s\<rparr>))"
      using res(1) by (simp add: RestorePersistedRoles_def redis_role_ops_def)
    moreover have "pe_engine (clear_cache_if_enabled ops (pe0\<lparr>pe_engine := ?s\<rparr>)) = ?s"
      by (simp add: clear_cache_if_enabled_def split: option.split)
    ultimately show ?thesis using got links pe [of res "pe_engine pe0"] by auto
  qed
qed

definition fresh_pe :: "mem_store \<Rightarrow> (mem_store, inMemoryCache) policyEnforcer" where
  "fresh_pe e = NewPolicyEnforcer e NewAuthorizationCache"

definition demo_engine :: mem_store where
  "demo_engine = \<lparr>mem_p = [[''proj:alpha:dev'', ''instances/alpha/*'', ''get'', ''allow'']], mem_g = [], mem_g2 = []\<rparr>"

definition demo_roles :: "string list" where "demo_roles = [''role:serveradmin'', [], ''proj:alpha:dev'']"

definition demo_assigned :: "gerror option \<times> (mem_store, inMemoryCache) policyEnforcer \<times> mem_redis" where
  "demo_assigned = AssignUserRoles mem_lib memory_cache_ops (Some (redis_role_ops demo_store 0)) ''user:al'' demo_roles
     (fresh_pe demo_engine, \<lparr>mr_slots = [], mr_reachable = True\<rparr>)"

theorem restart_restores_assigned_roles_witness:
  "\<exists>pe2. RestorePersistedRoles mem_lib memory_cache_ops (Some (redis_role_ops demo_store 3600))
       (snd (snd demo_assigned)) (fresh_pe demo_engine) = (None, pe2) \<and>
     {x. (''user:al'', x) \<in> mem_grp (pe_engine pe2)} = {''role:serveradmin'', ''proj:alpha:dev''}"
proof -
  have c: "rs_client demo_store = Some memory_redis" by (simp add: demo_store_def NewRedisRoleStore_def)
  have a: "fst demo_assigned = None" by code_simp
  then have assigned: "AssignUserRoles mem_lib memory_cache_ops (Some (redis_role_ops demo_store 0)) ''user:al'' demo_roles
     (fresh_pe demo_engine, \<lparr>mr_slots = [], mr_reachable = True\<rparr>) = (None, fst (snd demo_assigned), snd (snd demo_assigned))"
    unfolding demo_assigned_def by (metis prod.collapse)
  have links: "mem_grp (pe_engine (fst (snd demo_assigned))) = {(''user:al'', ''role:serveradmin''), (''user:al'', ''proj:alpha:dev'')}"
    by code_simp
  have ttl: "3600 \<le> 0 + rs_ttl demo_store" by (simp add: demo_store_def NewRedisRoleStore_def)
  have new: "\<forall>x. (''user:al'', x) \<notin> mem_grp (pe_engine (fresh_pe demo_engine))"
    by (simp add: fresh_pe_def demo_engine_def NewPolicyEnforcer_def NewPolicyEnforcerWithConfig_def)
  from restart_restores_assigned_roles [OF mpe.policy_enforcer_axioms ms.redis_server_axioms empty_redis_ok(1) c
      empty_redis_ok(2) _ ttl assigned new] links
  show ?thesis by auto
qed

end
