(* ===== verification/Redis_Cache.thy ===== *)
theory Redis_Cache
  imports Redis_Client Authz_Cache
begin

text \<open>
  \<open>rbac/redis_cache.go\<close>: the cache of authorization decisions that replicas share through Redis, with
  an in-memory fallback while Redis cannot be reached. A cache is its own record together with the state
  behind the connection. The \<open>SCAN\<close> loops run under a timeout, after which the client returns an error:
  \<open>calls\<close> is the number of round trips that fit. The goroutine that waits for Redis to come back is the
  step \<open>tryRecovery\<close>.
\<close>

subsection \<open>State\<close>

record RedisAuthorizationCache =
  ra_ttl :: int
  ra_hits :: "64 word"
  ra_misses :: "64 word"
  ra_fallback :: inMemoryCache
  ra_degraded :: bool
  ra_cachedSize :: nat
  ra_cachedSizeTime :: int

abbreviation "redisCacheKeyPrefix \<equiv> ''authz:cache:''"
abbreviation "redisCacheInvalidateChannel \<equiv> ''authz:invalidate''"
abbreviation "redisCacheScanCount \<equiv> (100::nat)"

definition fallbackCacheTTL :: int where "fallbackCacheTTL = 30000000000"
definition cacheSizeRefreshInterval :: int where "cacheSizeRefreshInterval = 30000000000"

text \<open>The zero time of Go is the first of January of year 1.\<close>

definition NewRedisAuthorizationCache :: "'r redis_client option \<Rightarrow> int \<Rightarrow> RedisAuthorizationCache" where
  "NewRedisAuthorizationCache client ttl =
     \<lparr>ra_ttl = ttl, ra_hits = 0, ra_misses = 0,
      ra_fallback = NewAuthorizationCacheWithTTL fallbackCacheTTL,
      ra_degraded = (client = None), ra_cachedSize = 0, ra_cachedSizeTime = - 62135596800000000000\<rparr>"

definition redis_key :: "string \<Rightarrow> string \<Rightarrow> string \<Rightarrow> string" where
  "redis_key user object action = redisCacheKeyPrefix @ cacheKey user object action"

definition enterDegradedMode :: "RedisAuthorizationCache \<Rightarrow> RedisAuthorizationCache" where
  "enterDegradedMode c = c\<lparr>ra_degraded := True\<rparr>"

definition IsDegraded :: "RedisAuthorizationCache \<Rightarrow> bool" where
  "IsDegraded c = ra_degraded c"

subsection \<open>Operations\<close>

definition redis_Get ::
  "'r redis_client \<Rightarrow> int \<Rightarrow> string \<Rightarrow> string \<Rightarrow> string \<Rightarrow> RedisAuthorizationCache \<times> 'r \<Rightarrow>
   (bool \<times> bool) \<times> RedisAuthorizationCache \<times> 'r" where
  "redis_Get rc now user object action st =
     (case st of (c, r) \<Rightarrow>
        if ra_degraded c
        then (case cache_Get (ra_fallback c) now user object action of (res, f) \<Rightarrow> (res, c\<lparr>ra_fallback := f\<rparr>, r))
        else (case rc_Get rc now (redis_key user object action) r of
                (Inl RedisNil, r1) \<Rightarrow> ((False, False), c\<lparr>ra_misses := ra_misses c + 1\<rparr>, r1)
              | (Inl (RedisFailure _), r1) \<Rightarrow>
                  ((False, False), (enterDegradedMode c)\<lparr>ra_misses := ra_misses c + 1\<rparr>, r1)
              | (Inr val, r1) \<Rightarrow> ((val = ''1'', True), c\<lparr>ra_hits := ra_hits c + 1\<rparr>, r1)))"

definition redis_Set ::
  "'r redis_client \<Rightarrow> int \<Rightarrow> string \<Rightarrow> string \<Rightarrow> string \<Rightarrow> bool \<Rightarrow> int \<Rightarrow> RedisAuthorizationCache \<times> 'r \<Rightarrow>
   RedisAuthorizationCache \<times> 'r" where
  "redis_Set rc now user object action allowed ttl st =
     (case st of (c, r) \<Rightarrow>
        let fallback = (\<lambda>c. c\<lparr>ra_fallback := cache_Set (ra_fallback c) now user object action allowed fallbackCacheTTL\<rparr>)
        in if ttl \<le> 0 then (c, r)
           else if ra_degraded c then (fallback c, r)
           else (case rc_Set rc now (redis_key user object action) (if allowed then ''1'' else ''0'') ttl r of
                   (Some _, r1) \<Rightarrow> (fallback (enterDegradedMode c), r1)
                 | (None, r1) \<Rightarrow> (c, r1)))"

definition redis_Delete ::
  "'r redis_client \<Rightarrow> string \<Rightarrow> string \<Rightarrow> string \<Rightarrow> RedisAuthorizationCache \<times> 'r \<Rightarrow> RedisAuthorizationCache \<times> 'r" where
  "redis_Delete rc user object action st =
     (case st of (c, r) \<Rightarrow>
        if ra_degraded c then (c\<lparr>ra_fallback := cache_Delete (ra_fallback c) user object action\<rparr>, r)
        else (c, snd (rc_Del rc [redis_key user object action] r)))"

text \<open>
  The loop that deletes every key of a pattern: how many were deleted, and whether the iteration was
  completed. With no round trip left the context has expired and \<open>SCAN\<close> fails.
\<close>

fun scan_delete :: "'r redis_client \<Rightarrow> int \<Rightarrow> nat \<Rightarrow> string \<Rightarrow> nat \<Rightarrow> nat \<Rightarrow> 'r \<Rightarrow> (nat \<times> bool) \<times> 'r" where
  "scan_delete rc now 0 pattern cursor deleted r = ((deleted, False), r)"
| "scan_delete rc now (Suc calls) pattern cursor deleted r =
     (case rc_Scan rc now cursor pattern redisCacheScanCount r of
        (Inl _, r1) \<Rightarrow> ((deleted, False), r1)
      | (Inr (keys, nextCursor), r1) \<Rightarrow>
          (let (deleted', r2) =
                 (if length keys > 0
                  then (case rc_Del rc keys r1 of
                          (Some _, r2) \<Rightarrow> (deleted, r2)
                        | (None, r2) \<Rightarrow> (deleted + length keys, r2))
                  else (deleted, r1))
           in if nextCursor = 0 then ((deleted', True), r2)
              else scan_delete rc now calls pattern nextCursor deleted' r2))"

definition clearRedisCache :: "'r redis_client \<Rightarrow> int \<Rightarrow> nat \<Rightarrow> 'r \<Rightarrow> 'r" where
  "clearRedisCache rc now calls r = snd (scan_delete rc now calls (redisCacheKeyPrefix @ ''*'') 0 0 r)"

definition publishInvalidation :: "'r redis_client \<Rightarrow> string \<Rightarrow> 'r \<Rightarrow> 'r" where
  "publishInvalidation rc message r = snd (rc_Publish rc redisCacheInvalidateChannel message r)"

definition redis_Clear ::
  "'r redis_client \<Rightarrow> int \<Rightarrow> nat \<Rightarrow> RedisAuthorizationCache \<times> 'r \<Rightarrow> RedisAuthorizationCache \<times> 'r" where
  "redis_Clear rc now calls st =
     (case st of (c, r) \<Rightarrow>
        if ra_degraded c then (c\<lparr>ra_fallback := cache_Clear (ra_fallback c)\<rparr>, r)
        else (c, publishInvalidation rc ''clear:*'' (clearRedisCache rc now calls r)))"

definition redis_InvalidateByPrefix ::
  "'r redis_client \<Rightarrow> int \<Rightarrow> nat \<Rightarrow> string \<Rightarrow> RedisAuthorizationCache \<times> 'r \<Rightarrow> nat \<times> RedisAuthorizationCache \<times> 'r" where
  "redis_InvalidateByPrefix rc now calls p st =
     (case st of (c, r) \<Rightarrow>
        if ra_degraded c
        then (case cache_InvalidateByPrefix (ra_fallback c) p of (count, f) \<Rightarrow> (count, c\<lparr>ra_fallback := f\<rparr>, r))
        else (case scan_delete rc now calls (redisCacheKeyPrefix @ p @ ''*'') 0 0 r of
                ((deleted, completed), r1) \<Rightarrow>
                  (deleted, c, if completed then publishInvalidation rc (''prefix:'' @ p) r1 else r1)))"

fun scan_count :: "'r redis_client \<Rightarrow> int \<Rightarrow> nat \<Rightarrow> string \<Rightarrow> nat \<Rightarrow> nat \<Rightarrow> 'r \<Rightarrow> (nat \<times> bool) \<times> 'r" where
  "scan_count rc now 0 pattern cursor counted r = ((counted, False), r)"
| "scan_count rc now (Suc calls) pattern cursor counted r =
     (case rc_Scan rc now cursor pattern redisCacheScanCount r of
        (Inl _, r1) \<Rightarrow> ((counted, False), r1)
      | (Inr (keys, nextCursor), r1) \<Rightarrow>
          (if nextCursor = 0 then ((counted + length keys, True), r1)
           else scan_count rc now calls pattern nextCursor (counted + length keys) r1))"

definition estimateCacheSize ::
  "'r redis_client \<Rightarrow> int \<Rightarrow> nat \<Rightarrow> RedisAuthorizationCache \<times> 'r \<Rightarrow> nat \<times> RedisAuthorizationCache \<times> 'r" where
  "estimateCacheSize rc now calls st =
     (case st of (c, r) \<Rightarrow>
        if now - ra_cachedSizeTime c < cacheSizeRefreshInterval then (ra_cachedSize c, c, r)
        else (case scan_count rc now calls (redisCacheKeyPrefix @ ''*'') 0 0 r of
                ((counted, completed), r1) \<Rightarrow>
                  (counted, if completed then c\<lparr>ra_cachedSize := counted, ra_cachedSizeTime := now\<rparr> else c, r1)))"

definition redis_Stats ::
  "'r redis_client \<Rightarrow> int \<Rightarrow> nat \<Rightarrow> RedisAuthorizationCache \<times> 'r \<Rightarrow> CacheStats \<times> RedisAuthorizationCache \<times> 'r" where
  "redis_Stats rc now calls st =
     (case st of (c, r) \<Rightarrow>
        if ra_degraded c then ((cache_Stats (ra_fallback c))\<lparr>st_TTLSeconds := fallbackCacheTTL div 1000000000\<rparr>, c, r)
        else (let total = ra_hits c + ra_misses c
              in case estimateCacheSize rc now calls (c, r) of
                   (entries, c1, r1) \<Rightarrow>
                     (\<lparr>st_Hits = ra_hits c, st_Misses = ra_misses c, st_Size = entries,
                       st_HitRate = (if 0 <s total then of_int (sint (ra_hits c)) / of_int (sint total) * 100 else 0),
                       st_TTLSeconds = ra_ttl c div 1000000000\<rparr>, c1, r1)))"

definition redis_ResetStats :: "RedisAuthorizationCache \<Rightarrow> RedisAuthorizationCache" where
  "redis_ResetStats c = c\<lparr>ra_hits := 0, ra_misses := 0\<rparr>"

text \<open>One tick of the goroutine that \<open>enterDegradedMode\<close> starts: whether it is done.\<close>

definition tryRecovery :: "'r redis_client \<Rightarrow> RedisAuthorizationCache \<times> 'r \<Rightarrow> bool \<times> RedisAuthorizationCache \<times> 'r" where
  "tryRecovery rc st =
     (case st of (c, r) \<Rightarrow>
        (case rc_Ping rc r of
           (None, r1) \<Rightarrow> (True, c\<lparr>ra_degraded := False, ra_fallback := cache_Clear (ra_fallback c)\<rparr>, r1)
         | (Some _, r1) \<Rightarrow> (False, c, r1)))"

text \<open>Messages of other replicas are only classified: their deletions are in Redis already.\<close>

datatype invalidation = FullInvalidation | PrefixInvalidation string | UnknownInvalidation

definition handleInvalidationMessage :: "string \<Rightarrow> invalidation" where
  "handleInvalidationMessage payload =
     (if payload = ''clear:*'' then FullInvalidation
      else if length payload > 7 \<and> take 7 payload = ''prefix:'' then PrefixInvalidation (drop 7 payload)
      else UnknownInvalidation)"

subsection \<open>What a healthy cache answers\<close>

definition redis_look :: "redis_data \<Rightarrow> int \<Rightarrow> string \<times> string \<times> string \<Rightarrow> bool option" where
  "redis_look d t k =
     (case k of (u, ob, a) \<Rightarrow>
        (case d t (redis_key u ob a) of Some (RStr v) \<Rightarrow> Some (v = ''1'') | _ \<Rightarrow> None))"

definition decision_keys_ok :: "redis_data \<Rightarrow> bool" where
  "decision_keys_ok d \<longleftrightarrow> (\<forall>t k xs. d t (redisCacheKeyPrefix @ k) \<noteq> Some (RSet xs))"

context redis_server begin

lemma scan_delete_effect:
  assumes "\<forall>k. globs p k \<and> data r t k \<noteq> None \<longrightarrow> k \<in> left r c" "up r" "rank r c < calls"
  shows "\<exists>n r' D. scan_delete rc t calls p c deleted r = ((n, True), r') \<and> up r' \<and>
    data r' = (\<lambda>s k. if k \<in> D then None else data r s k) \<and> (\<forall>k \<in> D. globs p k) \<and>
    (\<forall>k. globs p k \<longrightarrow> data r' t k = None)"
  using assms
proof (induction calls arbitrary: r c deleted)
  case 0
  then show ?case by simp
next
  case (Suc calls)
  obtain ks c' where s: "rc_Scan rc t c p redisCacheScanCount r = (Inr (ks, c'), r)"
      "\<forall>k \<in> set ks. globs p k \<and> data r t k \<noteq> None"
      "\<forall>k \<in> left r c. globs p k \<and> data r t k \<noteq> None \<longrightarrow> k \<in> set ks \<or> (c' \<noteq> 0 \<and> k \<in> left r c')"
      "c' \<noteq> 0 \<longrightarrow> rank r c' < rank r c"
    using scan_ok [OF Suc.prems(2), of redisCacheScanCount t c p] by auto
  obtain r1 d1 where del: "(if length ks > 0 then (case rc_Del rc ks r of (Some _, r2) \<Rightarrow> (deleted, r2)
        | (None, r2) \<Rightarrow> (deleted + length ks, r2)) else (deleted, r)) = (d1, r1)" "up r1"
      "data r1 = (\<lambda>s k. if k \<in> set ks then None else data r s k)"
      "\<forall>c. rank r1 c \<le> rank r c \<and> left r c \<subseteq> left r1 c \<union> set ks"
  proof (cases "ks = []")
    case True
    then show ?thesis using that [of deleted r] Suc.prems(2) by simp
  next
    case False
    obtain r2 where "rc_Del rc ks r = (None, r2)" "up r2" "data r2 = (\<lambda>s k. if k \<in> set ks then None else data r s k)"
      "\<forall>c. rank r2 c \<le> rank r c \<and> left r c \<subseteq> left r2 c \<union> set ks"
      using del_ok [OF Suc.prems(2)] by blast
    then show ?thesis using that [of "deleted + length ks" r2] False by simp
  qed
  have pend: "\<forall>k. globs p k \<and> data r1 t k \<noteq> None \<longrightarrow> c' \<noteq> 0 \<and> k \<in> left r1 c'"
  proof (intro allI impI)
    fix k assume k: "globs p k \<and> data r1 t k \<noteq> None"
    then have "k \<notin> set ks" "data r t k \<noteq> None" unfolding del(3) by (auto split: if_splits)
    moreover from this k have "k \<in> left r c" using Suc.prems(1) by blast
    ultimately have "c' \<noteq> 0 \<and> k \<in> left r c'" using s(3) k by blast
    then show "c' \<noteq> 0 \<and> k \<in> left r1 c'" using del(4) \<open>k \<notin> set ks\<close> by blast
  qed
  show ?case
  proof (cases "c' = 0")
    case True
    have "scan_delete rc t (Suc calls) p c deleted r = ((d1, True), r1)"
      using s(1) del(1) True by simp
    moreover have "\<forall>k. globs p k \<longrightarrow> data r1 t k = None" using pend True by blast
    ultimately show ?thesis using del(2,3) s(2) by blast
  next
    case False
    have rk: "rank r1 c' < calls" using s(4) del(4) Suc.prems(3) False by (meson le_less_trans less_Suc_eq_le less_le_trans)
    obtain n r' D where ih: "scan_delete rc t calls p c' d1 r1 = ((n, True), r')" "up r'"
        "data r' = (\<lambda>s k. if k \<in> D then None else data r1 s k)" "\<forall>k \<in> D. globs p k" "\<forall>k. globs p k \<longrightarrow> data r' t k = None"
      using Suc.IH [of r1 c' d1] pend del(2) rk by blast
    have "scan_delete rc t (Suc calls) p c deleted r = ((n, True), r')"
      using s(1) del(1) False ih(1) by simp
    moreover have "data r' = (\<lambda>s k. if k \<in> D \<union> set ks then None else data r s k)"
      using ih(3) del(3) by (auto simp: fun_eq_iff)
    ultimately show ?thesis using ih(2,4,5) s(2) by blast
  qed
qed

lemma scan_delete_all:
  assumes "up r" "rank r 0 < calls" "set q \<inter> glob_special = {}"
  shows "\<exists>n r'. scan_delete rc t calls (q @ ''*'') 0 0 r = ((n, True), r') \<and> up r' \<and>
    (\<forall>s k. t \<le> s \<longrightarrow> data r' s k = (if has_prefix k q then None else data r s k))"
proof -
  obtain n r' D where *: "scan_delete rc t calls (q @ ''*'') 0 0 r = ((n, True), r')" "up r'"
      "data r' = (\<lambda>s k. if k \<in> D then None else data r s k)" "\<forall>k \<in> D. globs (q @ ''*'') k"
      "\<forall>k. globs (q @ ''*'') k \<longrightarrow> data r' t k = None"
    using scan_delete_effect [of "q @ ''*''" r t 0 calls 0] scan_start [OF assms(1)] assms(1,2) by blast
  have "data r' s k = (if has_prefix k q then None else data r s k)" if "t \<le> s" for s k
    using *(3-5) fade [OF *(2) that, of k] globs_prefix [OF assms(3)] by auto
  then show ?thesis using *(1,2) by blast
qed

lemma redis_Get_healthy:
  assumes "up r" "\<not> ra_degraded c" "decision_keys_ok (data r)"
  shows "\<exists>c'. redis_Get rc t u ob a (c, r) =
      ((case redis_look (data r) t (u, ob, a) of None \<Rightarrow> (False, False) | Some b \<Rightarrow> (b, True)), c', r) \<and> \<not> ra_degraded c'"
proof (cases "data r t (redis_key u ob a)")
  case None
  then show ?thesis using assms(2) get_none [OF assms(1) None] by (simp add: redis_Get_def redis_look_def)
next
  case (Some v)
  then obtain x where v: "v = RStr x"
    using assms(3) by (cases v) (auto simp: decision_keys_ok_def redis_key_def)
  then show ?thesis using assms(2) get_str [OF assms(1), of t "redis_key u ob a" x] Some
    by (simp add: redis_Get_def redis_look_def)
qed

lemma redis_key_inj: "clean (u, ob, a) \<Longrightarrow> redis_key u ob a = redis_key u' ob' a' \<longleftrightarrow> (u, ob, a) = (u', ob', a')"
  using cacheKey_inj by (auto simp: redis_key_def)

lemma redis_Set_healthy:
  assumes "up r" "\<not> ra_degraded c" "decision_keys_ok (data r)" "clean k"
  shows "\<exists>r'. redis_Set rc now u ob a b ttl (c, r) = (c, r') \<and> up r' \<and> decision_keys_ok (data r') \<and>
    redis_look (data r') t k =
      (if 0 < ttl \<and> k = (u, ob, a) then (if t \<le> now + ttl then Some b else None) else redis_look (data r) t k)"
proof (cases "0 < ttl")
  case False
  then show ?thesis using assms by (simp add: redis_Set_def)
next
  case True
  obtain u' ob' a' where k: "k = (u', ob', a')" by (cases k)
  obtain r' where r': "rc_Set rc now (redis_key u ob a) (if b then ''1'' else ''0'') ttl r = (None, r')" "up r'"
      "data r' = (\<lambda>s k'. if k' = redis_key u ob a then (if s \<le> now + ttl then Some (RStr (if b then ''1'' else ''0'')) else None) else data r s k')"
    using set_ok [OF assms(1) True] by blast
  have "redis_Set rc now u ob a b ttl (c, r) = (c, r')"
    using True assms(2) r'(1) by (simp add: redis_Set_def)
  moreover have "decision_keys_ok (data r')"
    using assms(3) r'(3) by (auto simp: decision_keys_ok_def)
  moreover have "redis_look (data r') t k =
      (if k = (u, ob, a) then (if t \<le> now + ttl then Some b else None) else redis_look (data r) t k)"
    using redis_key_inj [of u' ob' a' u ob a] assms(4) r'(3) by (auto simp: redis_look_def k)
  ultimately show ?thesis using r'(2) True by auto
qed

lemma redis_Clear_healthy:
  assumes "up r" "\<not> ra_degraded c" "rank r 0 < calls"
  shows "\<exists>r'. redis_Clear rc t calls (c, r) = (c, r') \<and> up r' \<and> (\<forall>s k. t \<le> s \<longrightarrow> redis_look (data r') s k = None)"
proof -
  have lit: "set redisCacheKeyPrefix \<inter> glob_special = {}" by (auto simp: glob_special_def)
  obtain n r' where r': "scan_delete rc t calls (redisCacheKeyPrefix @ ''*'') 0 0 r = ((n, True), r')" "up r'"
      "\<forall>s k. t \<le> s \<longrightarrow> data r' s k = (if has_prefix k redisCacheKeyPrefix then None else data r s k)"
    using scan_delete_all [OF assms(1,3) lit] by blast
  then have "redis_Clear rc t calls (c, r) = (c, r')"
    using assms(2) publish_ok [OF r'(2)] by (simp add: redis_Clear_def clearRedisCache_def publishInvalidation_def)
  moreover have "redis_look (data r') s k = None" if "t \<le> s" for s k
    using r'(3) that by (simp add: redis_look_def redis_key_def split: prod.split)
  ultimately show ?thesis using r'(2) by blast
qed

lemma redis_Invalidate_healthy:
  assumes "up r" "\<not> ra_degraded c" "rank r 0 < calls" "set v \<inter> glob_special = {}" "CHR 0x00 \<notin> set v"
  shows "\<exists>n r'. redis_InvalidateByPrefix rc t calls (v @ [CHR 0x00]) (c, r) = (n, c, r') \<and> up r' \<and>
    (\<forall>s u ob a. t \<le> s \<longrightarrow> clean (u, ob, a) \<longrightarrow>
       redis_look (data r') s (u, ob, a) = (if u = v then None else redis_look (data r) s (u, ob, a)))"
proof -
  have lit: "set (redisCacheKeyPrefix @ v @ [CHR 0x00]) \<inter> glob_special = {}" using assms(4) by (auto simp: glob_special_def)
  obtain n r' where r': "scan_delete rc t calls ((redisCacheKeyPrefix @ v @ [CHR 0x00]) @ ''*'') 0 0 r = ((n, True), r')" "up r'"
      "\<forall>s k. t \<le> s \<longrightarrow> data r' s k = (if has_prefix k (redisCacheKeyPrefix @ v @ [CHR 0x00]) then None else data r s k)"
    using scan_delete_all [OF assms(1,3) lit] by blast
  then have "redis_InvalidateByPrefix rc t calls (v @ [CHR 0x00]) (c, r) = (n, c, r')"
    using assms(2) publish_ok [OF r'(2)] by (simp add: redis_InvalidateByPrefix_def publishInvalidation_def)
  moreover have "redis_look (data r') s (u, ob, a) = (if u = v then None else redis_look (data r) s (u, ob, a))"
    if "t \<le> s" "clean (u, ob, a)" for s u ob a
    using r'(3) that cacheKey_prefix [of u v ob a] assms(5) by (simp add: redis_look_def redis_key_def clean_def)
  ultimately show ?thesis using r'(2) by blast
qed

end

subsection \<open>Properties\<close>

text \<open>
  C31: while Redis answers, the shared cache keeps the contract of the decision cache. A lookup returns
  what Redis holds for the request and changes nothing there; a store is found, with its value, until
  its time has passed and leaves every other clean request alone; with enough round trips before the
  timeout, clearing leaves no decision for any request, now or later, and dropping a user whose name
  has no glob characters drops the decisions of exactly that user.
\<close>

theorem shared_cache_keeps_contract:
  assumes "redis_server rc up data globs rank left" "up r" "\<not> ra_degraded c" "decision_keys_ok (data r)"
    and "rank r 0 < calls" "set v \<inter> glob_special = {}" "CHR 0x00 \<notin> set v"
  shows "(\<exists>c'. redis_Get rc t u ob a (c, r) =
            ((case redis_look (data r) t (u, ob, a) of None \<Rightarrow> (False, False) | Some b \<Rightarrow> (b, True)), c', r) \<and>
            \<not> ra_degraded c') \<and>
    (clean k \<longrightarrow> (\<exists>r'. redis_Set rc t u ob a b ttl (c, r) = (c, r') \<and> up r' \<and> decision_keys_ok (data r') \<and>
            redis_look (data r') s k =
              (if 0 < ttl \<and> k = (u, ob, a) then (if s \<le> t + ttl then Some b else None) else redis_look (data r) s k))) \<and>
    (\<exists>r'. redis_Clear rc t calls (c, r) = (c, r') \<and> up r' \<and> (\<forall>s k. t \<le> s \<longrightarrow> redis_look (data r') s k = None)) \<and>
    (\<exists>n r'. redis_InvalidateByPrefix rc t calls (v @ [CHR 0x00]) (c, r) = (n, c, r') \<and> up r' \<and>
       (\<forall>s u ob a. t \<le> s \<longrightarrow> clean (u, ob, a) \<longrightarrow>
          redis_look (data r') s (u, ob, a) = (if u = v then None else redis_look (data r) s (u, ob, a))))"
proof (intro conjI impI)
  show "\<exists>c'. redis_Get rc t u ob a (c, r) =
      ((case redis_look (data r) t (u, ob, a) of None \<Rightarrow> (False, False) | Some b \<Rightarrow> (b, True)), c', r) \<and> \<not> ra_degraded c'"
    by (rule redis_server.redis_Get_healthy [OF assms(1-4)])
  show "\<exists>r'. redis_Set rc t u ob a b ttl (c, r) = (c, r') \<and> up r' \<and> decision_keys_ok (data r') \<and>
      redis_look (data r') s k =
        (if 0 < ttl \<and> k = (u, ob, a) then (if s \<le> t + ttl then Some b else None) else redis_look (data r) s k)" if "clean k"
    by (rule redis_server.redis_Set_healthy [OF assms(1-4) that])
  show "\<exists>r'. redis_Clear rc t calls (c, r) = (c, r') \<and> up r' \<and> (\<forall>s k. t \<le> s \<longrightarrow> redis_look (data r') s k = None)"
    by (rule redis_server.redis_Clear_healthy [OF assms(1-3,5)])
  show "\<exists>n r'. redis_InvalidateByPrefix rc t calls (v @ [CHR 0x00]) (c, r) = (n, c, r') \<and> up r' \<and>
      (\<forall>s u ob a. t \<le> s \<longrightarrow> clean (u, ob, a) \<longrightarrow>
         redis_look (data r') s (u, ob, a) = (if u = v then None else redis_look (data r) s (u, ob, a)))"
    by (rule redis_server.redis_Invalidate_healthy [OF assms(1-3,5-7)])
qed

definition empty_redis :: mem_redis where "empty_redis = \<lparr>mr_slots = [], mr_reachable = True\<rparr>"

definition shared_start :: "RedisAuthorizationCache \<times> mem_redis" where
  "shared_start = (NewRedisAuthorizationCache (Some memory_redis) 300000000000, empty_redis)"

definition shared_granted :: "RedisAuthorizationCache \<times> mem_redis" where
  "shared_granted = redis_Set memory_redis 0 ''user:al'' ''projects/alpha'' ''get'' True 300000000000 shared_start"

lemma shared_cache_keeps_contract_witness:
  "\<exists>r'. redis_Clear memory_redis 7 3 shared_granted = (fst shared_granted, r') \<and>
     (\<forall>s k. 7 \<le> s \<longrightarrow> redis_look (mr_data r') s k = None)"
proof -
  have c: "fst shared_granted = NewRedisAuthorizationCache (Some memory_redis) 300000000000" by code_simp
  have r: "mr_slots (snd shared_granted) =
      [(redis_key ''user:al'' ''projects/alpha'' ''get'', Some (RStr ''1'', Some 300000000000))]"
    "mr_reachable (snd shared_granted)" by code_simp+
  have "mr_up (snd shared_granted)" "\<not> ra_degraded (fst shared_granted)" "decision_keys_ok (mr_data (snd shared_granted))"
    "mr_rank (snd shared_granted) 0 < 3"
    using r c by (auto simp: mr_up_def mr_rank_def decision_keys_ok_def mr_data_def slot_val_def NewRedisAuthorizationCache_def)
  from shared_cache_keeps_contract [OF ms.redis_server_axioms this, of "''user:al''" 7 "[]" "[]" "[]" "([], [], [])" True 1 8]
  show ?thesis by (auto simp: glob_special_def)
qed

text \<open>An outage: the link goes down, a lookup notices, the policies change meanwhile.\<close>

definition set_link :: "bool \<Rightarrow> RedisAuthorizationCache \<times> mem_redis \<Rightarrow> RedisAuthorizationCache \<times> mem_redis" where
  "set_link b st = (fst st, (snd st)\<lparr>mr_reachable := b\<rparr>)"

definition outage :: "RedisAuthorizationCache \<times> mem_redis" where
  "outage = snd (redis_Get memory_redis 1000000000 ''user:bo'' ''projects/alpha'' ''get'' (set_link False shared_granted))"

definition revoked_in_outage :: "RedisAuthorizationCache \<times> mem_redis" where
  "revoked_in_outage = redis_Clear memory_redis 2000000000 100 outage"


text \<open>The name of a user is part of a glob pattern: brackets in it are a class, and nothing is dropped.\<close>

lemma glob_user_is_not_invalidated:
  "(case redis_InvalidateByPrefix memory_redis 5 100 (''user:a[b]'' @ [CHR 0x00])
       (redis_Set memory_redis 0 ''user:a[b]'' ''projects/alpha'' ''get'' True 300000000000 shared_start) of
      (n, st) \<Rightarrow> (n, fst (redis_Get memory_redis 6 ''user:a[b]'' ''projects/alpha'' ''get'' st))) = (0, (True, True))"
  by code_simp

end
