(* ===== verification/Http_Request.thy ===== *)
theory Http_Request
  imports Authorization_Service
begin

text \<open>
  Requests and responses as the API layer sees them: \<open>api/response\<close>, \<open>util/sanitize\<close>,
  \<open>middleware/auth.go\<close>, and of Go's standard library \<open>path.Clean\<close>, \<open>html.EscapeString\<close> and the decoding of
  a JSON value into a struct. A handler is a function of the request and of the state behind the
  server's collaborators; a middleware maps handlers to handlers.
\<close>

subsection \<open>Responses\<close>

record http_response =
  rs_Status :: nat
  rs_Code :: string
  rs_Message :: string
  rs_Details :: "(string \<times> string) list"

fun escape_char :: "char \<Rightarrow> string" where
  "escape_char c =
     (if c = CHR ''&'' then ''&amp;''
      else if c = CHR 0x27 then ''&#39;''
      else if c = CHR ''<'' then ''&lt;''
      else if c = CHR ''>'' then ''&gt;''
      else if c = CHR 0x22 then ''&#34;''
      else [c])"

definition EscapeString :: "string \<Rightarrow> string" where
  "EscapeString s = concat (map escape_char s)"

definition WriteError :: "nat \<Rightarrow> string \<Rightarrow> string \<Rightarrow> (string \<times> string) list \<Rightarrow> http_response" where
  "WriteError statusCode code message details =
     \<lparr>rs_Status = statusCode, rs_Code = code, rs_Message = EscapeString message,
      rs_Details = map (\<lambda>(k, v). (EscapeString k, EscapeString v)) details\<rparr>"

definition NotFound :: "string \<Rightarrow> string \<Rightarrow> http_response" where
  "NotFound resource identifier =
     WriteError 404 ''NOT_FOUND'' (resource @ '' not found: '' @ identifier)
       [(''resource'', resource), (''identifier'', identifier)]"

definition BadRequest :: "string \<Rightarrow> (string \<times> string) list \<Rightarrow> http_response" where
  "BadRequest message details = WriteError 400 ''BAD_REQUEST'' message details"

definition Unauthorized :: "string \<Rightarrow> http_response" where
  "Unauthorized message = WriteError 401 ''UNAUTHORIZED'' message []"

definition Forbidden :: "string \<Rightarrow> http_response" where
  "Forbidden message = WriteError 403 ''FORBIDDEN'' message []"

definition ServiceUnavailable :: "string \<Rightarrow> http_response" where
  "ServiceUnavailable message = WriteError 503 ''SERVICE_UNAVAILABLE'' message []"

definition InternalError :: "string \<Rightarrow> http_response" where
  "InternalError message = WriteError 500 ''INTERNAL_ERROR'' message []"

definition Conflict :: "string \<Rightarrow> string \<Rightarrow> http_response" where
  "Conflict resource identifier =
     WriteError 409 ''CONFLICT'' (resource @ '' already exists: '' @ identifier)
       [(''resource'', resource), (''identifier'', identifier)]"

lemmas response_defs =
  WriteError_def NotFound_def BadRequest_def Unauthorized_def Forbidden_def ServiceUnavailable_def
  InternalError_def Conflict_def

lemma status_simps [simp]:
  "rs_Status (WriteError n c m d) = n" "rs_Status (NotFound r i) = 404" "rs_Status (BadRequest m d) = 400"
  "rs_Status (Unauthorized m) = 401" "rs_Status (Forbidden m) = 403" "rs_Status (ServiceUnavailable m) = 503"
  "rs_Status (InternalError m) = 500" "rs_Status (Conflict r i) = 409"
  by (simp_all add: response_defs)

text \<open>What leaves the server in an error body is inert in an HTML page.\<close>

lemma escaped_is_inert: "set (EscapeString s) \<inter> {CHR ''<'', CHR ''>'', CHR 0x22, CHR 0x27} = {}"
  by (auto simp: EscapeString_def split: if_splits)

subsection \<open>Bodies\<close>

text \<open>
  A body is what decoding it gives: it cannot be read, it is not JSON, or it is a JSON value. A number
  keeps its literal.
\<close>

datatype json =
    JNull
  | JBool bool
  | JNum string
  | JStr string
  | JArr "json list"
  | JObj "(string \<times> json) list"

datatype body = Unreadable | NotJson | Json json

text \<open>
  \<open>encoding/json\<close> into a struct whose fields are strings: a key selects a field by its name, up to the
  case of letters; null leaves the field as it is; another value is an error, which does not stop the
  decoding but is reported at its end. An unknown key is skipped and a later occurrence of a key wins.
\<close>

definition set_string :: "json \<Rightarrow> string \<Rightarrow> (string \<Rightarrow> 'r) \<Rightarrow> 'r \<Rightarrow> gerror + 'r" where
  "set_string v key put r =
     (case v of JNull \<Rightarrow> Inr r
      | JStr s \<Rightarrow> Inr (put s)
      | _ \<Rightarrow> Inl (Err (''json: cannot unmarshal into Go struct field '' @ key)))"

fun decode_fields ::
  "(string \<times> (json \<Rightarrow> 'r \<Rightarrow> gerror + 'r)) list \<Rightarrow> (string \<times> json) list \<Rightarrow> 'r \<Rightarrow> gerror option \<times> 'r" where
  "decode_fields flds [] r = (None, r)"
| "decode_fields flds ((k, v) # kvs) r =
     (case find (\<lambda>(n, _). equal_fold n k) flds of
        None \<Rightarrow> decode_fields flds kvs r
      | Some (_, set_field) \<Rightarrow>
          (case set_field v r of
             Inr r' \<Rightarrow> decode_fields flds kvs r'
           | Inl e \<Rightarrow> (case decode_fields flds kvs r of (_, r') \<Rightarrow> (Some e, r'))))"

definition decode_struct ::
  "(string \<times> (json \<Rightarrow> 'r \<Rightarrow> gerror + 'r)) list \<Rightarrow> 'r \<Rightarrow> body \<Rightarrow> gerror + 'r" where
  "decode_struct flds zero b =
     (case b of
        Json JNull \<Rightarrow> Inr zero
      | Json (JObj kvs) \<Rightarrow> (case decode_fields flds kvs zero of (None, r) \<Rightarrow> Inr r | (Some e, _) \<Rightarrow> Inl e)
      | Json _ \<Rightarrow> Inl (Err ''json: cannot unmarshal into Go value'')
      | NotJson \<Rightarrow> Inl (Err ''invalid character looking for beginning of value'')
      | Unreadable \<Rightarrow> Inl (Err ''unexpected EOF''))"

subsection \<open>Requests\<close>

record DeploymentRequest =
  dr_Name :: string
  dr_Namespace :: string
  dr_ProjectID :: string
  dr_RGDName :: string
  dr_RGDNamespace :: string
  dr_ClusterServer :: string
  dr_RepositoryID :: string
  dr_DeploymentMode :: string

text \<open>
  The parts of \<open>http.Request\<close> the API layer reads. \<open>rq_PathValue\<close> is what the router bound, empty for a
  name the route does not have. The last three are the values carried by the context.
\<close>

record http_request =
  rq_Method :: string
  rq_Path :: string
  rq_RawPath :: string
  rq_Cookie :: "string option"
  rq_Authorization :: string
  rq_Body :: body
  rq_PathValue :: "string \<Rightarrow> string"
  rq_User :: "UserContext option"
  rq_Deployment :: "DeploymentRequest option"
  rq_Project :: "Project option"

type_synonym 'p http_handler = "http_request \<Rightarrow> 'p \<Rightarrow> http_response \<times> 'p"

abbreviation "MethodGet \<equiv> ''GET''"
abbreviation "MethodPost \<equiv> ''POST''"
abbreviation "MethodPut \<equiv> ''PUT''"
abbreviation "MethodPatch \<equiv> ''PATCH''"
abbreviation "MethodDelete \<equiv> ''DELETE''"

definition GetUserContext :: "http_request \<Rightarrow> UserContext option" where
  "GetUserContext r = rq_User r"

definition GetUserProjects :: "http_request \<Rightarrow> string list" where
  "GetUserProjects r = (case GetUserContext r of None \<Rightarrow> [] | Some uc \<Rightarrow> uc_Projects uc)"

definition GetUserID :: "http_request \<Rightarrow> gerror + string" where
  "GetUserID r = (case GetUserContext r of None \<Rightarrow> Inl (Err ''no user context found'') | Some uc \<Rightarrow> Inr (uc_UserID uc))"

subsection \<open>Authentication\<close>

record JWTClaims =
  jc_UserID :: string
  jc_Email :: string
  jc_DisplayName :: string
  jc_Projects :: "string list"
  jc_DefaultProject :: string
  jc_Groups :: "string list"
  jc_Roles :: "(string \<times> string) list"
  jc_CasbinRoles :: "string list"
  jc_Permissions :: "(string \<times> bool) list"
  jc_JTI :: string
  jc_ExpiresAt :: int
  jc_IssuedAt :: int
  jc_Issuer :: string

type_synonym 'p token_validator = "string \<Rightarrow> 'p \<Rightarrow> (gerror + JWTClaims) \<times> 'p"

definition extractToken :: "http_request \<Rightarrow> string option" where
  "extractToken r =
     (case rq_Cookie r of
        Some (c # cs) \<Rightarrow> Some (c # cs)
      | _ \<Rightarrow>
          if rq_Authorization r = [] then None
          else (let parts = split_on (CHR '' '') (rq_Authorization r)
                in if length parts \<noteq> 2 \<or> parts ! 0 \<noteq> ''Bearer'' then None else Some (parts ! 1)))"

definition user_context :: "JWTClaims \<Rightarrow> UserContext" where
  "user_context claims =
     \<lparr>uc_UserID = jc_UserID claims, uc_Email = jc_Email claims, uc_DisplayName = jc_DisplayName claims,
      uc_Projects = jc_Projects claims, uc_DefaultProject = jc_DefaultProject claims,
      uc_Groups = jc_Groups claims, uc_CasbinRoles = jc_CasbinRoles claims, uc_Roles = jc_Roles claims,
      uc_Issuer = jc_Issuer claims, uc_TokenExpiresAt = jc_ExpiresAt claims, uc_TokenIssuedAt = jc_IssuedAt claims,
      uc_JTI = jc_JTI claims\<rparr>"

definition Auth :: "'p token_validator \<Rightarrow> 'p http_handler \<Rightarrow> 'p http_handler" where
  "Auth ValidateToken nxt r p =
     (case extractToken r of
        None \<Rightarrow> (Unauthorized ''missing authentication credentials'', p)
      | Some tokenString \<Rightarrow>
          (case ValidateToken tokenString p of
             (Inl _, p1) \<Rightarrow> (Unauthorized ''invalid or expired token'', p1)
           | (Inr claims, p1) \<Rightarrow> nxt (r\<lparr>rq_User := Some (user_context claims)\<rparr>) p1))"

definition OptionalAuth :: "'p token_validator \<Rightarrow> 'p http_handler \<Rightarrow> 'p http_handler" where
  "OptionalAuth ValidateToken nxt r p =
     (case extractToken r of
        None \<Rightarrow> nxt r p
      | Some tokenString \<Rightarrow>
          (case ValidateToken tokenString p of
             (Inl _, p1) \<Rightarrow> nxt r p1
           | (Inr claims, p1) \<Rightarrow> nxt (r\<lparr>rq_User := Some (user_context claims)\<rparr>) p1))"

subsection \<open>Paths\<close>

text \<open>
  \<open>path.Clean\<close>: empty and \<open>.\<close> elements vanish, a \<open>..\<close> removes the element before it, and at the root it
  vanishes. \<open>out\<close> holds the elements kept so far, the last one first.
\<close>

fun clean_elems :: "bool \<Rightarrow> string list \<Rightarrow> string list \<Rightarrow> string list" where
  "clean_elems rooted out [] = rev out"
| "clean_elems rooted out (e # es) =
     (if e = [] \<or> e = ''.'' then clean_elems rooted out es
      else if e = ''..''
        then clean_elems rooted
               (case out of
                  [] \<Rightarrow> if rooted then [] else [e]
                | e' # out' \<Rightarrow> if e' = ''..'' then e # out else out') es
      else clean_elems rooted (e # out) es)"

definition path_Clean :: "string \<Rightarrow> string" where
  "path_Clean s =
     (let rooted = (s \<noteq> [] \<and> hd s = CHR ''/'');
          out = join_on ''/'' (clean_elems rooted [] (split_on (CHR ''/'') s))
      in if rooted then CHR ''/'' # out else if out = [] then ''.'' else out)"

text \<open>Checks of single path parameters.\<close>

definition IsValidDNS1123Subdomain :: "string \<Rightarrow> bool" where
  "IsValidDNS1123Subdomain s \<longleftrightarrow>
     0 < length s \<and> length s \<le> 253 \<and> list_all dns_label_regex (split_on (CHR ''.'') s)"

definition IsValidK8sKind :: "string \<Rightarrow> bool" where
  "IsValidK8sKind s \<longleftrightarrow>
     0 < length s \<and> length s \<le> 63 \<and> is_upper (hd s) \<and>
     list_all (\<lambda>c. is_lower c \<or> is_upper c \<or> is_digit c) (tl s)"

definition IsValidAPIGroup :: "string \<Rightarrow> bool" where
  "IsValidAPIGroup s = IsValidDNS1123Subdomain s"

subsection \<open>Clean absolute paths\<close>

definition plain_elem :: "string \<Rightarrow> bool" where
  "plain_elem e \<longleftrightarrow> e \<noteq> [] \<and> e \<noteq> ''.'' \<and> e \<noteq> ''..'' \<and> CHR ''/'' \<notin> set e"

lemma clean_elems_plain:
  "list_all plain_elem es \<Longrightarrow> clean_elems rooted out es = rev out @ es"
  by (induction es arbitrary: out) (auto simp: plain_elem_def)

lemma clean_elems_rooted:
  assumes "list_all (\<lambda>e. CHR ''/'' \<notin> set e) es" "list_all plain_elem out"
  shows "list_all plain_elem (clean_elems True out es)"
  using assms
proof (induction es arbitrary: out)
  case Nil
  then show ?case by (auto simp: list_all_iff)
next
  case (Cons e es)
  have dots: "\<not> plain_elem ''..''" by (simp add: plain_elem_def)
  have "list_all plain_elem (case out of [] \<Rightarrow> [] | e' # out' \<Rightarrow> if e' = ''..'' then e # out else out')"
    using Cons.prems(2) dots by (cases out) auto
  then show ?case using Cons by (auto simp: plain_elem_def [of e])
qed

definition abs_path :: "string list \<Rightarrow> string" where
  "abs_path es = CHR ''/'' # join_on ''/'' es"

lemma split_abs_path:
  assumes "list_all plain_elem es"
  shows "split_on (CHR ''/'') (abs_path es) = [] # (if es = [] then [[]] else es)"
  using assms split_join_on [of es "CHR ''/''"] by (auto simp: abs_path_def list_all_iff plain_elem_def)

lemma path_Clean_abs:
  assumes "list_all plain_elem es"
  shows "path_Clean (abs_path es) = abs_path es"
  using assms by (simp add: path_Clean_def Let_def split_abs_path clean_elems_plain) (simp add: abs_path_def)

text \<open>The absolute paths that cleaning leaves alone are the slash-separated lists of plain elements.\<close>

lemma clean_path_elems:
  assumes "path_Clean s = s" "s \<noteq> []" "hd s = CHR ''/''"
  obtains es where "s = abs_path es" "list_all plain_elem es"
proof
  let ?es = "clean_elems True [] (split_on (CHR ''/'') s)"
  show "s = abs_path ?es" using assms by (simp add: path_Clean_def Let_def abs_path_def)
  show "list_all plain_elem ?es"
    by (rule clean_elems_rooted) (auto simp: list_all_iff dest: split_on_parts)
qed

text \<open>Prefixes of such a path, element by element.\<close>

definition path_tail :: "string list \<Rightarrow> string" where
  "path_tail es = concat (map (\<lambda>e. CHR ''/'' # e) es)"

lemma path_tail_simps [simp]: "path_tail [] = []" "path_tail (e # es) = CHR ''/'' # e @ path_tail es"
  by (simp_all add: path_tail_def)

lemma abs_path_tail: "abs_path es = (if es = [] then ''/'' else path_tail es)"
proof -
  have "es \<noteq> [] \<Longrightarrow> CHR ''/'' # join_on ''/'' es = path_tail es"
  proof (induction es)
    case (Cons e es)
    then show ?case by (cases "es = []") (simp_all add: join_on_Cons)
  qed simp
  then show ?thesis by (simp add: abs_path_def)
qed

lemma tail_hd: "path_tail es = [] \<or> (\<exists>t. path_tail es = CHR ''/'' # t)"
  by (cases es) auto

lemma prefix_no_sep:
  assumes "c \<notin> set b" "t = [] \<or> (\<exists>u. t = c # u)"
  shows "prefix b (e @ t) \<longleftrightarrow> prefix b e"
proof
  assume p: "prefix b (e @ t)"
  show "prefix b e"
  proof (rule ccontr)
    assume n: "\<not> prefix b e"
    then obtain u where "b = e @ u" "prefix u t" "u \<noteq> []"
      using p by (auto simp: prefix_append)
    then show False using assms by (auto simp: prefix_Cons)
  qed
qed auto

lemma prefix_path_tail:
  assumes "list_all plain_elem es" "list_all (\<lambda>e. CHR ''/'' \<notin> set e) ps" "CHR ''/'' \<notin> set b"
  shows "prefix (path_tail (ps @ [b])) (path_tail es) \<longleftrightarrow> (\<exists>x rest. es = ps @ x # rest \<and> prefix b x)"
  using assms
proof (induction ps arbitrary: es)
  case Nil
  then show ?case using tail_hd by (cases es) (auto simp: prefix_no_sep [where c = "CHR ''/''"])
next
  case (Cons p ps)
  show ?case
  proof (cases es)
    case Nil
    then show ?thesis by simp
  next
    case (Cons e es')
    have pe: "CHR ''/'' \<notin> set p" "CHR ''/'' \<notin> set e" using Cons.prems Cons by (auto simp: plain_elem_def)
    have "prefix (p @ path_tail (ps @ [b])) (e @ path_tail es') \<longleftrightarrow> p = e \<and> prefix (path_tail (ps @ [b])) (path_tail es')"
    proof
      assume l: "prefix (p @ path_tail (ps @ [b])) (e @ path_tail es')"
      have ne: "\<exists>t. path_tail (ps @ [b]) = CHR ''/'' # t" using tail_hd [of "ps @ [b]"] by (cases ps) auto
      have "prefix p e" using prefix_no_sep [OF pe(1) tail_hd] l by (metis prefix_appendD)
      then obtain u where u: "e = p @ u" by (auto simp: prefix_def)
      have "prefix (path_tail (ps @ [b])) (u @ path_tail es')" using l u by simp
      then have "u = []" using ne pe(2) u by (cases u) auto
      then show "p = e \<and> prefix (path_tail (ps @ [b])) (path_tail es')" using l u by simp
    qed auto
    then show ?thesis using Cons.IH [of es'] Cons.prems Cons by auto
  qed
qed

lemma plain_no_slash: "list_all plain_elem es \<Longrightarrow> list_all (\<lambda>e. CHR ''/'' \<notin> set e) es"
  by (auto simp: list_all_iff plain_elem_def)

lemma abs_path_eq:
  assumes "list_all plain_elem es" "list_all plain_elem fs"
  shows "abs_path es = abs_path fs \<longleftrightarrow> es = fs"
proof
  assume "abs_path es = abs_path fs"
  then have "split_on (CHR ''/'') (abs_path es) = split_on (CHR ''/'') (abs_path fs)" by simp
  then have "(if es = [] then [[]] else es) = (if fs = [] then [[]] else fs)"
    using assms by (simp add: split_abs_path)
  then show "es = fs" using assms by (auto simp: plain_elem_def split: if_splits)
qed simp

lemma trim_abs_path:
  assumes "list_all plain_elem es"
  shows "trim_right_char (CHR ''/'') (abs_path es) = (if es = [] then [] else abs_path es)"
proof (cases es rule: rev_cases)
  case Nil
  then show ?thesis by (simp add: abs_path_def trim_right_char_def)
next
  case (snoc ys y)
  have y: "y \<noteq> []" "CHR ''/'' \<notin> set y" using assms snoc by (auto simp: plain_elem_def)
  then have "last y \<noteq> CHR ''/''" by (metis last_in_set)
  with y(1) obtain z c where "y = z @ [c]" "c \<noteq> CHR ''/''" by (metis append_butlast_last_id)
  then show ?thesis using snoc by (simp add: abs_path_tail path_tail_def trim_right_char_def)
qed

text \<open>The elements after the prefix of the API.\<close>

lemma api_parts:
  assumes "list_all plain_elem es" "es \<noteq> []"
  shows "split_on (CHR ''/'') (trim_prefix (abs_path es) ''/api/v1/'') =
     (case es of a # v # x # rest \<Rightarrow> if a = ''api'' \<and> v = ''v1'' then x # rest else [] # es | _ \<Rightarrow> [] # es)"
proof -
  have p: "''/api/v1/'' = path_tail ([''api'', ''v1''] @ [[]])" by simp
  have *: "prefix ''/api/v1/'' (abs_path es) \<longleftrightarrow> (\<exists>x rest. es = [''api'', ''v1''] @ x # rest)"
    unfolding p using assms prefix_path_tail [of es "[''api'', ''v1'']" "[]"] by (simp add: abs_path_tail)
  show ?thesis
  proof (cases "prefix ''/api/v1/'' (abs_path es)")
    case True
    then obtain x rest where es: "es = ''api'' # ''v1'' # x # rest" using * by auto
    have "abs_path es = ''/api/v1/'' @ join_on ''/'' (x # rest)"
      unfolding es abs_path_def by (simp add: join_on_Cons)
    moreover have "split_on (CHR ''/'') (join_on ''/'' (x # rest)) = x # rest"
      using assms split_join_on [of "x # rest" "CHR ''/''"] es by (auto simp: list_all_iff plain_elem_def)
    ultimately show ?thesis unfolding es by (simp add: trim_prefix_def)
  next
    case False
    then have "trim_prefix (abs_path es) ''/api/v1/'' = abs_path es" by (simp add: trim_prefix_def)
    moreover have "\<nexists>x rest. es = ''api'' # ''v1'' # x # rest" using False * by auto
    ultimately show ?thesis using assms by (auto simp: split_abs_path split: list.split)
  qed
qed

end
