(* ===== verification/Authz_Middleware.thy ===== *)
theory Authz_Middleware
  imports Http_Request
begin

text \<open>
  \<open>middleware/authz.go\<close>: the gate every authenticated API request passes. It refuses what it cannot
  judge (no user, policies not loaded, an unclean path), lets administrators through, lets everybody
  through to the endpoints that filter by themselves, and asks the enforcer about the rest. The
  endpoints are recognised on strings; \<open>open_endpoint\<close> below says which they are on path elements.
\<close>

subsection \<open>Tests on paths\<close>

definition containsControlChars :: "string \<Rightarrow> bool" where
  "containsControlChars s = list_ex (\<lambda>b. of_char b \<le> (0x1F :: nat) \<or> of_char b = (0x7F :: nat)) s"

definition matchesPathPrefix :: "string \<Rightarrow> string \<Rightarrow> bool" where
  "matchesPathPrefix requestPath pathPrefix =
     (if pathPrefix = [] \<or> pathPrefix = ''/'' then False
      else (let requestPath = trim_right_char (CHR ''/'') requestPath;
                pathPrefix = trim_right_char (CHR ''/'') pathPrefix
            in if requestPath = pathPrefix then True
               else has_prefix (requestPath @ ''/'') (pathPrefix @ ''/'')))"

definition isRGDCatalogRequest :: "string \<Rightarrow> string \<Rightarrow> bool" where
  "isRGDCatalogRequest path method \<longleftrightarrow> method = MethodGet \<and> has_prefix path ''/api/v1/rgds''"

definition isCategoryListRequest :: "string \<Rightarrow> string \<Rightarrow> bool" where
  "isCategoryListRequest path method \<longleftrightarrow> method = MethodGet \<and> has_prefix path ''/api/v1/categories''"

definition isProjectListRequest :: "string \<Rightarrow> string \<Rightarrow> bool" where
  "isProjectListRequest path method \<longleftrightarrow>
     method = MethodGet \<and> trim_right_char (CHR ''/'') path = ''/api/v1/projects''"

definition isInstanceListRequest :: "string \<Rightarrow> string \<Rightarrow> bool" where
  "isInstanceListRequest path method =
     (if method \<noteq> MethodGet then False
      else (let cleanPath = trim_right_char (CHR ''/'') path
            in cleanPath = ''/api/v1/instances'' \<or> cleanPath = ''/api/v1/instances/count'' \<or>
               cleanPath = ''/api/v1/instances/pending'' \<or> cleanPath = ''/api/v1/instances/stuck''))"

definition instanceCollectionEndpoints :: "string list" where
  "instanceCollectionEndpoints = [''count'', ''pending'', ''stuck'']"

text \<open>The segment \<open>apigroups/{group}\<close> is dropped.\<close>

definition strip_apigroups :: "string list \<Rightarrow> string list" where
  "strip_apigroups parts = (if length parts \<ge> 2 \<and> parts ! 0 = ''apigroups'' then drop 2 parts else parts)"

definition isInstanceCreateRequest :: "string \<Rightarrow> string \<Rightarrow> bool" where
  "isInstanceCreateRequest path method =
     (if method \<noteq> MethodPost then False
      else (let cleanPath = trim_right_char (CHR ''/'') path;
                parts = strip_apigroups (split_on (CHR ''/'') (trim_prefix cleanPath ''/api/v1/''))
            in if length parts = 4 \<and> parts ! 0 = ''namespaces'' \<and> parts ! 2 = ''instances'' then True
               else if length parts = 2 \<and> parts ! 0 = ''instances'' \<and> parts ! 1 \<notin> set instanceCollectionEndpoints
                 then True
               else False))"

definition isProjectNamespaceRequest :: "string \<Rightarrow> string \<Rightarrow> bool" where
  "isProjectNamespaceRequest path method =
     (if method \<noteq> MethodGet then False
      else (let cleanPath = trim_right_char (CHR ''/'') path
            in if \<not> has_prefix cleanPath ''/api/v1/projects/'' then False
               else (let parts = split_on (CHR ''/'') (trim_prefix cleanPath ''/api/v1/projects/'')
                     in length parts = 2 \<and> parts ! 0 \<noteq> [] \<and> parts ! 1 = ''namespaces'')))"

definition isLicenseStatusRequest :: "string \<Rightarrow> string \<Rightarrow> bool" where
  "isLicenseStatusRequest path method \<longleftrightarrow>
     method = MethodGet \<and> trim_right_char (CHR ''/'') path = ''/api/v1/license''"

definition isAccountCanIRequest :: "string \<Rightarrow> string \<Rightarrow> bool" where
  "isAccountCanIRequest path method \<longleftrightarrow> method = MethodGet \<and> has_prefix path ''/api/v1/account/can-i/''"

definition isAccountInfoRequest :: "string \<Rightarrow> string \<Rightarrow> bool" where
  "isAccountInfoRequest path method \<longleftrightarrow>
     method = MethodGet \<and> trim_right_char (CHR ''/'') path = ''/api/v1/account/info''"

definition isWSTicketRequest :: "string \<Rightarrow> string \<Rightarrow> bool" where
  "isWSTicketRequest path method \<longleftrightarrow>
     method = MethodPost \<and> trim_right_char (CHR ''/'') path = ''/api/v1/ws/ticket''"

definition isK8sResourceListRequest :: "string \<Rightarrow> string \<Rightarrow> bool" where
  "isK8sResourceListRequest path method \<longleftrightarrow>
     method = MethodGet \<and> trim_right_char (CHR ''/'') path = ''/api/v1/resources''"

definition isSearchRequest :: "string \<Rightarrow> string \<Rightarrow> bool" where
  "isSearchRequest path method \<longleftrightarrow>
     method = MethodGet \<and> trim_right_char (CHR ''/'') path = ''/api/v1/search''"

subsection \<open>Object and action of a request\<close>

definition k8s_parts :: "string list \<Rightarrow> string list" where
  "k8s_parts parts =
     (if length parts \<ge> 3 \<and> parts ! 0 = ''namespaces'' then parts ! 2 # parts ! 1 # drop 3 parts else parts)"

definition inferCasbinObjectAndAction :: "string \<Rightarrow> string \<Rightarrow> string \<times> string" where
  "inferCasbinObjectAndAction method cleanPath =
     (let pathParts = k8s_parts (strip_apigroups (split_on (CHR ''/'') (trim_prefix cleanPath ''/api/v1/'')));
          action =
            (if method = MethodGet
               then (if length pathParts > 1 \<and> pathParts ! (length pathParts - 1) \<noteq> [] then ''get'' else ''list'')
             else if method = MethodPost then ''create''
             else if method = MethodPut \<or> method = MethodPatch then ''update''
             else if method = MethodDelete then ''delete''
             else ''unknown'');
          object =
            (if length pathParts > 0 \<and> pathParts ! 0 \<noteq> []
               then (if length pathParts > 1 \<and> pathParts ! 1 \<noteq> [] then join_on ''/'' pathParts
                     else pathParts ! 0 @ ''/*'')
             else ''*'')
      in (object, action))"

subsection \<open>The gate\<close>

record 'p CasbinAuthzConfig =
  az_Enforcer :: "(string \<Rightarrow> string list \<Rightarrow> string \<Rightarrow> string \<Rightarrow> 'p \<Rightarrow> (gerror + bool) \<times> 'p) option"
  az_IsPolicySynced :: "('p \<Rightarrow> bool) option"

text \<open>The endpoints open to every authenticated user, tried in this order.\<close>

definition bypasses :: "string \<Rightarrow> string \<Rightarrow> bool" where
  "bypasses path method \<longleftrightarrow>
     isRGDCatalogRequest path method \<or> isProjectListRequest path method \<or> isCategoryListRequest path method \<or>
     isInstanceListRequest path method \<or> isInstanceCreateRequest path method \<or>
     isProjectNamespaceRequest path method \<or> isLicenseStatusRequest path method \<or>
     isWSTicketRequest path method \<or> isAccountCanIRequest path method \<or> isAccountInfoRequest path method \<or>
     isSearchRequest path method \<or> isK8sResourceListRequest path method"

definition check_request :: "'p CasbinAuthzConfig \<Rightarrow> UserContext \<Rightarrow> 'p http_handler \<Rightarrow> 'p http_handler" where
  "check_request config uc nxt r p =
     (if bypasses (rq_Path r) (rq_Method r) then nxt r p
      else (case az_Enforcer config of
              None \<Rightarrow> (Forbidden ''authorization system not available'', p)
            | Some can \<Rightarrow>
                (case inferCasbinObjectAndAction (rq_Method r) (rq_Path r) of
                   (object, action) \<Rightarrow>
                     (case can (uc_UserID uc) (uc_Groups uc) object action p of
                        (Inl _, p1) \<Rightarrow> (InternalError ''failed to check permissions'', p1)
                      | (Inr False, p1) \<Rightarrow>
                          (WriteError 403 ''FORBIDDEN'' ''insufficient permissions''
                             [(''object'', object), (''action'', action)], p1)
                      | (Inr True, p1) \<Rightarrow> nxt r p1))))"

definition CasbinAuthz :: "'p CasbinAuthzConfig \<Rightarrow> 'p http_handler \<Rightarrow> 'p http_handler" where
  "CasbinAuthz config nxt r p =
     (case GetUserContext r of
        None \<Rightarrow> (Unauthorized ''authentication required'', p)
      | Some uc \<Rightarrow>
          if (case az_IsPolicySynced config of None \<Rightarrow> False | Some synced \<Rightarrow> \<not> synced p)
            then (ServiceUnavailable ''authorization service initializing, please retry'', p)
          else if path_Clean (rq_Path r) \<noteq> rq_Path r then (BadRequest ''invalid path'' [], p)
          else if containsControlChars (rq_Path r) \<or> (rq_RawPath r \<noteq> [] \<and> containsControlChars (rq_RawPath r))
            then (BadRequest ''invalid path parameter: contains null byte or control character'' [], p)
          else (case az_Enforcer config of
                  None \<Rightarrow> check_request config uc nxt r p
                | Some can \<Rightarrow>
                    (case can (uc_UserID uc) (uc_Groups uc) ''*'' ''*'' p of
                       (Inr True, p1) \<Rightarrow> nxt r p1
                     | (_, p1) \<Rightarrow> check_request config uc nxt r p1)))"

subsection \<open>Which endpoints are open\<close>

text \<open>
  The same on path elements: \<open>rest\<close> is what follows \<open>/api/v1\<close>. Two of the tests look at a prefix of an
  element, so every element that starts with \<open>rgds\<close> or \<open>categories\<close> is open.
\<close>

definition open_reads :: "string list \<Rightarrow> bool" where
  "open_reads rest \<longleftrightarrow>
     (case rest of e # _ \<Rightarrow> has_prefix e ''rgds'' \<or> has_prefix e ''categories'' | [] \<Rightarrow> False) \<or>
     rest \<in> set [[''projects''], [''instances''], [''instances'', ''count''], [''instances'', ''pending''],
       [''instances'', ''stuck''], [''license''], [''account'', ''info''], [''search''], [''resources'']] \<or>
     (length rest = 3 \<and> rest ! 0 = ''projects'' \<and> rest ! 2 = ''namespaces'') \<or>
     (length rest \<ge> 3 \<and> rest ! 0 = ''account'' \<and> rest ! 1 = ''can-i'')"

definition create_parts :: "string list \<Rightarrow> bool" where
  "create_parts parts \<longleftrightarrow>
     (length parts = 4 \<and> parts ! 0 = ''namespaces'' \<and> parts ! 2 = ''instances'') \<or>
     (length parts = 2 \<and> parts ! 0 = ''instances'' \<and> parts ! 1 \<notin> set instanceCollectionEndpoints)"

definition open_writes :: "string list \<Rightarrow> bool" where
  "open_writes rest \<longleftrightarrow> rest = [''ws'', ''ticket''] \<or> create_parts (strip_apigroups rest)"

definition open_endpoint :: "string \<Rightarrow> string list \<Rightarrow> bool" where
  "open_endpoint method es \<longleftrightarrow>
     (\<exists>rest. es = ''api'' # ''v1'' # rest \<and>
        (method = MethodGet \<and> open_reads rest \<or> method = MethodPost \<and> open_writes rest))"

lemma api_path:
  assumes "list_all plain_elem es" "list_all plain_elem fs"
  shows "trim_right_char (CHR ''/'') (abs_path es) = abs_path (''api'' # ''v1'' # fs) \<longleftrightarrow> es = ''api'' # ''v1'' # fs"
proof -
  have v: "list_all plain_elem (''api'' # ''v1'' # fs)" using assms(2) by (simp add: plain_elem_def)
  show ?thesis
    unfolding trim_abs_path [OF assms(1)] using abs_path_eq [OF assms(1) v] by (auto simp: abs_path_def)
qed

lemma prefix_api:
  assumes "list_all plain_elem es" "list_all (\<lambda>e. CHR ''/'' \<notin> set e) ps" "CHR ''/'' \<notin> set b"
  shows "prefix (path_tail (''api'' # ''v1'' # ps @ [b])) (abs_path es) \<longleftrightarrow>
    (\<exists>x rest. es = ''api'' # ''v1'' # ps @ x # rest \<and> prefix b x)"
proof (cases "es = []")
  case False
  then show ?thesis
    using prefix_path_tail [of es "''api'' # ''v1'' # ps" b] assms by (simp add: abs_path_tail)
qed (simp add: abs_path_def)

text \<open>The paths the tests compare with, by their elements.\<close>

lemma api_constants:
  "''/api/v1/projects'' = abs_path (''api'' # ''v1'' # [''projects''])"
  "''/api/v1/instances'' = abs_path (''api'' # ''v1'' # [''instances''])"
  "''/api/v1/instances/count'' = abs_path (''api'' # ''v1'' # [''instances'', ''count''])"
  "''/api/v1/instances/pending'' = abs_path (''api'' # ''v1'' # [''instances'', ''pending''])"
  "''/api/v1/instances/stuck'' = abs_path (''api'' # ''v1'' # [''instances'', ''stuck''])"
  "''/api/v1/license'' = abs_path (''api'' # ''v1'' # [''license''])"
  "''/api/v1/account/info'' = abs_path (''api'' # ''v1'' # [''account'', ''info''])"
  "''/api/v1/ws/ticket'' = abs_path (''api'' # ''v1'' # [''ws'', ''ticket''])"
  "''/api/v1/resources'' = abs_path (''api'' # ''v1'' # [''resources''])"
  "''/api/v1/search'' = abs_path (''api'' # ''v1'' # [''search''])"
  by (simp_all add: abs_path_def)

lemma api_prefixes:
  "''/api/v1/rgds'' = path_tail (''api'' # ''v1'' # [] @ [''rgds''])"
  "''/api/v1/categories'' = path_tail (''api'' # ''v1'' # [] @ [''categories''])"
  "''/api/v1/account/can-i/'' = path_tail (''api'' # ''v1'' # [''account'', ''can-i''] @ [[]])"
  "''/api/v1/projects/'' = path_tail (''api'' # ''v1'' # [''projects''] @ [[]])"
  by simp_all

lemma api_plain:
  "plain_elem ''projects''" "plain_elem ''instances''" "plain_elem ''count''" "plain_elem ''pending''"
  "plain_elem ''stuck''" "plain_elem ''license''" "plain_elem ''account''" "plain_elem ''info''" "plain_elem ''ws''"
  "plain_elem ''ticket''" "plain_elem ''resources''" "plain_elem ''search''" "plain_elem ''api''" "plain_elem ''v1''"
  by (simp_all add: plain_elem_def)

lemma exact_tests:
  assumes es: "list_all plain_elem es"
  shows "isProjectListRequest (abs_path es) m \<longleftrightarrow> m = MethodGet \<and> es = [''api'', ''v1'', ''projects'']"
  "isInstanceListRequest (abs_path es) m \<longleftrightarrow> m = MethodGet \<and>
     es \<in> set [[''api'', ''v1'', ''instances''], [''api'', ''v1'', ''instances'', ''count''],
               [''api'', ''v1'', ''instances'', ''pending''], [''api'', ''v1'', ''instances'', ''stuck'']]"
  "isLicenseStatusRequest (abs_path es) m \<longleftrightarrow> m = MethodGet \<and> es = [''api'', ''v1'', ''license'']"
  "isAccountInfoRequest (abs_path es) m \<longleftrightarrow> m = MethodGet \<and> es = [''api'', ''v1'', ''account'', ''info'']"
  "isWSTicketRequest (abs_path es) m \<longleftrightarrow> m = MethodPost \<and> es = [''api'', ''v1'', ''ws'', ''ticket'']"
  "isK8sResourceListRequest (abs_path es) m \<longleftrightarrow> m = MethodGet \<and> es = [''api'', ''v1'', ''resources'']"
  "isSearchRequest (abs_path es) m \<longleftrightarrow> m = MethodGet \<and> es = [''api'', ''v1'', ''search'']"
  unfolding isProjectListRequest_def isInstanceListRequest_def isLicenseStatusRequest_def isAccountInfoRequest_def
    isWSTicketRequest_def isK8sResourceListRequest_def isSearchRequest_def Let_def api_constants
  by (simp_all add: api_path es api_plain)

lemma prefix_tests:
  assumes es: "list_all plain_elem es"
  shows "isRGDCatalogRequest (abs_path es) m \<longleftrightarrow>
     m = MethodGet \<and> (\<exists>x rest. es = ''api'' # ''v1'' # x # rest \<and> prefix ''rgds'' x)"
  "isCategoryListRequest (abs_path es) m \<longleftrightarrow>
     m = MethodGet \<and> (\<exists>x rest. es = ''api'' # ''v1'' # x # rest \<and> prefix ''categories'' x)"
  "isAccountCanIRequest (abs_path es) m \<longleftrightarrow>
     m = MethodGet \<and> (\<exists>x rest. es = ''api'' # ''v1'' # ''account'' # ''can-i'' # x # rest)"
  using prefix_api [OF es, of "[]" "''rgds''"] prefix_api [OF es, of "[]" "''categories''"]
    prefix_api [OF es, of "[''account'', ''can-i'']" "[]"]
  by (simp_all add: isRGDCatalogRequest_def isCategoryListRequest_def isAccountCanIRequest_def)

lemma trim_root: "trim_right_char (CHR ''/'') (abs_path []) = []"
  by (simp add: trim_right_char_def abs_path_def)

lemma namespace_test:
  assumes es: "list_all plain_elem es"
  shows "isProjectNamespaceRequest (abs_path es) m \<longleftrightarrow>
    m = MethodGet \<and> (\<exists>x. es = [''api'', ''v1'', ''projects'', x, ''namespaces''])"
proof (cases "m = MethodGet \<and> es \<noteq> []")
  case False
  then show ?thesis by (cases "es = []") (auto simp: isProjectNamespaceRequest_def Let_def trim_root)
next
  case True
  have pre: "prefix ''/api/v1/projects/'' (abs_path es) \<longleftrightarrow> (\<exists>x rest. es = ''api'' # ''v1'' # ''projects'' # x # rest)"
    using prefix_api [OF es, of "[''projects'']" "[]"] by simp
  have split: "split_on (CHR ''/'') (trim_prefix (abs_path es) ''/api/v1/projects/'') = x # rest"
    if "es = ''api'' # ''v1'' # ''projects'' # x # rest" for x rest
  proof -
    have "abs_path es = ''/api/v1/projects/'' @ join_on ''/'' (x # rest)"
      unfolding that abs_path_def by (simp add: join_on_Cons)
    moreover have "split_on (CHR ''/'') (join_on ''/'' (x # rest)) = x # rest"
      using es split_join_on [of "x # rest" "CHR ''/''"] that by (auto simp: list_all_iff plain_elem_def)
    ultimately show ?thesis by (simp add: trim_prefix_def)
  qed
  show ?thesis
  proof (cases "\<exists>x rest. es = ''api'' # ''v1'' # ''projects'' # x # rest")
    case False
    then show ?thesis using True pre by (auto simp: isProjectNamespaceRequest_def Let_def trim_abs_path [OF es])
  next
    case l: True
    then obtain x rest where e: "es = ''api'' # ''v1'' # ''projects'' # x # rest" by blast
    have x: "x \<noteq> []" using es e by (simp add: plain_elem_def)
    have t: "trim_right_char (CHR ''/'') (abs_path es) = abs_path es" using trim_abs_path [OF es] True by simp
    have "isProjectNamespaceRequest (abs_path es) m \<longleftrightarrow> length (x # rest) = 2 \<and> x \<noteq> [] \<and> (x # rest) ! 1 = ''namespaces''"
      unfolding isProjectNamespaceRequest_def Let_def t split [OF e] using True l pre by simp
    then show ?thesis using True x e by (auto simp: length_Suc_conv numeral_2_eq_2)
  qed
qed

text \<open>The elements the routes of instances and the inference of objects work on.\<close>

definition route_parts :: "string list \<Rightarrow> string list" where
  "route_parts es =
     (case es of a # v # x # rest \<Rightarrow> if a = ''api'' \<and> v = ''v1'' then x # rest else [] # es | _ \<Rightarrow> [] # es)"

lemma route_parts_foreign: "(\<nexists>x rest. es = ''api'' # ''v1'' # x # rest) \<Longrightarrow> route_parts es = [] # es"
  by (auto simp: route_parts_def split: list.split)

lemma strip_foreign: "strip_apigroups ([] # es) = [] # es"
  by (simp add: strip_apigroups_def)

lemma create_request:
  "isInstanceCreateRequest path m \<longleftrightarrow>
    m = MethodPost \<and>
    create_parts (strip_apigroups (split_on (CHR ''/'') (trim_prefix (trim_right_char (CHR ''/'') path) ''/api/v1/'')))"
  by (simp add: isInstanceCreateRequest_def create_parts_def Let_def)

lemma create_test:
  assumes es: "list_all plain_elem es"
  shows "isInstanceCreateRequest (abs_path es) m \<longleftrightarrow>
    m = MethodPost \<and> (\<exists>rest. es = ''api'' # ''v1'' # rest \<and> create_parts (strip_apigroups rest))"
proof (cases "\<exists>x rest. es = ''api'' # ''v1'' # x # rest")
  case True
  then obtain x rest where e: "es = ''api'' # ''v1'' # x # rest" by blast
  have p: "split_on (CHR ''/'') (trim_prefix (abs_path es) ''/api/v1/'') = x # rest"
    using api_parts [OF es] e by simp
  have "trim_right_char (CHR ''/'') (abs_path es) = abs_path es" using trim_abs_path [OF es] e by simp
  then show ?thesis unfolding create_request using p e by simp
next
  case False
  have "split_on (CHR ''/'') (trim_prefix (trim_right_char (CHR ''/'') (abs_path es)) ''/api/v1/'') = [] # es"
    using api_parts [OF es] False route_parts_foreign [of es]
    by (cases "es = []") (simp_all add: route_parts_def trim_abs_path [OF es] trim_root trim_prefix_def)
  moreover have "\<not> create_parts ([] # es)" by (simp add: create_parts_def)
  moreover have "\<not> create_parts (strip_apigroups rest)" if "es = ''api'' # ''v1'' # rest" for rest
    using False that by (cases rest) (simp_all add: create_parts_def strip_apigroups_def)
  ultimately show ?thesis unfolding create_request by (auto simp: strip_foreign)
qed

lemma bypasses_iff:
  assumes es: "list_all plain_elem es"
  shows "bypasses (abs_path es) m \<longleftrightarrow> open_endpoint m es"
proof -
  have m: "(m = MethodGet) = False" if "m = MethodPost" using that by simp
  have n: "(\<exists>x. rest = [''projects'', x, ''namespaces'']) \<longleftrightarrow> length rest = 3 \<and> rest ! 0 = ''projects'' \<and> rest ! 2 = ''namespaces''"
    for rest by (auto simp: length_Suc_conv numeral_3_eq_3)
  have c: "(\<exists>x r. rest = ''account'' # ''can-i'' # x # r) \<longleftrightarrow> length rest \<ge> 3 \<and> rest ! 0 = ''account'' \<and> rest ! 1 = ''can-i''"
    for rest by (auto simp: numeral_3_eq_3 Suc_le_length_iff)
  have h: "(case rest of e # _ \<Rightarrow> has_prefix e ''rgds'' \<or> has_prefix e ''categories'' | [] \<Rightarrow> False) \<longleftrightarrow>
      (\<exists>x r. rest = x # r \<and> prefix ''rgds'' x) \<or> (\<exists>x r. rest = x # r \<and> prefix ''categories'' x)" for rest
    by (cases rest) auto
  show ?thesis
  proof (cases "\<exists>rest. es = ''api'' # ''v1'' # rest")
    case True
    then obtain rest where e: "es = ''api'' # ''v1'' # rest" by blast
    have tests:
      "isRGDCatalogRequest (abs_path es) m \<longleftrightarrow> m = MethodGet \<and> (\<exists>x r. rest = x # r \<and> prefix ''rgds'' x)"
      "isCategoryListRequest (abs_path es) m \<longleftrightarrow> m = MethodGet \<and> (\<exists>x r. rest = x # r \<and> prefix ''categories'' x)"
      "isAccountCanIRequest (abs_path es) m \<longleftrightarrow> m = MethodGet \<and> (\<exists>x r. rest = ''account'' # ''can-i'' # x # r)"
      "isProjectListRequest (abs_path es) m \<longleftrightarrow> m = MethodGet \<and> rest = [''projects'']"
      "isInstanceListRequest (abs_path es) m \<longleftrightarrow> m = MethodGet \<and> (rest = [''instances''] \<or> rest = [''instances'', ''count''] \<or>
         rest = [''instances'', ''pending''] \<or> rest = [''instances'', ''stuck''])"
      "isLicenseStatusRequest (abs_path es) m \<longleftrightarrow> m = MethodGet \<and> rest = [''license'']"
      "isAccountInfoRequest (abs_path es) m \<longleftrightarrow> m = MethodGet \<and> rest = [''account'', ''info'']"
      "isWSTicketRequest (abs_path es) m \<longleftrightarrow> m = MethodPost \<and> rest = [''ws'', ''ticket'']"
      "isK8sResourceListRequest (abs_path es) m \<longleftrightarrow> m = MethodGet \<and> rest = [''resources'']"
      "isSearchRequest (abs_path es) m \<longleftrightarrow> m = MethodGet \<and> rest = [''search'']"
      "isProjectNamespaceRequest (abs_path es) m \<longleftrightarrow> m = MethodGet \<and> (\<exists>x. rest = [''projects'', x, ''namespaces''])"
      "isInstanceCreateRequest (abs_path es) m \<longleftrightarrow> m = MethodPost \<and> create_parts (strip_apigroups rest)"
      unfolding exact_tests [OF es] prefix_tests [OF es] namespace_test [OF es] create_test [OF es] by (simp_all add: e)
    have oe: "open_endpoint m es \<longleftrightarrow> m = MethodGet \<and> open_reads rest \<or> m = MethodPost \<and> open_writes rest"
      by (simp add: open_endpoint_def e)
    show ?thesis
      unfolding bypasses_def tests oe open_writes_def open_reads_def h n [symmetric] c [symmetric]
        list.set insert_iff empty_iff by argo
  next
    case False
    then show ?thesis
      unfolding bypasses_def exact_tests [OF es] prefix_tests [OF es] namespace_test [OF es] create_test [OF es]
        open_endpoint_def by auto
  qed
qed

subsection \<open>Objects of the routes\<close>

lemma infer_parts:
  assumes "list_all plain_elem rest" "rest \<noteq> []"
  shows "split_on (CHR ''/'') (trim_prefix (abs_path (''api'' # ''v1'' # rest)) ''/api/v1/'') = rest"
proof -
  have "list_all plain_elem (''api'' # ''v1'' # rest)" using assms(1) by (simp add: plain_elem_def)
  from api_parts [OF this] show ?thesis using assms(2) by (cases rest) auto
qed

text \<open>The group of a route is no part of its object.\<close>

lemma infer_ignores_group:
  assumes "list_all plain_elem (g # rest)" "rest \<noteq> []" "hd rest \<noteq> ''apigroups''"
  shows "inferCasbinObjectAndAction m (abs_path (''api'' # ''v1'' # ''apigroups'' # g # rest)) =
         inferCasbinObjectAndAction m (abs_path (''api'' # ''v1'' # rest))"
proof -
  have "list_all plain_elem (''apigroups'' # g # rest)" using assms(1) by (simp add: plain_elem_def)
  from infer_parts [OF this] infer_parts [of rest] assms show ?thesis
    by (cases rest) (simp_all add: inferCasbinObjectAndAction_def Let_def strip_apigroups_def)
qed

text \<open>The object of a namespaced instance, or of something below it, starts with its namespace.\<close>

lemma infer_namespaced:
  assumes "list_all plain_elem (g # ns # rest)" "rest \<noteq> []"
  shows "inferCasbinObjectAndAction MethodGet
           (abs_path (''api'' # ''v1'' # ''apigroups'' # g # ''namespaces'' # ns # ''instances'' # rest)) =
         (join_on ''/'' (''instances'' # ns # rest), ''get'')"
proof -
  have *: "list_all plain_elem (''namespaces'' # ns # ''instances'' # rest)" using assms(1) by (simp add: plain_elem_def)
  have l: "last rest \<noteq> []" "ns \<noteq> []" using assms by (auto simp: list_all_iff plain_elem_def)
  have g: "inferCasbinObjectAndAction MethodGet
           (abs_path (''api'' # ''v1'' # ''apigroups'' # g # ''namespaces'' # ns # ''instances'' # rest)) =
         inferCasbinObjectAndAction MethodGet (abs_path (''api'' # ''v1'' # ''namespaces'' # ns # ''instances'' # rest))"
    by (rule infer_ignores_group) (use assms(1) * in simp_all)
  have p: "split_on (CHR ''/'') (trim_prefix (abs_path (''api'' # ''v1'' # ''namespaces'' # ns # ''instances'' # rest)) ''/api/v1/'') =
      ''namespaces'' # ns # ''instances'' # rest"
    by (rule infer_parts [OF *]) simp
  have k: "k8s_parts (strip_apigroups (''namespaces'' # ns # ''instances'' # rest)) = ''instances'' # ns # rest"
    by (simp add: strip_apigroups_def k8s_parts_def)
  have n: "(''instances'' # ns # rest) ! (length (''instances'' # ns # rest) - 1) = last rest"
    using last_conv_nth [of "''instances'' # ns # rest"] assms(2) by simp
  show ?thesis
    unfolding g unfolding inferCasbinObjectAndAction_def Let_def p k n using l by simp
qed

subsection \<open>What the gate lets through\<close>

lemma check_request_cases:
  "(\<exists>res. (\<forall>nxt. check_request config uc nxt r p = res) \<and> rs_Status (fst res) \<in> {403, 500}) \<or>
   (\<exists>p'. (\<forall>nxt. check_request config uc nxt r p = nxt r p') \<and>
      (bypasses (rq_Path r) (rq_Method r) \<and> p' = p \<or>
       (\<exists>can ob a. az_Enforcer config = Some can \<and> can (uc_UserID uc) (uc_Groups uc) ob a p = (Inr True, p') \<and>
          (ob, a) = inferCasbinObjectAndAction (rq_Method r) (rq_Path r))))"
proof (cases "bypasses (rq_Path r) (rq_Method r)")
  case True
  then show ?thesis by (auto simp: check_request_def)
next
  case False
  note nb = this
  show ?thesis
  proof (cases "az_Enforcer config")
    case None
    then show ?thesis using nb by (auto simp: check_request_def)
  next
    case (Some can)
    obtain ob a where o: "inferCasbinObjectAndAction (rq_Method r) (rq_Path r) = (ob, a)" by fastforce
    obtain b p1 where c: "can (uc_UserID uc) (uc_Groups uc) ob a p = (b, p1)" by fastforce
    have *: "check_request config uc nxt r p =
        (case b of Inl _ \<Rightarrow> (InternalError ''failed to check permissions'', p1)
         | Inr True \<Rightarrow> nxt r p1
         | Inr False \<Rightarrow> (WriteError 403 ''FORBIDDEN'' ''insufficient permissions'' [(''object'', ob), (''action'', a)], p1))" for nxt
      using nb Some o c by (auto simp: check_request_def split: sum.split bool.split)
    show ?thesis
    proof (cases b)
      case (Inr d)
      then show ?thesis using * Some o c by (cases d) auto
    qed (use * in auto)
  qed
qed

text \<open>
  C33: The gate fails closed, whatever the enforcer answers. A request either gets an answer that does
  not depend on the handler behind the gate, with one of the statuses 400, 401, 403, 500, 503, or the
  handler runs, and then there is a user, the policies are loaded, the path is a list of plain elements
  without control characters, and either the endpoint is in the table of open endpoints or the enforcer
  said yes to this user for everything or for the object and action of this request.
\<close>
theorem casbin_authz_fails_closed:
  assumes abs: "rq_Path r = CHR ''/'' # s"
  shows "(\<exists>res. (\<forall>nxt. CasbinAuthz config nxt r p = res) \<and> rs_Status (fst res) \<in> {400, 401, 403, 500, 503}) \<or>
    (\<exists>uc es p'. (\<forall>nxt. CasbinAuthz config nxt r p = nxt r p') \<and>
       rq_User r = Some uc \<and> (\<forall>synced \<in> set_option (az_IsPolicySynced config). synced p) \<and>
       rq_Path r = abs_path es \<and> list_all plain_elem es \<and> \<not> containsControlChars (rq_Path r) \<and>
       (open_endpoint (rq_Method r) es \<or>
        (\<exists>can ob a q. az_Enforcer config = Some can \<and> can (uc_UserID uc) (uc_Groups uc) ob a q = (Inr True, p') \<and>
           (ob, a) \<in> {(''*'', ''*''), inferCasbinObjectAndAction (rq_Method r) (rq_Path r)})))"
proof (cases "rq_User r")
  case None
  then show ?thesis by (auto simp: CasbinAuthz_def GetUserContext_def)
next
  case (Some uc)
  note u = this
  let ?ready = "\<forall>synced \<in> set_option (az_IsPolicySynced config). synced p"
  let ?ctrl = "containsControlChars (rq_Path r) \<or> rq_RawPath r \<noteq> [] \<and> containsControlChars (rq_RawPath r)"
  show ?thesis
  proof (cases "?ready \<and> path_Clean (rq_Path r) = rq_Path r \<and> \<not> ?ctrl")
    case False
    have "\<exists>m. \<forall>nxt. CasbinAuthz config nxt r p = (m, p) \<and> rs_Status m \<in> {400, 503}"
    proof (cases "?ready \<and> path_Clean (rq_Path r) = rq_Path r")
      case True
      then have "\<forall>nxt. CasbinAuthz config nxt r p =
          (BadRequest ''invalid path parameter: contains null byte or control character'' [], p)"
        using u False by (auto simp: CasbinAuthz_def GetUserContext_def split: option.split)
      then show ?thesis by auto
    next
      case nr: False
      show ?thesis
      proof (cases ?ready)
        case True
        then have "\<forall>nxt. CasbinAuthz config nxt r p = (BadRequest ''invalid path'' [], p)"
          using u nr by (auto simp: CasbinAuthz_def GetUserContext_def split: option.split)
        then show ?thesis by auto
      next
        case False
        then have "\<forall>nxt. CasbinAuthz config nxt r p =
            (ServiceUnavailable ''authorization service initializing, please retry'', p)"
          using u by (auto simp: CasbinAuthz_def GetUserContext_def split: option.splits)
        then show ?thesis by auto
      qed
    qed
    then obtain m where "\<forall>nxt. CasbinAuthz config nxt r p = (m, p)" "rs_Status m \<in> {400, 503}" by blast
    then show ?thesis by (intro disjI1 exI [of _ "(m, p)"]) auto
  next
    case True
    obtain es where es: "rq_Path r = abs_path es" "list_all plain_elem es"
      using clean_path_elems [of "rq_Path r"] True abs by (metis list.sel(1) list.distinct(1))
    have gate: "CasbinAuthz config nxt r p = (case az_Enforcer config of
        None \<Rightarrow> check_request config uc nxt r p
      | Some can \<Rightarrow> (case can (uc_UserID uc) (uc_Groups uc) ''*'' ''*'' p of
           (Inr True, p1) \<Rightarrow> nxt r p1 | (_, p1) \<Rightarrow> check_request config uc nxt r p1))" for nxt
      using True u by (auto simp: CasbinAuthz_def GetUserContext_def split: option.splits)
    have asked: "\<exists>q. \<forall>nxt. CasbinAuthz config nxt r p = check_request config uc nxt r q"
      if "\<nexists>can p1. az_Enforcer config = Some can \<and> can (uc_UserID uc) (uc_Groups uc) ''*'' ''*'' p = (Inr True, p1)"
    proof (cases "az_Enforcer config")
      case (Some can)
      obtain b p1 where "can (uc_UserID uc) (uc_Groups uc) ''*'' ''*'' p = (b, p1)" by fastforce
      then show ?thesis using gate Some that by (cases b) (auto split: bool.splits)
    qed (use gate in auto)
    show ?thesis
    proof (cases "\<exists>can p1. az_Enforcer config = Some can \<and> can (uc_UserID uc) (uc_Groups uc) ''*'' ''*'' p = (Inr True, p1)")
      case adm: True
      then obtain can p1 where c: "az_Enforcer config = Some can" "can (uc_UserID uc) (uc_Groups uc) ''*'' ''*'' p = (Inr True, p1)"
        by blast
      then have "\<forall>nxt. CasbinAuthz config nxt r p = nxt r p1" using gate by simp
      moreover have "?ready" "\<not> containsControlChars (rq_Path r)" using True by blast+
      ultimately show ?thesis using c u es
        by (intro disjI2 exI [of _ uc] exI [of _ es] exI [of _ p1] conjI disjI2 exI [of _ can] exI [of _ "''*''"] exI [of _ p])
          simp_all
    next
      case False
      then obtain q where q: "\<forall>nxt. CasbinAuthz config nxt r p = check_request config uc nxt r q" using asked by blast
      have ready: "?ready" "\<not> containsControlChars (rq_Path r)" using True by blast+
      note open_iff = bypasses_iff [OF es(2), of "rq_Method r"]
      from check_request_cases [of config uc r q] show ?thesis
      proof (elim disjE exE conjE)
        fix res assume "\<forall>nxt. check_request config uc nxt r q = res" "rs_Status (fst res) \<in> {403, 500}"
        then show ?thesis using q by (intro disjI1 exI [of _ res]) auto
      next
        fix p' assume "\<forall>nxt. check_request config uc nxt r q = nxt r p'" "bypasses (rq_Path r) (rq_Method r)"
        moreover from this have "open_endpoint (rq_Method r) es" using open_iff es(1) by simp
        ultimately show ?thesis using q u ready es
          by (intro disjI2 exI [of _ uc] exI [of _ es] exI [of _ p']) simp
      next
        fix p' can ob a
        assume "\<forall>nxt. check_request config uc nxt r q = nxt r p'" "az_Enforcer config = Some can"
          "can (uc_UserID uc) (uc_Groups uc) ob a q = (Inr True, p')" "(ob, a) = inferCasbinObjectAndAction (rq_Method r) (rq_Path r)"
        then show ?thesis using q u ready es
          by (intro disjI2 exI [of _ uc] exI [of _ es] exI [of _ p'] conjI disjI2 exI [of _ can] exI [of _ ob] exI [of _ a] exI [of _ q])
            simp_all
      qed
    qed
  qed
qed

definition demo_request :: "string \<Rightarrow> string list \<Rightarrow> http_request" where
  "demo_request method es =
     \<lparr>rq_Method = method, rq_Path = abs_path es, rq_RawPath = [], rq_Cookie = None, rq_Authorization = [],
      rq_Body = NotJson, rq_PathValue = (\<lambda>_. []),
      rq_User = Some \<lparr>uc_UserID = ''user:al'', uc_Email = [], uc_DisplayName = [], uc_Projects = [], uc_DefaultProject = [],
        uc_Groups = [''devs''], uc_CasbinRoles = [], uc_Roles = [], uc_Issuer = [], uc_TokenExpiresAt = 0,
        uc_TokenIssuedAt = 0, uc_JTI = []\<rparr>,
      rq_Deployment = None, rq_Project = None\<rparr>"

abbreviation demo_path :: "string list" where
  "demo_path \<equiv> [''api'', ''v1'', ''apigroups'', ''kro.run'', ''namespaces'', ''alpha'', ''instances'', ''App'', ''x'']"

lemma demo_request_sel [simp]:
  "rq_Method (demo_request m es) = m" "rq_Path (demo_request m es) = abs_path es"
  "rq_RawPath (demo_request m es) = []"
  by (simp_all add: demo_request_def)

theorem casbin_authz_fails_closed_witness:
  "let config = \<lparr>az_Enforcer = None, az_IsPolicySynced = None\<rparr> :: unit CasbinAuthzConfig
   in (\<exists>res. (\<forall>nxt. CasbinAuthz config nxt (demo_request ''GET'' demo_path) () = res) \<and> rs_Status (fst res) = 403)"
proof -
  let ?r = "demo_request ''GET'' demo_path"
  let ?config = "\<lparr>az_Enforcer = None, az_IsPolicySynced = None\<rparr> :: unit CasbinAuthzConfig"
  have p: "rq_Path ?r = CHR ''/'' # join_on ''/'' demo_path" by (simp add: abs_path_def)
  have pl: "list_all plain_elem demo_path" by (simp add: plain_elem_def)
  have no: "\<not> open_endpoint ''GET'' es" if "abs_path demo_path = abs_path es" "list_all plain_elem es" for es
    using that abs_path_eq [OF pl that(2)] by (auto simp: open_endpoint_def open_reads_def)
  have st: "rs_Status (fst (CasbinAuthz ?config (\<lambda>r p. (Conflict [] [], p)) ?r ())) = 403" by code_simp
  from casbin_authz_fails_closed [OF p, of ?config "()"] no st show ?thesis
    by (fastforce simp: Let_def)
qed

context authorizer begin

lemma gate_decides:
  assumes "good p" and u: "rq_User r = Some uc" and ready: "\<forall>synced \<in> set_option ready. synced p"
    and path: "rq_Path r = abs_path es" "list_all plain_elem es"
      "\<not> containsControlChars (rq_Path r)" "\<not> containsControlChars (rq_RawPath r)"
    and obj: "inferCasbinObjectAndAction (rq_Method r) (rq_Path r) = (ob, a)"
    and asks: "asks p (uc_UserID uc) (uc_Groups uc) ''*'' ''*''" "asks p (uc_UserID uc) (uc_Groups uc) ob a"
  shows "\<exists>p'. CasbinAuthz \<lparr>az_Enforcer = Some can, az_IsPolicySynced = ready\<rparr> nxt r p =
      (if decide p (uc_UserID uc) (uc_Groups uc) ''*'' ''*'' \<or> open_endpoint (rq_Method r) es \<or>
          decide p (uc_UserID uc) (uc_Groups uc) ob a
       then nxt r p'
       else (WriteError 403 ''FORBIDDEN'' ''insufficient permissions'' [(''object'', ob), (''action'', a)], p')) \<and>
    good p' \<and> decide p' = decide p"
proof -
  let ?config = "\<lparr>az_Enforcer = Some can, az_IsPolicySynced = ready\<rparr>"
  obtain p1 where p1: "can (uc_UserID uc) (uc_Groups uc) ''*'' ''*'' p = (Inr (decide p (uc_UserID uc) (uc_Groups uc) ''*'' ''*''), p1)"
      "good p1" "decide p1 = decide p" "asks p1 = asks p"
    using can_decides [OF assms(1) asks(1)] by blast
  have "asks p1 (uc_UserID uc) (uc_Groups uc) ob a" using asks(2) p1(4) by simp
  from can_decides [OF p1(2) this] obtain p2
    where p2: "can (uc_UserID uc) (uc_Groups uc) ob a p1 = (Inr (decide p (uc_UserID uc) (uc_Groups uc) ob a), p2)"
      "good p2" "decide p2 = decide p"
    using p1(3) by auto
  have gate: "CasbinAuthz ?config nxt r p =
      (if decide p (uc_UserID uc) (uc_Groups uc) ''*'' ''*'' then nxt r p1 else check_request ?config uc nxt r p1)"
    using u ready path path_Clean_abs [OF path(2)] p1(1)
    by (auto simp: CasbinAuthz_def GetUserContext_def split: option.split bool.split)
  have chk: "check_request ?config uc nxt r p1 =
      (if open_endpoint (rq_Method r) es then nxt r p1
       else if decide p (uc_UserID uc) (uc_Groups uc) ob a then nxt r p2
       else (WriteError 403 ''FORBIDDEN'' ''insufficient permissions'' [(''object'', ob), (''action'', a)], p2))"
    using bypasses_iff [OF path(2), of "rq_Method r"] path(1) obj p2(1)
    by (auto simp: check_request_def split: bool.split)
  show ?thesis unfolding gate chk using p1 p2 by auto
qed

end


lemma demo_gate_facts:
  "clean_request mem_lib None demo_access ''user:al'' [''devs''] ''*'' ''*''"
  "clean_request mem_lib None demo_access ''user:al'' [''devs''] ''instances/alpha/App/x'' ''get''"
  "\<not> granted_by mem_lib None demo_access ''user:al'' [''devs''] ''*'' ''*''"
  "granted_by mem_lib None demo_access ''user:al'' [''devs''] ''instances/alpha/App/x'' ''get''"
proof -
  have s: "access_subjects mem_lib (pe_engine demo_access) ''user:al'' [''devs''] = [''user:al'', ''group:devs'']"
    "objectsToCheck mem_lib None [''devs''] ''*'' ''*'' (pe_engine demo_access) = [''*'']"
    "objectsToCheck mem_lib None [''devs''] ''instances/alpha/App/x'' ''get'' (pe_engine demo_access) = [''instances/alpha/App/x'']"
    by code_simp+
  show "clean_request mem_lib None demo_access ''user:al'' [''devs''] ''*'' ''*''"
    "clean_request mem_lib None demo_access ''user:al'' [''devs''] ''instances/alpha/App/x'' ''get''"
    unfolding clean_request_def s by (simp_all add: clean_def)
  have d: "lib_Enforce mem_lib (pe_engine demo_access) ''user:al'' ''*'' ''*'' = Inr False"
    "lib_Enforce mem_lib (pe_engine demo_access) ''group:devs'' ''*'' ''*'' = Inr False"
    "lib_Enforce mem_lib (pe_engine demo_access) ''group:devs'' ''instances/alpha/App/x'' ''get'' = Inr True"
    by code_simp+
  show "\<not> granted_by mem_lib None demo_access ''user:al'' [''devs''] ''*'' ''*''"
    "granted_by mem_lib None demo_access ''user:al'' [''devs''] ''instances/alpha/App/x'' ''get''"
    unfolding granted_by_def s by (simp_all add: d)
qed


text \<open>
  The object of a namespaced route starts with the namespace where the policies of a project start with
  the name of the project. A role of project \<open>alpha\<close> reaches the handlers of a namespace that is called
  \<open>alpha\<close> even when that namespace belongs to project \<open>beta\<close>; the handlers of history, timeline and events
  do not look at the project again.
\<close>
lemma namespace_named_like_a_project_is_reached:
  "let reader = \<lparr>pr_ListProjects = Inr [], pr_FindProjectForNamespace =
                   (\<lambda>ns. Inr (if ns = ''alpha'' then Some (demo_project ''beta'' []) else None))\<rparr>;
       config = \<lparr>az_Enforcer = Some (CanAccessWithGroups mem_lib memory_cache_ops (Some reader) 0), az_IsPolicySynced = None\<rparr>;
       r = demo_request ''GET'' [''api'', ''v1'', ''apigroups'', ''kro.run'', ''namespaces'', ''alpha'', ''instances'', ''App'', ''x'', ''events''];
       handler = (\<lambda>r p. (Conflict ''reached'' [], p))
   in rs_Status (fst (CasbinAuthz config handler r demo_access)) = 409"
  by code_simp

text \<open>Every endpoint whose name starts with \<open>rgds\<close> or \<open>categories\<close> is open, not only those two.\<close>
lemma open_prefix_has_no_boundary:
  "bypasses ''/api/v1/rgds-admin/secrets'' ''GET'' \<and> bypasses ''/api/v1/categories2'' ''GET''"
  by code_simp

end
