(* ===== verification/Retry.thy ===== *)
theory Retry
  imports Knodex_Prelude "HOL-Library.Word"
begin

text \<open>
  \<open>util/retry\<close> and \<open>rbac/concurrency.go\<close>: loops that repeat an operation. The operation and what surrounds
  it (the context, the clock, the timer, the random source) act on a state \<open>'w\<close>. An error is permanent
  when the operation says so.
\<close>

subsection \<open>Errors and configuration\<close>

datatype retry_error = PermanentError gerror | Plain gerror

fun Permanent :: "retry_error option \<Rightarrow> retry_error option" where
  "Permanent None = None"
| "Permanent (Some (Plain e)) = Some (PermanentError e)"
| "Permanent (Some (PermanentError e)) = Some (PermanentError e)"

record RetryConfig =
  rt_MaxAttempts :: int
  rt_BaseDelay :: int
  rt_MaxDelay :: int
  rt_MaxTotalDuration :: int

definition DefaultConfig :: RetryConfig where
  "DefaultConfig =
     \<lparr>rt_MaxAttempts = 3, rt_BaseDelay = 10 ^ 9, rt_MaxDelay = 30 * 10 ^ 9, rt_MaxTotalDuration = 0\<rparr>"

text \<open>
  Delays are nanoseconds in 64 bits; the product of the power and the base delay wraps. From attempt 63 on
  the conversion of the power from floating point is up to the implementation of Go. The jitter stands
  for the floating-point product with a factor between 0.75 and 1.25; it is drawn with the random bytes,
  \<open>None\<close> when there are none.
\<close>

definition backoffDelay :: "nat \<Rightarrow> int \<Rightarrow> int \<Rightarrow> (int \<Rightarrow> int) option \<Rightarrow> int" where
  "backoffDelay attempt baseDelay maxDelay jitter =
     (let delay = sint (2 ^ attempt * word_of_int baseDelay :: 64 word);
          delay = (if delay > maxDelay then maxDelay else delay);
          delay = (case jitter of None \<Rightarrow> delay | Some j \<Rightarrow> j delay)
      in if delay > maxDelay then maxDelay else delay)"

text \<open>
  \<open>re_ctx\<close> is the error of a context that is done; \<open>re_wait\<close> waits for a delay and tells whether the context
  was done first.
\<close>

record 'w retry_env =
  re_ctx :: "'w \<Rightarrow> gerror option"
  re_now :: "'w \<Rightarrow> int"
  re_rand :: "'w \<Rightarrow> (int \<Rightarrow> int) option \<times> 'w"
  re_wait :: "int \<Rightarrow> 'w \<Rightarrow> bool \<times> 'w"

type_synonym ('w, 'a) operation = "'w \<Rightarrow> (retry_error + 'a) \<times> 'w"

subsection \<open>\<open>DoWithResult\<close>\<close>

definition wrap_last :: "string \<Rightarrow> gerror option \<Rightarrow> gerror" where
  "wrap_last m e = (case e of None \<Rightarrow> Err m | Some e' \<Rightarrow> Wrap m e')"

text \<open>The context is done: the zero value and its error.\<close>

definition ctx_error :: "'w retry_env \<Rightarrow> 'w \<Rightarrow> gerror" where
  "ctx_error env w = (case re_ctx env w of Some e \<Rightarrow> e | None \<Rightarrow> Err ''context canceled'')"

definition pause :: "'w retry_env \<Rightarrow> RetryConfig \<Rightarrow> nat \<Rightarrow> 'w \<Rightarrow> bool \<times> 'w" where
  "pause env config attempt w =
     (case re_rand env w of (jitter, w1) \<Rightarrow>
        re_wait env (backoffDelay attempt (rt_BaseDelay config) (rt_MaxDelay config) jitter) w1)"

text \<open>The loop with \<open>left\<close> attempts to go.\<close>

fun retry_loop ::
  "'w retry_env \<Rightarrow> RetryConfig \<Rightarrow> int \<Rightarrow> ('w, 'a) operation \<Rightarrow> nat \<Rightarrow> nat \<Rightarrow> gerror option \<Rightarrow> 'w \<Rightarrow>
   (gerror + 'a) \<times> 'w" where
  "retry_loop env config start fn 0 attempt lastErr w = (Inl (wrap_last ''retry: max attempts exceeded'' lastErr), w)"
| "retry_loop env config start fn (Suc left) attempt lastErr w =
     (case re_ctx env w of
        Some e \<Rightarrow> (Inl e, w)
      | None \<Rightarrow>
          if rt_MaxTotalDuration config > 0 \<and> re_now env w - start \<ge> rt_MaxTotalDuration config
            then (Inl (wrap_last ''retry: max total duration exceeded'' lastErr), w)
          else (case fn w of
                  (Inr result, w1) \<Rightarrow> (Inr result, w1)
                | (Inl (PermanentError e), w1) \<Rightarrow> (Inl e, w1)
                | (Inl (Plain e), w1) \<Rightarrow>
                    if left = 0 then retry_loop env config start fn left (Suc attempt) (Some e) w1
                    else (case pause env config attempt w1 of
                            (True, w2) \<Rightarrow> (Inl (ctx_error env w2), w2)
                          | (False, w2) \<Rightarrow> retry_loop env config start fn left (Suc attempt) (Some e) w2)))"

definition attempts :: "RetryConfig \<Rightarrow> nat" where
  "attempts config = nat (if rt_MaxAttempts config \<le> 0 then 1 else rt_MaxAttempts config)"

definition DoWithResult :: "'w retry_env \<Rightarrow> RetryConfig \<Rightarrow> ('w, 'a) operation \<Rightarrow> 'w \<Rightarrow> (gerror + 'a) \<times> 'w" where
  "DoWithResult env config fn w = retry_loop env config (re_now env w) fn (attempts config) 0 None w"

definition Do :: "'w retry_env \<Rightarrow> RetryConfig \<Rightarrow> ('w \<Rightarrow> retry_error option \<times> 'w) \<Rightarrow> 'w \<Rightarrow> gerror option \<times> 'w" where
  "Do env config fn w =
     (case DoWithResult env config
             (\<lambda>w. case fn w of (None, w1) \<Rightarrow> (Inr (), w1) | (Some e, w1) \<Rightarrow> (Inl e, w1)) w of
        (Inr _, w1) \<Rightarrow> (None, w1)
      | (Inl e, w1) \<Rightarrow> (Some e, w1))"

subsection \<open>Which errors are worth another attempt\<close>

definition retryable_patterns :: "string list" where
  "retryable_patterns =
     [''connection reset'', ''connection refused'', ''no such host'', ''temporary failure'', ''i/o timeout'', ''eof'']"

text \<open>An error is its text and whether it wraps a \<open>net.Error\<close>.\<close>

definition IsRetryable :: "(bool \<times> string) option \<Rightarrow> bool" where
  "IsRetryable err =
     (case err of None \<Rightarrow> False
      | Some (isNetErr, txt) \<Rightarrow>
          if isNetErr then True else list_ex (contains (to_lower txt)) retryable_patterns)"

definition IsRetryableHTTPStatus :: "int \<Rightarrow> bool" where
  "IsRetryableHTTPStatus statusCode \<longleftrightarrow> statusCode \<ge> 500 \<or> statusCode = 429"

subsection \<open>\<open>RetryOnConflict\<close>\<close>

abbreviation MaxRetries :: nat where "MaxRetries \<equiv> 5"

datatype update_error = ConflictErr gerror | OtherErr gerror

text \<open>The timer: \<open>Some e\<close> when the context is done before the delay is over.\<close>

fun conflict_loop ::
  "('w \<Rightarrow> gerror option \<times> 'w) \<Rightarrow> ('w \<Rightarrow> update_error option \<times> 'w) \<Rightarrow> nat \<Rightarrow> gerror option \<Rightarrow> 'w \<Rightarrow> gerror option \<times> 'w" where
  "conflict_loop wait operation 0 lastErr w = (Some (wrap_last ''failed due to conflicts'' lastErr), w)"
| "conflict_loop wait operation (Suc left) lastErr w =
     (case operation w of
        (None, w1) \<Rightarrow> (None, w1)
      | (Some (OtherErr e), w1) \<Rightarrow> (Some e, w1)
      | (Some (ConflictErr e), w1) \<Rightarrow>
          (case wait w1 of
             (Some c, w2) \<Rightarrow> (Some c, w2)
           | (None, w2) \<Rightarrow> conflict_loop wait operation left (Some e) w2))"

definition RetryOnConflict ::
  "('w \<Rightarrow> gerror option \<times> 'w) \<Rightarrow> ('w \<Rightarrow> update_error option \<times> 'w) \<Rightarrow> 'w \<Rightarrow> gerror option \<times> 'w" where
  "RetryOnConflict wait operation w = conflict_loop wait operation MaxRetries None w"

subsection \<open>Bounds\<close>

lemma backoff_capped: "backoffDelay attempt base maxDelay jitter \<le> maxDelay"
  by (simp add: backoffDelay_def Let_def)

text \<open>
  \<open>steps\<close> counts the calls of the operation; nothing else moves it.
\<close>

definition counts_calls :: "('w \<Rightarrow> nat) \<Rightarrow> 'w retry_env \<Rightarrow> ('w, 'a) operation \<Rightarrow> bool" where
  "counts_calls steps env fn \<longleftrightarrow>
     (\<forall>w. steps (snd (fn w)) = Suc (steps w)) \<and> (\<forall>w. steps (snd (re_rand env w)) = steps w) \<and>
     (\<forall>d w. steps (snd (re_wait env d w)) = steps w)"

lemma counts_pause:
  assumes "counts_calls steps env fn"
  shows "steps (snd (pause env config attempt w)) = steps w"
  using assms by (simp add: counts_calls_def pause_def split: prod.split) (metis snd_conv)

lemma retry_loop_calls:
  assumes "counts_calls steps env fn"
  shows "steps (snd (retry_loop env config start fn left attempt lastErr w)) \<le> steps w + left"
proof (induction left arbitrary: attempt lastErr w)
  case (Suc left)
  obtain r w1 where f: "fn w = (r, w1)" by fastforce
  obtain c w2 where p: "pause env config attempt w1 = (c, w2)" by fastforce
  have s: "steps w1 = Suc (steps w)" "steps w2 = steps w1"
    using assms f counts_pause [OF assms, of config attempt w1] p by (auto simp: counts_calls_def dest: spec [of _ w])
  show ?case
    using Suc.IH [of "Suc attempt" _ w1] Suc.IH [of "Suc attempt" _ w2] s
    by (auto simp: f p split: option.split sum.split retry_error.split bool.split intro: order_trans)
qed simp

subsection \<open>The worlds of the attempts\<close>

text \<open>The state before the \<open>i\<close>-th call of the operation, when no call before it decides.\<close>

primrec before_attempt :: "'w retry_env \<Rightarrow> RetryConfig \<Rightarrow> ('w, 'a) operation \<Rightarrow> 'w \<Rightarrow> nat \<Rightarrow> 'w" where
  "before_attempt env config fn w 0 = w"
| "before_attempt env config fn w (Suc i) =
     snd (pause env config i (snd (fn (before_attempt env config fn w i))))"

definition undisturbed :: "'w retry_env \<Rightarrow> RetryConfig \<Rightarrow> ('w, 'a) operation \<Rightarrow> 'w \<Rightarrow> nat \<Rightarrow> bool" where
  "undisturbed env config fn w n \<longleftrightarrow>
     rt_MaxTotalDuration config \<le> 0 \<and>
     (\<forall>i \<le> n. re_ctx env (before_attempt env config fn w i) = None) \<and>
     (\<forall>i < n. \<not> fst (pause env config i (snd (fn (before_attempt env config fn w i)))))"

definition transient :: "(retry_error + 'a) \<Rightarrow> bool" where
  "transient r \<longleftrightarrow> (\<exists>e. r = Inl (Plain e))"

lemma retry_loop_advance:
  assumes "undisturbed env config fn w n" "\<forall>i < n. transient (fst (fn (before_attempt env config fn w i)))"
    and "n < todo"
  shows "\<exists>e. retry_loop env config start fn todo 0 None w =
    retry_loop env config start fn (todo - n) n e (before_attempt env config fn w n)"
  using assms
proof (induction n)
  case 0
  then show ?case by auto
next
  case (Suc n)
  have u: "undisturbed env config fn w n" using Suc.prems(1) by (auto simp: undisturbed_def)
  let ?w = "before_attempt env config fn w n"
  obtain e where e: "retry_loop env config start fn todo 0 None w = retry_loop env config start fn (todo - n) n e ?w"
    using Suc.IH [OF u] Suc.prems(2,3) by auto
  obtain m where m: "todo - n = Suc m" "m \<noteq> 0" "todo - Suc n = m"
    using Suc.prems(3) by (metis Suc_diff_Suc Suc_lessD zero_less_diff less_numeral_extra(3))
  obtain t w1 where f: "fn ?w = (Inl (Plain t), w1)"
    using Suc.prems(2) by (metis lessI prod.collapse transient_def)
  obtain w2 where p: "pause env config n w1 = (False, w2)"
  proof -
    have "\<not> fst (pause env config n (snd (fn ?w)))" using Suc.prems(1) by (simp add: undisturbed_def)
    then show thesis using f that by (cases "pause env config n w1") auto
  qed
  have c: "re_ctx env ?w = None" "\<not> rt_MaxTotalDuration config > 0"
    using u by (auto simp: undisturbed_def)
  have "retry_loop env config start fn (Suc m) n e ?w = retry_loop env config start fn m (Suc n) (Some t) w2"
    using m(2) f p c by simp
  then show ?case using e m f p by auto
qed

subsection \<open>Properties\<close>

text \<open>
  C35: An operation that recovers is carried to its end. Say the context stays alive and there is no time
  limit. If the first \<open>n\<close> calls fail with errors that are not permanent and call \<open>n\<close>, still within
  \<open>MaxAttempts\<close>, succeeds or fails for good, the loop returns exactly what that call gave, in the state it
  left. If every call fails that way, the loop ends after \<open>MaxAttempts\<close> calls and reports the last error.
\<close>
theorem retry_carries_to_the_end:
  assumes "undisturbed env config fn w n" "\<forall>i < n. transient (fst (fn (before_attempt env config fn w i)))"
    "n < attempts config"
  shows "(\<forall>a w'. fn (before_attempt env config fn w n) = (Inr a, w') \<longrightarrow>
            DoWithResult env config fn w = (Inr a, w')) \<and>
         (\<forall>e w'. fn (before_attempt env config fn w n) = (Inl (PermanentError e), w') \<longrightarrow>
            DoWithResult env config fn w = (Inl e, w')) \<and>
         (\<forall>e w'. fn (before_attempt env config fn w n) = (Inl (Plain e), w') \<longrightarrow> Suc n = attempts config \<longrightarrow>
            DoWithResult env config fn w = (Inl (Wrap ''retry: max attempts exceeded'' e), w'))"
proof -
  obtain e where r: "DoWithResult env config fn w =
      retry_loop env config (re_now env w) fn (attempts config - n) n e (before_attempt env config fn w n)"
    using retry_loop_advance [OF assms] unfolding DoWithResult_def by blast
  obtain m where m: "attempts config - n = Suc m" using assms(3) by (metis Suc_diff_Suc)
  have c: "re_ctx env (before_attempt env config fn w n) = None" "\<not> rt_MaxTotalDuration config > 0"
    using assms(1) by (auto simp: undisturbed_def)
  have "Suc n = attempts config \<Longrightarrow> m = 0" using m by simp
  then show ?thesis unfolding r m using c by (auto simp: wrap_last_def)
qed

text \<open>A counter that fails transiently until it has been called three times.\<close>

definition demo_env :: "nat retry_env" where
  "demo_env = \<lparr>re_ctx = (\<lambda>_. None), re_now = int, re_rand = (\<lambda>w. (None, w)), re_wait = (\<lambda>_ w. (False, w))\<rparr>"

definition demo_op :: "(nat, nat) operation" where
  "demo_op w = (if w < 2 then Inl (Plain (Err ''i/o timeout'')) else Inr (10 + w), Suc w)"

lemma demo_before: "before_attempt demo_env DefaultConfig demo_op 0 0 = 0"
  "before_attempt demo_env DefaultConfig demo_op 0 1 = 1" "before_attempt demo_env DefaultConfig demo_op 0 2 = 2"
  by code_simp+

theorem retry_carries_to_the_end_witness: "DoWithResult demo_env DefaultConfig demo_op 0 = (Inr 12, 3)"
proof -
  have u: "undisturbed demo_env DefaultConfig demo_op 0 2"
    by (simp add: undisturbed_def demo_env_def pause_def DefaultConfig_def)
  have t: "\<forall>i < 2. transient (fst (demo_op (before_attempt demo_env DefaultConfig demo_op 0 i)))"
    using demo_before by (auto simp: less_2_cases_iff transient_def demo_op_def)
  have a: "2 < attempts DefaultConfig" by (simp add: attempts_def DefaultConfig_def)
  have "demo_op (before_attempt demo_env DefaultConfig demo_op 0 2) = (Inr 12, 3)"
    unfolding demo_before by (simp add: demo_op_def)
  with retry_carries_to_the_end [OF u t a] show ?thesis by blast
qed

text \<open>
  C36: A retry loop ends. Whatever the operation, the context and the timer do, the operation is called at
  most \<open>MaxAttempts\<close> times, once when that number is not positive; an operation retried on update conflicts
  is called at most five times; and no pause between two calls is longer than the configured maximum, also
  when the exponential delay overflows.
\<close>
theorem retry_calls_are_bounded:
  assumes "counts_calls steps env fn"
    "\<forall>w. calls (snd (operation w)) = Suc (calls w)" "\<forall>w. calls (snd (wait w)) = calls w"
  shows "steps (snd (DoWithResult env config fn w)) \<le> steps w + nat (max 1 (rt_MaxAttempts config)) \<and>
    calls (snd (RetryOnConflict wait operation v)) \<le> calls v + 5 \<and>
    backoffDelay attempt (rt_BaseDelay config) (rt_MaxDelay config) jitter \<le> rt_MaxDelay config"
proof -
  have "attempts config = nat (max 1 (rt_MaxAttempts config))" by (auto simp: attempts_def max_def)
  then have 1: "steps (snd (DoWithResult env config fn w)) \<le> steps w + nat (max 1 (rt_MaxAttempts config))"
    using retry_loop_calls [OF assms(1)] by (simp add: DoWithResult_def)
  have "calls (snd (conflict_loop wait operation left e v)) \<le> calls v + left" for left e v
  proof (induction left arbitrary: e v)
    case (Suc left)
    obtain r v1 where o: "operation v = (r, v1)" by fastforce
    obtain c v2 where d: "wait v1 = (c, v2)" by fastforce
    have "calls v1 = Suc (calls v)" "calls v2 = calls v1"
      using assms(2,3) o d by (metis snd_conv)+
    then show ?case using Suc.IH [of _ v2]
      by (auto simp: o d split: option.split update_error.split intro: order_trans)
  qed simp
  then have 2: "calls (snd (RetryOnConflict wait operation v)) \<le> calls v + 5" by (simp add: RetryOnConflict_def)
  show ?thesis using 1 2 backoff_capped by blast
qed

theorem retry_calls_are_bounded_witness:
  "snd (DoWithResult demo_env DefaultConfig demo_op 0) \<le> (3 :: nat) \<and>
   snd (RetryOnConflict (\<lambda>v. (None, v)) (\<lambda>v. (Some (ConflictErr (Err ''conflict'')), Suc v)) 0) \<le> (5 :: nat) \<and>
   backoffDelay 3 (10 ^ 9) (30 * 10 ^ 9) None \<le> 30 * 10 ^ 9"
proof -
  have c: "counts_calls (\<lambda>w. w) demo_env demo_op" by (simp add: counts_calls_def demo_env_def demo_op_def)
  have s: "\<forall>w. (\<lambda>w. w) (snd (Some (ConflictErr (Err ''conflict'')), Suc w)) = Suc ((\<lambda>w. w) w)" by simp
  have n: "nat (max 1 (rt_MaxAttempts DefaultConfig)) = 3" by (simp add: DefaultConfig_def)
  from retry_calls_are_bounded [OF c s, where wait = "\<lambda>v. (None, v)" and v = 0 and w = 0 and config = DefaultConfig
      and attempt = 3 and jitter = None]
  show ?thesis unfolding n by (simp add: DefaultConfig_def)
qed

end
