(* ===== verification/Policy_Sync.thy ===== *)
theory Policy_Sync
  imports Policy_Load
begin

text \<open>
  What keeps the rules of the engine in step with the projects of the cluster: the watcher
  \<open>rbac/project_watcher.go\<close> with its adapter in \<open>app.go\<close>, which reloads a project for every event, and
  \<open>rbac/policy_sync.go\<close>, which reloads everything at intervals. \<open>'p\<close> is the state behind the handler.
  The second part composes them with the policy enforcer over a changing set of projects.
\<close>

subsection \<open>The project watcher\<close>

datatype informer_obj =
    Unstructured string string
  | DeletedFinalStateUnknown informer_obj
  | OtherObject

record 'p project_policy_handler =
  ph_LoadProjectPolicies :: "string \<Rightarrow> 'p \<Rightarrow> gerror option \<times> 'p"
  ph_RemoveProjectPolicies :: "string \<Rightarrow> 'p \<Rightarrow> gerror option \<times> 'p"

record 'p projectWatcher =
  pw_lastSyncTime :: "int option"
  pw_handler_state :: 'p

text \<open>Name and resource version of an object.\<close>

fun extractProject :: "informer_obj \<Rightarrow> gerror + string \<times> string" where
  "extractProject (Unstructured name version) = Inr (name, version)"
| "extractProject _ = Inl (Err ''unexpected object type in informer'')"

definition updateLastSyncTime :: "int \<Rightarrow> 'p projectWatcher \<Rightarrow> 'p projectWatcher" where
  "updateLastSyncTime now w = w\<lparr>pw_lastSyncTime := Some now\<rparr>"

text \<open>Call the handler; when it reports an error the time of the last sync stays.\<close>

definition handled :: "int \<Rightarrow> ('p \<Rightarrow> gerror option \<times> 'p) \<Rightarrow> 'p projectWatcher \<Rightarrow> 'p projectWatcher" where
  "handled now f w =
     (case f (pw_handler_state w) of
        (Some _, p) \<Rightarrow> w\<lparr>pw_handler_state := p\<rparr>
      | (None, p) \<Rightarrow> updateLastSyncTime now (w\<lparr>pw_handler_state := p\<rparr>))"

definition onAdd ::
  "'p project_policy_handler \<Rightarrow> int \<Rightarrow> informer_obj \<Rightarrow> 'p projectWatcher \<Rightarrow> 'p projectWatcher" where
  "onAdd h now obj w =
     (case extractProject obj of
        Inl _ \<Rightarrow> w
      | Inr (projectName, _) \<Rightarrow> handled now (ph_LoadProjectPolicies h projectName) w)"

definition onUpdate ::
  "'p project_policy_handler \<Rightarrow> int \<Rightarrow> informer_obj \<Rightarrow> informer_obj \<Rightarrow> 'p projectWatcher \<Rightarrow> 'p projectWatcher" where
  "onUpdate h now oldObj newObj w =
     (case extractProject oldObj of
        Inl _ \<Rightarrow> w
      | Inr (_, oldVersion) \<Rightarrow>
          (case extractProject newObj of
             Inl _ \<Rightarrow> w
           | Inr (projectName, newVersion) \<Rightarrow>
               if oldVersion = newVersion then w
               else handled now (ph_LoadProjectPolicies h projectName) w))"

definition onDelete ::
  "'p project_policy_handler \<Rightarrow> int \<Rightarrow> informer_obj \<Rightarrow> 'p projectWatcher \<Rightarrow> 'p projectWatcher" where
  "onDelete h now obj w =
     (case (case obj of
              Unstructured name version \<Rightarrow> Inr (name, version)
            | DeletedFinalStateUnknown obj' \<Rightarrow> extractProject obj'
            | OtherObject \<Rightarrow> Inl (Err ''unexpected object type in delete event'')) of
        Inl _ \<Rightarrow> w
      | Inr (projectName, _) \<Rightarrow> handled now (ph_RemoveProjectPolicies h projectName) w)"

text \<open>The adapter reads the project from the cluster when the event is handled.\<close>

definition policyHandlerAdapter ::
  "'s casbin_lib \<Rightarrow> 'c cache_ops \<Rightarrow> (string \<Rightarrow> gerror + roleBinding list) \<Rightarrow> (string \<Rightarrow> gerror + Project) \<Rightarrow>
   ('s, 'c) policyEnforcer project_policy_handler" where
  "policyHandlerAdapter lib ops unmarshal getProject =
     \<lparr>ph_LoadProjectPolicies = (\<lambda>projectName pe.
        (case getProject projectName of
           Inl e \<Rightarrow> (Some (Wrap ''failed to get project'' e), pe)
         | Inr project \<Rightarrow> LoadProjectPolicies lib ops unmarshal (Some project) pe)),
      ph_RemoveProjectPolicies = RemoveProjectPolicies lib ops\<rparr>"

subsection \<open>The synchronisation service\<close>

text \<open>
  Channels are numbers: the stop channels that have been closed and the trigger channels whose one slot is
  full are sets of them. A goroutine that runs \<open>Start\<close> is at its \<open>select\<close>, where it has read the two
  channel fields, or in \<open>doSync\<close>, or it has returned.
\<close>

datatype loop_pc = AtSelect nat nat | InSync | Returned

record 'p sync_service =
  ys_running :: bool
  ys_lastSyncTime :: "int option"
  ys_lastSyncError :: "gerror option"
  ys_stopCh :: nat
  ys_triggerCh :: nat
  ys_stopOnce :: bool
  ys_closed :: "nat set"
  ys_pending :: "nat set"
  ys_next :: nat
  ys_loops :: "loop_pc list"
  ys_syncer :: 'p

definition NewPolicySyncService :: "'p \<Rightarrow> 'p sync_service" where
  "NewPolicySyncService syncer =
     \<lparr>ys_running = False, ys_lastSyncTime = None, ys_lastSyncError = None, ys_stopCh = 0, ys_triggerCh = 1,
      ys_stopOnce = False, ys_closed = {}, ys_pending = {}, ys_next = 2, ys_loops = [], ys_syncer = syncer\<rparr>"

text \<open>\<open>Start\<close> up to the initial synchronisation.\<close>

definition ys_Start :: "'p sync_service \<Rightarrow> 'p sync_service" where
  "ys_Start s =
     (if ys_running s then s\<lparr>ys_loops := ys_loops s @ [Returned]\<rparr>
      else s\<lparr>ys_running := True, ys_stopCh := ys_next s, ys_triggerCh := Suc (ys_next s), ys_next := ys_next s + 2,
             ys_stopOnce := False, ys_loops := ys_loops s @ [InSync]\<rparr>)"

definition ys_Stop :: "'p sync_service \<Rightarrow> 'p sync_service" where
  "ys_Stop s =
     (if \<not> ys_running s then s
      else s\<lparr>ys_closed := (if ys_stopOnce s then ys_closed s else insert (ys_stopCh s) (ys_closed s)),
             ys_stopOnce := True, ys_running := False\<rparr>)"

definition TriggerSync :: "'p sync_service \<Rightarrow> 'p sync_service" where
  "TriggerSync s = s\<lparr>ys_pending := insert (ys_triggerCh s) (ys_pending s)\<rparr>"

definition setNotRunning :: "'p sync_service \<Rightarrow> 'p sync_service" where
  "setNotRunning s = s\<lparr>ys_running := False\<rparr>"

text \<open>\<open>doSync\<close>: the count of background syncs goes up once more when the sync succeeds.\<close>

definition doSync :: "('p \<Rightarrow> gerror option \<times> 'p) \<Rightarrow> ('p \<Rightarrow> 'p) \<Rightarrow> int \<Rightarrow> 'p sync_service \<Rightarrow> 'p sync_service" where
  "doSync sync bump now s =
     (case sync (ys_syncer s) of
        (Some e, p) \<Rightarrow> s\<lparr>ys_syncer := p, ys_lastSyncError := Some e\<rparr>
      | (None, p) \<Rightarrow> s\<lparr>ys_syncer := bump p, ys_lastSyncTime := Some now, ys_lastSyncError := None\<rparr>)"

definition loop_at :: "nat \<Rightarrow> loop_pc \<Rightarrow> 'p sync_service \<Rightarrow> bool" where
  "loop_at t pc s \<longleftrightarrow> t < length (ys_loops s) \<and> ys_loops s ! t = pc"

definition set_loop :: "nat \<Rightarrow> loop_pc \<Rightarrow> 'p sync_service \<Rightarrow> 'p sync_service" where
  "set_loop t pc s = s\<lparr>ys_loops := (ys_loops s)[t := pc]\<rparr>"

inductive sync_service_step ::
  "('p \<Rightarrow> gerror option \<times> 'p) \<Rightarrow> ('p \<Rightarrow> 'p) \<Rightarrow> 'p sync_service \<Rightarrow> 'p sync_service \<Rightarrow> bool"
  for sync bump where
  start: "sync_service_step sync bump s (ys_Start s)"
| stop: "sync_service_step sync bump s (ys_Stop s)"
| trigger: "sync_service_step sync bump s (TriggerSync s)"
| synced: "loop_at t InSync s \<Longrightarrow> s' = doSync sync bump now s \<Longrightarrow>
    sync_service_step sync bump s (set_loop t (AtSelect (ys_stopCh s') (ys_triggerCh s')) s')"
| tick: "loop_at t (AtSelect stop trig) s \<Longrightarrow> sync_service_step sync bump s (set_loop t InSync s)"
| triggered: "loop_at t (AtSelect stop trig) s \<Longrightarrow> trig \<in> ys_pending s \<Longrightarrow>
    sync_service_step sync bump s (set_loop t InSync (s\<lparr>ys_pending := ys_pending s - {trig}\<rparr>))"
| stopped: "loop_at t (AtSelect stop trig) s \<Longrightarrow> stop \<in> ys_closed s \<Longrightarrow>
    sync_service_step sync bump s (set_loop t Returned (setNotRunning s))"
| cancelled: "loop_at t (AtSelect stop trig) s \<Longrightarrow>
    sync_service_step sync bump s (set_loop t Returned (setNotRunning s))"

subsection \<open>Events and synchronisations over a changing cluster\<close>

text \<open>
  \<open>cl_store\<close> are the projects of the cluster, \<open>cl_events\<close> the events not yet handled, oldest first, and
  \<open>cl_listing\<close> the projects a running synchronisation has listed before it takes the lock.
\<close>

datatype watch_event = Added string | Updated string | Deleted string

record ('s, 'c) cluster =
  cl_store :: "string \<rightharpoonup> Project"
  cl_events :: "watch_event list"
  cl_listing :: "Project list option"
  cl_pe :: "('s, 'c) policyEnforcer"

definition get_project :: "(string \<rightharpoonup> Project) \<Rightarrow> string \<Rightarrow> gerror + Project" where
  "get_project store name = (case store name of None \<Rightarrow> Inl (Err ''not found'') | Some P \<Rightarrow> Inr P)"

fun event_name :: "watch_event \<Rightarrow> string" where
  "event_name (Added n) = n"
| "event_name (Updated n) = n"
| "event_name (Deleted n) = n"

text \<open>An event as the callback of the watcher sees it; an update has a new resource version.\<close>

fun deliver :: "'p project_policy_handler \<Rightarrow> watch_event \<Rightarrow> 'p \<Rightarrow> 'p" where
  "deliver h (Added n) p =
     pw_handler_state (onAdd h 0 (Unstructured n ''1'') \<lparr>pw_lastSyncTime = None, pw_handler_state = p\<rparr>)"
| "deliver h (Updated n) p =
     pw_handler_state (onUpdate h 0 (Unstructured n ''1'') (Unstructured n ''2'')
       \<lparr>pw_lastSyncTime = None, pw_handler_state = p\<rparr>)"
| "deliver h (Deleted n) p =
     pw_handler_state (onDelete h 0 (Unstructured n ''1'') \<lparr>pw_lastSyncTime = None, pw_handler_state = p\<rparr>)"

text \<open>\<open>SyncPolicies\<close> with a listing made earlier.\<close>

definition sync_with ::
  "'s casbin_lib \<Rightarrow> 'c cache_ops \<Rightarrow> (string \<Rightarrow> gerror + roleBinding list) \<Rightarrow> Project list \<Rightarrow>
   ('s, 'c) policyEnforcer \<Rightarrow> gerror option \<times> ('s, 'c) policyEnforcer" where
  "sync_with lib ops unmarshal ps =
     SyncPolicies lib ops unmarshal (Some \<lparr>pr_ListProjects = Inr ps, pr_FindProjectForNamespace = \<lambda>_. Inr None\<rparr>)"

inductive cluster_change :: "('s, 'c) cluster \<Rightarrow> ('s, 'c) cluster \<Rightarrow> bool" where
  create: "cl_store c (pj_Name P) = None \<Longrightarrow>
    cluster_change c (c\<lparr>cl_store := (cl_store c)(pj_Name P \<mapsto> P), cl_events := cl_events c @ [Added (pj_Name P)]\<rparr>)"
| update: "cl_store c (pj_Name P) \<noteq> None \<Longrightarrow>
    cluster_change c (c\<lparr>cl_store := (cl_store c)(pj_Name P \<mapsto> P), cl_events := cl_events c @ [Updated (pj_Name P)]\<rparr>)"
| delete: "cl_store c n \<noteq> None \<Longrightarrow>
    cluster_change c (c\<lparr>cl_store := (cl_store c)(n := None), cl_events := cl_events c @ [Deleted n]\<rparr>)"

definition handle_event ::
  "'s casbin_lib \<Rightarrow> 'c cache_ops \<Rightarrow> (string \<Rightarrow> gerror + roleBinding list) \<Rightarrow> ('s, 'c) cluster \<Rightarrow> ('s, 'c) cluster" where
  "handle_event lib ops unmarshal c =
     (case cl_events c of
        [] \<Rightarrow> c
      | e # es \<Rightarrow>
          c\<lparr>cl_events := es,
            cl_pe := deliver (policyHandlerAdapter lib ops unmarshal (get_project (cl_store c))) e (cl_pe c)\<rparr>)"

definition list_projects :: "Project list \<Rightarrow> ('s, 'c) cluster \<Rightarrow> ('s, 'c) cluster" where
  "list_projects ps c = c\<lparr>cl_listing := Some ps\<rparr>"

definition apply_listing ::
  "'s casbin_lib \<Rightarrow> 'c cache_ops \<Rightarrow> (string \<Rightarrow> gerror + roleBinding list) \<Rightarrow> ('s, 'c) cluster \<Rightarrow> ('s, 'c) cluster" where
  "apply_listing lib ops unmarshal c =
     (case cl_listing c of
        None \<Rightarrow> c
      | Some ps \<Rightarrow> c\<lparr>cl_listing := None, cl_pe := snd (sync_with lib ops unmarshal ps (cl_pe c))\<rparr>)"

text \<open>A listing is in any order and complete.\<close>

definition lists_store :: "(string \<rightharpoonup> Project) \<Rightarrow> Project list \<Rightarrow> bool" where
  "lists_store store ps \<longleftrightarrow> distinct (map pj_Name ps) \<and> (\<forall>P. P \<in> set ps \<longleftrightarrow> store (pj_Name P) = Some P)"

text \<open>The engine is in step with the cluster when its project rules are those the projects declare.\<close>

definition in_step :: "('s \<Rightarrow> string list set) \<Rightarrow> ('s, 'c) cluster \<Rightarrow> bool" where
  "in_step pol c \<longleftrightarrow>
     {q \<in> pol (pe_engine (cl_pe c)). has_prefix (hd q) ''proj:''} = (\<Union>P \<in> ran (cl_store c). project_rules P) \<and>
     set (pe_loaded (cl_pe c)) = dom (cl_store c)"

definition project_key :: "string \<Rightarrow> bool" where
  "project_key n \<longleftrightarrow> n \<noteq> [] \<and> CHR '':'' \<notin> set n"

text \<open>A project whose policies all parse loads; a cluster of such projects under their own names.\<close>

definition loads :: "'s casbin_lib \<Rightarrow> Project \<Rightarrow> bool" where
  "loads lib P \<longleftrightarrow> (\<forall>s. fst (each_st (load_role lib (pj_Name P)) (spec_Roles (pj_Spec P)) s) = None)"

definition good_store :: "'s casbin_lib \<Rightarrow> (string \<rightharpoonup> Project) \<Rightarrow> bool" where
  "good_store lib store \<longleftrightarrow> (\<forall>n P. store n = Some P \<longrightarrow> pj_Name P = n \<and> project_key n \<and> loads lib P)"

lemma good_store_key: "good_store lib st \<Longrightarrow> st n = Some P \<Longrightarrow> project_key n"
  unfolding good_store_def by blast

lemma good_store_new: "good_store lib (st(pj_Name P \<mapsto> P)) \<Longrightarrow> project_key (pj_Name P)"
  using good_store_key [of lib "st(pj_Name P \<mapsto> P)" "pj_Name P" P] by simp

lemma deliver_simps [simp]:
  "deliver h (Added n) p = snd (ph_LoadProjectPolicies h n p)"
  "deliver h (Updated n) p = snd (ph_LoadProjectPolicies h n p)"
  "deliver h (Deleted n) p = snd (ph_RemoveProjectPolicies h n p)"
  by (simp_all add: onAdd_def onUpdate_def onDelete_def handled_def updateLastSyncTime_def split: prod.split option.split)

declare deliver.simps [simp del]

text \<open>
  What can happen: projects change to projects that load, the watcher handles the next event, a
  synchronisation lists the projects, a synchronisation loads what it has listed. The first two without
  the others are the life of the server between synchronisations.
\<close>

inductive watch_step ::
  "'s casbin_lib \<Rightarrow> 'c cache_ops \<Rightarrow> (string \<Rightarrow> gerror + roleBinding list) \<Rightarrow>
   ('s, 'c) cluster \<Rightarrow> ('s, 'c) cluster \<Rightarrow> bool"
  for lib ops unmarshal where
  change: "cluster_change c c' \<Longrightarrow> good_store lib (cl_store c') \<Longrightarrow> watch_step lib ops unmarshal c c'"
| event: "watch_step lib ops unmarshal c (handle_event lib ops unmarshal c)"

inductive cluster_step ::
  "'s casbin_lib \<Rightarrow> 'c cache_ops \<Rightarrow> (string \<Rightarrow> gerror + roleBinding list) \<Rightarrow>
   ('s, 'c) cluster \<Rightarrow> ('s, 'c) cluster \<Rightarrow> bool"
  for lib ops unmarshal where
  watch: "watch_step lib ops unmarshal c c' \<Longrightarrow> cluster_step lib ops unmarshal c c'"
| listing: "lists_store (cl_store c) ps \<Longrightarrow> cluster_step lib ops unmarshal c (list_projects ps c)"
| sync: "cluster_step lib ops unmarshal c (apply_listing lib ops unmarshal c)"

text \<open>The events of one name.\<close>

definition news :: "string \<Rightarrow> watch_event list \<Rightarrow> watch_event list" where
  "news n es = filter (\<lambda>e. event_name e = n) es"

lemma news_simps [simp]:
  "news n [] = []"
  "news n (e # es) = (if event_name e = n then e # news n es else news n es)"
  "news n (es @ es') = news n es @ news n es'"
  by (simp_all add: news_def)

subsection \<open>One event\<close>

context casbin_engine begin

abbreviation "engine_ok pe \<equiv> rules4 (pe_engine pe)"

lemma loads_once:
  assumes "fst (each_st (load_role lib (pj_Name P)) (spec_Roles (pj_Spec P)) s) = None"
  shows "loads lib P"
  unfolding loads_def
proof
  fix t
  have "same_err (each_st (load_role lib (pj_Name P)) (spec_Roles (pj_Spec P)))"
    using same_err_each [of "spec_Roles (pj_Spec P)" "load_role lib (pj_Name P)"] same_err_role by blast
  then show "fst (each_st (load_role lib (pj_Name P)) (spec_Roles (pj_Spec P)) t) = None"
    using assms unfolding same_err_def by metis
qed

lemma loads_succeeds:
  assumes "loads lib P" "engine_ok pe"
  shows "fst (loadProjectPoliciesLocked lib um P pe) = None"
proof -
  obtain t where t: "removeProjectPoliciesLocked lib (pj_Name P) (pe_engine pe) = (None, t)"
    using remove_effect assms(2) by metis
  then show ?thesis
    using assms(1) by (cases "each_st (load_role lib (pj_Name P)) (spec_Roles (pj_Spec P)) t")
      (auto simp: loadProjectPoliciesLocked_def loads_def dest: spec [of _ t])
qed

text \<open>The engine is right about project \<open>n\<close>.\<close>

definition right_about :: "(string \<rightharpoonup> Project) \<Rightarrow> string \<Rightarrow> ('s, 'c) policyEnforcer \<Rightarrow> bool" where
  "right_about store n pe \<longleftrightarrow>
     own_rules n (pe_engine pe) = (case store n of None \<Rightarrow> {} | Some P \<Rightarrow> project_rules P) \<and>
     (n \<in> set (pe_loaded pe) \<longleftrightarrow> store n \<noteq> None)"

text \<open>Every project rule belongs to a project that is loaded.\<close>

definition tracked :: "('s, 'c) policyEnforcer \<Rightarrow> bool" where
  "tracked pe \<longleftrightarrow>
     engine_ok pe \<and> (\<forall>n \<in> set (pe_loaded pe). project_key n) \<and>
     (\<forall>q \<in> pol (pe_engine pe). has_prefix (hd q) ''proj:'' \<longrightarrow> (\<exists>n \<in> set (pe_loaded pe). owned n q))"

lemma own_foreign:
  assumes "foreign_rules n s' = foreign_rules n s" "project_key n" "project_key m" "m \<noteq> n"
  shows "own_rules m s' = own_rules m s"
proof -
  have "own_rules m t = {q \<in> foreign_rules n t. owned m q}" for t
    using owned_disjoint [of m n] assms(2-4) by (auto simp: own_rules_def foreign_rules_def project_key_def)
  then show ?thesis using assms(1) by simp
qed

lemma load_one:
  assumes "tracked pe" "project_key (pj_Name P)" "loads lib P"
    and "loadProjectPoliciesLocked lib um P pe = (e, pe')"
  shows "tracked pe' \<and> own_rules (pj_Name P) (pe_engine pe') = project_rules P \<and>
    set (pe_loaded pe') = insert (pj_Name P) (set (pe_loaded pe)) \<and>
    foreign_rules (pj_Name P) (pe_engine pe') = foreign_rules (pj_Name P) (pe_engine pe)"
proof -
  have e: "e = None" using loads_succeeds [OF assms(3), of pe um] assms(1,4) by (simp add: tracked_def)
  note eff = load_effect [OF _ assms(4)]
  have r: "engine_ok pe" using assms(1) by (simp add: tracked_def)
  have l: "set (pe_loaded pe') = insert (pj_Name P) (set (pe_loaded pe))" using eff [OF r] e by simp
  have f: "foreign_rules (pj_Name P) (pe_engine pe') = foreign_rules (pj_Name P) (pe_engine pe)" using eff [OF r] by simp
  have o: "own_rules (pj_Name P) (pe_engine pe') = project_rules P" "engine_ok pe'" using eff [OF r] e by simp_all
  have "\<exists>n \<in> set (pe_loaded pe'). owned n q" if q: "q \<in> pol (pe_engine pe')" "has_prefix (hd q) ''proj:''" for q
  proof (cases "owned (pj_Name P) q")
    case False
    then have "q \<in> pol (pe_engine pe)" using f q(1) by (auto simp: foreign_rules_def)
    then show ?thesis using assms(1) q(2) l by (auto simp: tracked_def)
  qed (use l in auto)
  then show ?thesis using l f o assms(1,2) by (auto simp: tracked_def)
qed

lemma remove_one:
  assumes "tracked pe" "project_key n" "RemoveProjectPolicies lib ops n pe = (e, pe')"
  shows "tracked pe' \<and> own_rules n (pe_engine pe') = {} \<and> set (pe_loaded pe') = set (pe_loaded pe) - {n} \<and>
    foreign_rules n (pe_engine pe') = foreign_rules n (pe_engine pe)"
proof -
  have r: "rules4 (pe_engine pe)" using assms(1) by (simp add: tracked_def)
  obtain s where s: "removeProjectPoliciesLocked lib n (pe_engine pe) = (None, s)"
      "pol s = {q \<in> pol (pe_engine pe). \<not> owned n q}"
    using remove_effect [OF r] by blast
  have pe': "pe_engine pe' = s" "pe_loaded pe' = removeAll n (pe_loaded pe)"
    using assms(2,3) s(1) by (auto simp: RemoveProjectPolicies_def Let_def project_key_def clear_cache_if_enabled_def split: if_splits)
  have "\<exists>m \<in> set (pe_loaded pe'). owned m q" if "q \<in> pol (pe_engine pe')" "has_prefix (hd q) ''proj:''" for q
    using assms(1) that s(2) pe' by (auto simp: tracked_def)
  then show ?thesis
    using assms(1) s(2) pe' by (auto simp: tracked_def own_rules_def foreign_rules_def rules4_def)
qed

lemma deliver_removal:
  assumes "tracked pe" "project_key n"
    and "pe' = deliver (policyHandlerAdapter lib ops um get) (Deleted n) pe"
  shows "tracked pe' \<and> own_rules n (pe_engine pe') = {} \<and> n \<notin> set (pe_loaded pe') \<and>
    (\<forall>m. project_key m \<longrightarrow> m \<noteq> n \<longrightarrow> right_about st m pe' = right_about st m pe)"
proof -
  obtain r pe1 where R: "RemoveProjectPolicies lib ops n pe = (r, pe1)" by fastforce
  have p: "pe' = pe1" unfolding assms(3) by (simp add: policyHandlerAdapter_def R)
  note one = remove_one [OF assms(1,2) R, folded p]
  have "right_about st m pe' = right_about st m pe" if "project_key m" "m \<noteq> n" for m
  proof -
    have "own_rules m (pe_engine pe') = own_rules m (pe_engine pe)"
      by (rule own_foreign [where n = n]) (use one assms(2) that in blast)+
    then show ?thesis using one that by (simp add: right_about_def)
  qed
  then show ?thesis using one by blast
qed

lemma deliver_load:
  assumes "tracked pe" "good_store lib store" "project_key n" "e = Added n \<or> e = Updated n"
    and pe': "pe' = deliver (policyHandlerAdapter lib ops um (get_project store)) e pe"
  shows "tracked pe' \<and> (store n \<noteq> None \<longrightarrow> right_about store n pe') \<and> (store n = None \<longrightarrow> pe' = pe) \<and>
    (\<forall>m. project_key m \<longrightarrow> m \<noteq> n \<longrightarrow> right_about st m pe' = right_about st m pe)"
proof -
  have d: "pe' = snd (case get_project store n of Inl e \<Rightarrow> (Some (Wrap ''failed to get project'' e), pe)
      | Inr P \<Rightarrow> LoadProjectPolicies lib ops um (Some P) pe)"
    using pe' assms(4) by (elim disjE) (simp_all add: policyHandlerAdapter_def)
  show ?thesis
  proof (cases "store n")
    case None
    then show ?thesis using d assms(1) by (simp add: get_project_def)
  next
    case (Some P)
    have P: "pj_Name P = n" "loads lib P" using assms(2) Some by (auto simp: good_store_def)
    obtain x pe1 where L: "loadProjectPoliciesLocked lib um P pe = (x, pe1)" by fastforce
    have x: "x = None" using loads_succeeds [OF P(2), of pe um] L assms(1) by (simp add: tracked_def)
    have eng: "pe_engine pe' = pe_engine pe1" "pe_loaded pe' = pe_loaded pe1"
      using d Some L x P(1) assms(3) by (simp_all add: LoadProjectPolicies_def project_key_def get_project_def)
    note one = load_one [OF assms(1) _ P(2) L, unfolded P(1), OF assms(3)]
    have t: "tracked pe'" using conjunct1 [OF one] unfolding tracked_def eng .
    have "right_about st m pe' = right_about st m pe" if "project_key m" "m \<noteq> n" for m
    proof -
      have "own_rules m (pe_engine pe1) = own_rules m (pe_engine pe)"
        by (rule own_foreign [where n = n]) (use one assms(3) that in blast)+
      then show ?thesis using one that by (simp add: right_about_def eng)
    qed
    moreover have "right_about store n pe'" using one eng Some by (simp add: right_about_def)
    ultimately show ?thesis using t Some by simp
  qed
qed

lemma owned_proj: "owned n q \<Longrightarrow> has_prefix (hd q) ''proj:''"
  by (auto simp: owned_def role_prefix_def prefix_def)

text \<open>Right about every name and tracked is the same as in step.\<close>

lemma in_step_iff:
  assumes "tracked (cl_pe c)" "good_store lib (cl_store c)"
  shows "in_step pol c \<longleftrightarrow> (\<forall>n. project_key n \<longrightarrow> right_about (cl_store c) n (cl_pe c))"
proof
  assume s: "in_step pol c"
  show "\<forall>n. project_key n \<longrightarrow> right_about (cl_store c) n (cl_pe c)"
  proof (intro allI impI)
    fix n assume n: "project_key n"
    have E: "{q \<in> pol (pe_engine (cl_pe c)). has_prefix (hd q) ''proj:''} = (\<Union>P \<in> ran (cl_store c). project_rules P)"
      using s by (simp add: in_step_def)
    have "own_rules n (pe_engine (cl_pe c)) = {q \<in> {q \<in> pol (pe_engine (cl_pe c)). has_prefix (hd q) ''proj:''}. owned n q}"
      by (auto simp: own_rules_def owned_proj)
    also have "\<dots> = {q \<in> (\<Union>P \<in> ran (cl_store c). project_rules P). owned n q}" unfolding E ..
    finally have "own_rules n (pe_engine (cl_pe c)) = {q \<in> (\<Union>P \<in> ran (cl_store c). project_rules P). owned n q}" .
    also have "\<dots> = (case cl_store c n of None \<Rightarrow> {} | Some P \<Rightarrow> project_rules P)"
    proof -
      have "pj_Name P = n" if "q \<in> project_rules P" "owned n q" "P \<in> ran (cl_store c)" for q P
        using that assms(2) owned_disjoint [of n "pj_Name P" q] project_rules_owned [of q P] n
        by (auto simp: ran_def good_store_def project_key_def)
      moreover have "owned n q" if "q \<in> project_rules P" "cl_store c n = Some P" for q P
        using that project_rules_owned [of q P] assms(2) by (auto simp: good_store_def)
      moreover have "cl_store c (pj_Name P) = Some P" if "P \<in> ran (cl_store c)" for P
        using that assms(2) by (auto simp: ran_def good_store_def)
      ultimately show ?thesis
        by (cases "cl_store c n") (force, force intro: ranI)
    qed
    finally show "right_about (cl_store c) n (cl_pe c)"
      using s by (auto simp: right_about_def in_step_def)
  qed
next
  assume r: "\<forall>n. project_key n \<longrightarrow> right_about (cl_store c) n (cl_pe c)"
  have l: "set (pe_loaded (cl_pe c)) = dom (cl_store c)"
    using r assms by (auto simp: right_about_def tracked_def good_store_def)
  have "{q \<in> pol (pe_engine (cl_pe c)). has_prefix (hd q) ''proj:''} = (\<Union>P \<in> ran (cl_store c). project_rules P)"
  proof (intro equalityI subsetI)
    fix q assume "q \<in> {q \<in> pol (pe_engine (cl_pe c)). has_prefix (hd q) ''proj:''}"
    then obtain n where n: "n \<in> set (pe_loaded (cl_pe c))" "owned n q" "q \<in> own_rules n (pe_engine (cl_pe c))"
      using assms(1) by (auto simp: tracked_def own_rules_def)
    then have "project_key n" using assms(1) by (auto simp: tracked_def)
    then show "q \<in> (\<Union>P \<in> ran (cl_store c). project_rules P)"
      using r n by (auto simp: right_about_def ran_def split: option.splits)
  next
    fix q assume "q \<in> (\<Union>P \<in> ran (cl_store c). project_rules P)"
    then obtain n P where P: "cl_store c n = Some P" "q \<in> project_rules P" by (auto simp: ran_def)
    have "project_key n" using assms(2) P(1) by (auto simp: good_store_def)
    then have "q \<in> own_rules n (pe_engine (cl_pe c))" using r P by (auto simp: right_about_def)
    moreover have "has_prefix (hd q) ''proj:''"
      using project_rules_owned [OF P(2)] owned_proj by blast
    ultimately show "q \<in> {q \<in> pol (pe_engine (cl_pe c)). has_prefix (hd q) ''proj:''}" by (auto simp: own_rules_def)
  qed
  with l show "in_step pol c" by (simp add: in_step_def)
qed


subsection \<open>Between synchronisations\<close>

text \<open>The events not yet handled decide which names the engine may be wrong about.\<close>

definition watched :: "('s, 'c) cluster \<Rightarrow> bool" where
  "watched c \<longleftrightarrow>
     tracked (cl_pe c) \<and> good_store lib (cl_store c) \<and> (\<forall>e \<in> set (cl_events c). project_key (event_name e)) \<and>
     (\<forall>n. project_key n \<longrightarrow>
        (news n (cl_events c) = [] \<longrightarrow> right_about (cl_store c) n (cl_pe c)) \<and>
        (news n (cl_events c) \<noteq> [] \<longrightarrow> (last (news n (cl_events c)) = Deleted n \<longleftrightarrow> cl_store c n = None)))"

lemma right_about_local: "st n = st' n \<Longrightarrow> right_about st n pe = right_about st' n pe"
  by (simp add: right_about_def)

lemma watched_change:
  assumes "watched c" "cluster_change c c'" "good_store lib (cl_store c')"
  shows "watched c'"
proof -
  have *: "watched (c\<lparr>cl_store := st, cl_events := cl_events c @ [e]\<rparr>)"
    if st: "good_store lib st" "project_key (event_name e)" "\<And>m. m \<noteq> event_name e \<Longrightarrow> st m = cl_store c m"
      "e = Deleted (event_name e) \<longleftrightarrow> st (event_name e) = None" for st e
  proof -
    have N: "(news n (cl_events c @ [e]) = [] \<longrightarrow> right_about st n (cl_pe c)) \<and>
        (news n (cl_events c @ [e]) \<noteq> [] \<longrightarrow> (last (news n (cl_events c @ [e])) = Deleted n \<longleftrightarrow> st n = None))"
      if n: "project_key n" for n
    proof (cases "n = event_name e")
      case True
      then show ?thesis using st(4) by simp
    next
      case False
      then have "st n = cl_store c n" by (rule st(3))
      then show ?thesis using assms(1) n False right_about_local [of st n "cl_store c" "cl_pe c"]
        by (simp add: watched_def)
    qed
    have "tracked (cl_pe c)" "\<forall>e \<in> set (cl_events c). project_key (event_name e)"
      using assms(1) by (simp_all add: watched_def)
    then show ?thesis using st(1,2) N by (simp add: watched_def del: news_simps)
  qed
  show ?thesis
    using assms(2)
  proof cases
    case (create P)
    show ?thesis unfolding create(1) by (rule *) (use assms(3) create good_store_new in auto)
  next
    case (update P)
    show ?thesis unfolding update(1) by (rule *) (use assms(3) update good_store_new in auto)
  next
    case (delete n)
    have "project_key n" using assms(1) delete(2) good_store_key by (auto simp: watched_def)
    then show ?thesis unfolding delete(1) by (intro *) (use assms(3) delete in auto)
  qed
qed

lemma watched_event:
  assumes "watched c"
  shows "watched (handle_event lib ops um c)"
proof (cases "cl_events c")
  case Nil
  then show ?thesis using assms by (simp add: handle_event_def)
next
  case (Cons e es)
  define k where "k = event_name e"
  define pe where "pe = deliver (policyHandlerAdapter lib ops um (get_project (cl_store c))) e (cl_pe c)"
  have w: "tracked (cl_pe c)" "good_store lib (cl_store c)" "project_key k"
    using assms Cons by (auto simp: watched_def k_def)
  have W: "(news n (e # es) = [] \<longrightarrow> right_about (cl_store c) n (cl_pe c)) \<and>
      (news n (e # es) \<noteq> [] \<longrightarrow> (last (news n (e # es)) = Deleted n \<longleftrightarrow> cl_store c n = None))"
    if "project_key n" for n
    using assms that unfolding watched_def Cons by blast
  have K: "tracked pe \<and> (e = Deleted k \<and> cl_store c k = None \<or> e \<noteq> Deleted k \<and> cl_store c k \<noteq> None \<longrightarrow>
      right_about (cl_store c) k pe) \<and>
    (\<forall>m. project_key m \<longrightarrow> m \<noteq> k \<longrightarrow> right_about (cl_store c) m pe = right_about (cl_store c) m (cl_pe c))"
  proof (cases "e = Deleted k")
    case True
    then show ?thesis
      using deliver_removal [OF w(1,3) pe_def [unfolded True], of "cl_store c"] by (auto simp: right_about_def)
  next
    case False
    then have "e = Added k \<or> e = Updated k" by (cases e) (auto simp: k_def)
    then show ?thesis using deliver_load [OF w(1,2,3) _ pe_def, of "cl_store c"] False by blast
  qed
  have N: "(news n es = [] \<longrightarrow> right_about (cl_store c) n pe) \<and>
      (news n es \<noteq> [] \<longrightarrow> (last (news n es) = Deleted n \<longleftrightarrow> cl_store c n = None))" if n: "project_key n" for n
    using W [OF n] K n by (cases "n = k") (auto simp: k_def split: if_splits)
  have h: "handle_event lib ops um c = c\<lparr>cl_events := es, cl_pe := pe\<rparr>"
    using Cons by (simp add: handle_event_def pe_def)
  show ?thesis
    unfolding h watched_def using N K w(2) assms Cons by (simp add: watched_def)
qed

lemma watched_run: "(watch_step lib ops um)\<^sup>*\<^sup>* c c' \<Longrightarrow> watched c \<Longrightarrow> watched c'"
  by (induction rule: rtranclp_induct) (auto elim!: watch_step.cases intro: watched_change watched_event)

lemma in_step_tracked:
  assumes "in_step pol c" "good_store lib (cl_store c)" "engine_ok (cl_pe c)"
  shows "tracked (cl_pe c)"
proof -
  have "\<exists>n \<in> set (pe_loaded (cl_pe c)). owned n q"
    if "q \<in> pol (pe_engine (cl_pe c))" "has_prefix (hd q) ''proj:''" for q
  proof -
    have "q \<in> (\<Union>P \<in> ran (cl_store c). project_rules P)" using assms(1) that unfolding in_step_def by blast
    then obtain P where P: "P \<in> ran (cl_store c)" "q \<in> project_rules P" by (elim UN_E)
    then have "cl_store c (pj_Name P) = Some P" using assms(2) by (auto simp: ran_def good_store_def)
    then show ?thesis using assms(1) project_rules_owned [OF P(2)] by (auto simp: in_step_def)
  qed
  then show ?thesis using assms by (auto simp: tracked_def in_step_def good_store_def)
qed

subsection \<open>One synchronisation\<close>

lemma sync_load_ok:
  "engine_ok pe \<Longrightarrow> \<forall>P \<in> set ps. loads lib P \<and> pj_Name P \<noteq> [] \<Longrightarrow> fst (sync_load lib um ps n pe) = n"
proof (induction ps arbitrary: pe)
  case (Cons P ps)
  obtain e pe1 where L: "loadProjectPoliciesLocked lib um P pe = (e, pe1)" by fastforce
  have "e = None" using loads_succeeds [of P pe um] Cons.prems L by simp
  moreover have "engine_ok pe1" using load_effect [OF Cons.prems(1) L] by blast
  ultimately show ?case using Cons L by simp
qed simp

definition good_listing :: "Project list \<Rightarrow> bool" where
  "good_listing ps \<longleftrightarrow> distinct (map pj_Name ps) \<and> (\<forall>P \<in> set ps. project_key (pj_Name P) \<and> loads lib P)"

lemma sync_with_ok:
  assumes t: "tracked pe" and ps: "good_listing ps" and s: "sync_with lib ops um ps pe = (e, pe')"
  shows "e = None \<and> tracked pe' \<and> set (pe_loaded pe') = pj_Name ` set ps \<and>
    {q \<in> pol (pe_engine pe'). has_prefix (hd q) ''proj:''} = (\<Union>P \<in> set ps. project_rules P)"
proof -
  have lst: "listed ps" and key: "\<And>P. P \<in> set ps \<Longrightarrow> project_key (pj_Name P)"
    using ps by (auto simp: good_listing_def listed_def project_key_def)
  have r: "engine_ok pe" using t by (simp add: tracked_def)
  obtain n1 pe1 where S: "sync_load lib um ps 0 pe = (n1, pe1)" by fastforce
  have n1: "n1 = 0"
    using sync_load_ok [OF r, of ps um 0] ps S by (simp add: good_listing_def project_key_def)
  note L = sync_load_effect [OF r lst S, unfolded n1]
  obtain n2 pe2 where R: "sync_remove lib (map pj_Name ps) (pe_loaded pe1) 0 pe1 = (n2, pe2)" by fastforce
  note M = sync_remove_effect [OF _ R]
  have r1: "engine_ok pe1" using L by blast
  have ldd1: "set (pe_loaded pe1) = set (pe_loaded pe) \<union> pj_Name ` set ps" using L by simp
  have own1: "own_rules (pj_Name P) (pe_engine pe1) = project_rules P" if "P \<in> set ps" for P
    using L that by simp
  have same1: "{q \<in> pol (pe_engine pe1). \<forall>P \<in> set ps. \<not> owned (pj_Name P) q}
      = {q \<in> pol (pe_engine pe). \<forall>P \<in> set ps. \<not> owned (pj_Name P) q}" using L by (elim conjE)
  have other1: "q \<in> pol (pe_engine pe1) \<Longrightarrow> (\<And>P. P \<in> set ps \<Longrightarrow> \<not> owned (pj_Name P) q) \<Longrightarrow> q \<in> pol (pe_engine pe)" for q
    using same1 by blast
  have key1: "project_key n" if "n \<in> set (pe_loaded pe1)" for n
    using that t key ldd1 by (auto simp: tracked_def)
  have p2: "pol (pe_engine pe2) = {q \<in> pol (pe_engine pe1).
      \<forall>nm \<in> set (pe_loaded pe1) - set (map pj_Name ps). \<not> owned nm q}" "n2 = 0" "engine_ok pe2"
    using M [OF r1] by simp_all
  have l2: "set (pe_loaded pe2) = pj_Name ` set ps" using M [OF r1] ldd1 by auto
  have eng: "e = None" "pe_engine pe' = pe_engine pe2" "pe_loaded pe' = pe_loaded pe2"
    using s S R n1 p2(2) by (auto simp: sync_with_def SyncPolicies_def)
  have proj: "{q \<in> pol (pe_engine pe2). has_prefix (hd q) ''proj:''} = (\<Union>P \<in> set ps. project_rules P)"
  proof (intro equalityI subsetI)
    fix q assume q: "q \<in> {q \<in> pol (pe_engine pe2). has_prefix (hd q) ''proj:''}"
    then have q1: "q \<in> pol (pe_engine pe1)" using p2(1) by blast
    show "q \<in> (\<Union>P \<in> set ps. project_rules P)"
    proof (cases "\<exists>P \<in> set ps. owned (pj_Name P) q")
      case True
      then show ?thesis using own1 q1 by (auto simp: own_rules_def)
    next
      case False
      then obtain n where "n \<in> set (pe_loaded pe)" "owned n q"
        using other1 [OF q1] q t by (auto simp: tracked_def)
      then show ?thesis using False q p2(1) ldd1 by auto
    qed
  next
    fix q assume "q \<in> (\<Union>P \<in> set ps. project_rules P)"
    then obtain P where P: "P \<in> set ps" "q \<in> project_rules P" by blast
    have o: "owned (pj_Name P) q" using project_rules_owned [OF P(2)] by blast
    have "q \<in> pol (pe_engine pe1)" using own1 [OF P(1)] P(2) by (auto simp: own_rules_def)
    moreover have "\<not> owned nm q" if "nm \<in> set (pe_loaded pe1) - set (map pj_Name ps)" for nm
      using that owned_disjoint [OF _ _ _ o, of nm] key1 [of nm] key [OF P(1)] P(1) by (auto simp: project_key_def)
    ultimately show "q \<in> {q \<in> pol (pe_engine pe2). has_prefix (hd q) ''proj:''}"
      using p2(1) owned_proj [OF o] by blast
  qed
  have ow: "\<exists>n \<in> set (pe_loaded pe2). owned n q" if "q \<in> pol (pe_engine pe2)" "has_prefix (hd q) ''proj:''" for q
  proof -
    have "q \<in> {q \<in> pol (pe_engine pe2). has_prefix (hd q) ''proj:''}" using that by simp
    then obtain P where P: "P \<in> set ps" "q \<in> project_rules P" unfolding proj by (elim UN_E)
    then have "pj_Name P \<in> set (pe_loaded pe2)" using l2 by blast
    then show ?thesis using project_rules_owned [OF P(2)] by blast
  qed
  have "project_key n" if "n \<in> set (pe_loaded pe2)" for n
    using that key unfolding l2 by (elim imageE) simp
  then have "tracked pe'" unfolding tracked_def eng by (intro conjI ballI impI p2(3) ow)
  then show ?thesis using proj l2 eng by simp
qed

definition recoverable :: "('s, 'c) cluster \<Rightarrow> bool" where
  "recoverable c \<longleftrightarrow> tracked (cl_pe c) \<and> good_store lib (cl_store c) \<and>
     (\<forall>e \<in> set (cl_events c). project_key (event_name e)) \<and>
     (\<forall>ps. cl_listing c = Some ps \<longrightarrow> good_listing ps)"

lemma lists_good: "lists_store st ps \<Longrightarrow> good_store lib st \<Longrightarrow> good_listing ps"
  unfolding lists_store_def good_store_def good_listing_def by blast

lemma recoverable_event:
  assumes "recoverable c"
  shows "recoverable (handle_event lib ops um c)"
proof (cases "cl_events c")
  case (Cons e es)
  have w: "tracked (cl_pe c)" "good_store lib (cl_store c)" "project_key (event_name e)"
    using assms Cons by (auto simp: recoverable_def)
  have "e = Deleted (event_name e) \<or> e = Added (event_name e) \<or> e = Updated (event_name e)" by (cases e) auto
  then have "tracked (deliver (policyHandlerAdapter lib ops um (get_project (cl_store c))) e (cl_pe c))"
    using deliver_removal [OF w(1,3) refl] deliver_load [OF w _ refl] by metis
  then show ?thesis using assms Cons by (auto simp: handle_event_def recoverable_def)
qed (use assms in \<open>simp add: handle_event_def\<close>)

lemma recoverable_step: "cluster_step lib ops um c c' \<Longrightarrow> recoverable c \<Longrightarrow> recoverable c'"
proof (induction rule: cluster_step.induct)
  case (watch c c')
  then show ?case
  proof cases
    case change
    from change(1) show ?thesis
    proof cases
      case (create P)
      then show ?thesis using change(2) watch.prems good_store_new by (auto simp: recoverable_def)
    next
      case (update P)
      then show ?thesis using change(2) watch.prems good_store_new by (auto simp: recoverable_def)
    next
      case (delete n)
      have "project_key n" using watch.prems delete(2) good_store_key by (auto simp: recoverable_def)
      then show ?thesis using change(2) watch.prems delete by (auto simp: recoverable_def)
    qed
  qed (use watch.prems recoverable_event in simp)
next
  case (listing c ps)
  then show ?case using lists_good by (auto simp: recoverable_def list_projects_def)
next
  case (sync c)
  show ?case
  proof (cases "cl_listing c")
    case (Some ps)
    obtain e pe' where "sync_with lib ops um ps (cl_pe c) = (e, pe')" by fastforce
    then show ?thesis using sync_with_ok [of "cl_pe c" ps] sync Some by (auto simp: recoverable_def apply_listing_def)
  qed (use sync in \<open>simp add: apply_listing_def\<close>)
qed

lemma recoverable_run: "(cluster_step lib ops um)\<^sup>*\<^sup>* c c' \<Longrightarrow> recoverable c \<Longrightarrow> recoverable c'"
  by (induction rule: rtranclp_induct) (auto intro: recoverable_step)

lemma recoverable_sync:
  assumes "recoverable c" "lists_store (cl_store c) ps"
  shows "fst (sync_with lib ops um ps (cl_pe c)) = None \<and> in_step pol (apply_listing lib ops um (list_projects ps c))"
proof -
  obtain e pe' where s: "sync_with lib ops um ps (cl_pe c) = (e, pe')" by fastforce
  have g: "good_store lib (cl_store c)" "good_listing ps" using assms lists_good by (auto simp: recoverable_def)
  note ok = sync_with_ok [OF _ g(2) s]
  have P: "P \<in> set ps \<longleftrightarrow> P \<in> ran (cl_store c)" for P
    using assms(2) g(1) by (auto simp: lists_store_def good_store_def ran_def)
  then have "set ps = ran (cl_store c)" by blast
  moreover have "pj_Name ` ran (cl_store c) = dom (cl_store c)"
    using g(1) by (force simp: good_store_def ran_def)
  ultimately show ?thesis
    using ok assms(1) s by (simp add: recoverable_def in_step_def apply_listing_def list_projects_def)
qed

end

subsection \<open>Example data\<close>

definition demo_alpha' :: Project where
  "demo_alpha' = demo_project ''alpha'' [demo_role ''dev'' [''instances/*, get, allow''] []]"

definition demo_cluster :: "(mem_store, inMemoryCache) cluster" where
  "demo_cluster =
     \<lparr>cl_store = Map.empty, cl_events = [], cl_listing = None, cl_pe = demo_pe [[''role:serveradmin'', ''*'', ''*'', ''allow'']]\<rparr>"

text \<open>A run of the examples.\<close>

definition demo_created :: "(mem_store, inMemoryCache) cluster" where
  "demo_created = demo_cluster\<lparr>cl_store := [''alpha'' \<mapsto> demo_alpha], cl_events := [Added ''alpha'']\<rparr>"

definition demo_loaded :: "(mem_store, inMemoryCache) cluster" where
  "demo_loaded = handle_event mem_lib memory_cache_ops no_bindings demo_created"

definition demo_deleted :: "(mem_store, inMemoryCache) cluster" where
  "demo_deleted = (list_projects [demo_alpha] demo_loaded)\<lparr>cl_store := Map.empty, cl_events := [Deleted ''alpha'']\<rparr>"

definition demo_revived :: "(mem_store, inMemoryCache) cluster" where
  "demo_revived = apply_listing mem_lib memory_cache_ops no_bindings
     (handle_event mem_lib memory_cache_ops no_bindings demo_deleted)"

lemma demo_good: "good_store mem_lib [''alpha'' \<mapsto> demo_alpha]" "good_store mem_lib Map.empty"
proof -
  have "fst (each_st (load_role mem_lib (pj_Name demo_alpha)) (spec_Roles (pj_Spec demo_alpha))
      \<lparr>mem_p = [], mem_g = [], mem_g2 = []\<rparr>) = None" by code_simp
  then have "loads mem_lib demo_alpha" by (rule casbin_engine.loads_once [OF mem.casbin_engine_axioms])
  then show "good_store mem_lib [''alpha'' \<mapsto> demo_alpha]"
    by (simp add: good_store_def project_key_def demo_alpha_def demo_project_def)
qed (simp add: good_store_def)

lemma demo_events: "cl_events demo_loaded = []" "cl_store demo_loaded = [''alpha'' \<mapsto> demo_alpha]" "cl_listing demo_loaded = None"
    "cl_events demo_revived = []" "cl_store demo_revived = Map.empty" "cl_listing demo_revived = None"
  by (simp_all add: demo_loaded_def demo_created_def handle_event_def demo_revived_def demo_deleted_def list_projects_def
      apply_listing_def demo_cluster_def)

lemma demo_run: "(watch_step mem_lib memory_cache_ops no_bindings)\<^sup>*\<^sup>* demo_cluster demo_loaded"
proof -
  have "cluster_change demo_cluster demo_created"
    using cluster_change.create [of demo_cluster demo_alpha]
    by (simp add: demo_cluster_def demo_created_def demo_alpha_def demo_project_def)
  then have "watch_step mem_lib memory_cache_ops no_bindings demo_cluster demo_created"
    using demo_good by (intro watch_step.change) (simp_all add: demo_created_def)
  moreover have "watch_step mem_lib memory_cache_ops no_bindings demo_created demo_loaded"
    unfolding demo_loaded_def by (rule watch_step.event)
  ultimately show ?thesis by (rule rtranclp.rtrancl_into_rtrancl [OF r_into_rtranclp])
qed

lemma demo_start: "\<forall>q \<in> mem_pol (pe_engine (cl_pe demo_cluster)). length q = 4" "in_step mem_pol demo_cluster"
    "good_store mem_lib (cl_store demo_cluster)" "cl_events demo_cluster = []" "cl_listing demo_cluster = None"
  using demo_good by (simp_all add: demo_cluster_def demo_pe_def in_step_def prefix_def)

lemma demo_revived_run:
  "(cluster_step mem_lib memory_cache_ops no_bindings)\<^sup>*\<^sup>* demo_cluster demo_revived"
proof -
  let ?R = "cluster_step mem_lib memory_cache_ops no_bindings"
  have r0: "?R\<^sup>*\<^sup>* demo_cluster demo_loaded"
    using demo_run by (rule rtranclp_mono [THEN predicate2D, rotated]) (auto intro: cluster_step.watch)
  have r1: "?R demo_loaded (list_projects [demo_alpha] demo_loaded)"
    by (rule cluster_step.listing) (auto simp: lists_store_def demo_events demo_alpha_def demo_project_def)
  have r2: "?R (list_projects [demo_alpha] demo_loaded) demo_deleted"
    using cluster_change.delete [of "list_projects [demo_alpha] demo_loaded" "''alpha''"] demo_good
    by (intro cluster_step.watch watch_step.change)
      (auto simp: demo_deleted_def list_projects_def demo_events fun_upd_def [of "[_ \<mapsto> _]"])
  have r3: "?R demo_deleted (handle_event mem_lib memory_cache_ops no_bindings demo_deleted)"
    by (rule cluster_step.watch [OF watch_step.event])
  have r4: "?R (handle_event mem_lib memory_cache_ops no_bindings demo_deleted) demo_revived"
    unfolding demo_revived_def by (rule cluster_step.sync)
  show ?thesis
    by (rule rtranclp.rtrancl_into_rtrancl [where r = ?R, OF _ r4], rule rtranclp.rtrancl_into_rtrancl [where r = ?R, OF _ r3],
        rule rtranclp.rtrancl_into_rtrancl [where r = ?R, OF _ r2], rule rtranclp.rtrancl_into_rtrancl [where r = ?R, OF r0 r1])
qed

lemma demo_revived_rules:
  "[''proj:alpha:dev'', ''instances/alpha/*'', ''get'', ''allow''] \<in> set (mem_p (pe_engine (cl_pe demo_revived)))"
  by code_simp

subsection \<open>Properties\<close>





text \<open>
  A synchronisation can bring back the rules of a deleted project. \<open>SyncPolicies\<close> lists the projects
  before it takes the lock of the enforcer; when a project is deleted and its event handled in between,
  the synchronisation loads the project again. From then on no event and no listing is left, the project
  does not exist, and its role still has its rule, until the next synchronisation.
\<close>

theorem stale_sync_revives_deleted_project:
  "\<exists>c. (cluster_step mem_lib memory_cache_ops no_bindings)\<^sup>*\<^sup>* demo_cluster c \<and> cl_events c = [] \<and>
     cl_listing c = None \<and> cl_store c = Map.empty \<and>
     [''proj:alpha:dev'', ''instances/alpha/*'', ''get'', ''allow''] \<in> mem_pol (pe_engine (cl_pe c))"
  using demo_revived_run demo_revived_rules demo_events by (intro exI [of _ demo_revived]) simp

text \<open>
  A restart can leave a synchronisation loop that \<open>Stop\<close> no longer ends: \<open>Stop\<close> and \<open>Start\<close> while the old
  loop is at its \<open>select\<close>. The old loop then sees its closed channel and clears the flag \<open>running\<close>, which
  by now is the new loop's; \<open>Stop\<close> finds the flag cleared and does nothing while the new loop goes on.
\<close>

definition restarted :: "('p \<Rightarrow> gerror option \<times> 'p) \<Rightarrow> ('p \<Rightarrow> 'p) \<Rightarrow> 'p \<Rightarrow> 'p sync_service" where
  "restarted sync bump p =
     (let s1 = ys_Start (NewPolicySyncService p);
          s2 = (let s' = doSync sync bump 0 s1 in set_loop 0 (AtSelect (ys_stopCh s') (ys_triggerCh s')) s')
      in set_loop 0 Returned (setNotRunning (ys_Start (ys_Stop s2))))"

lemma restart_leaves_unstoppable_loop:
  "(sync_service_step sync bump)\<^sup>*\<^sup>* (NewPolicySyncService p) (restarted sync bump p) \<and>
   loop_at 1 InSync (restarted sync bump p) \<and> ys_stopCh (restarted sync bump p) \<notin> ys_closed (restarted sync bump p) \<and>
   ys_Stop (restarted sync bump p) = restarted sync bump p"
proof -
  let ?R = "sync_service_step sync bump"
  define s1 where "s1 = ys_Start (NewPolicySyncService p)"
  define s' where "s' = doSync sync bump 0 s1"
  define s2 where "s2 = set_loop 0 (AtSelect (ys_stopCh s') (ys_triggerCh s')) s'"
  define s3 where "s3 = ys_Start (ys_Stop s2)"
  note defs = s1_def s'_def s2_def s3_def ys_Start_def NewPolicySyncService_def doSync_def set_loop_def ys_Stop_def
  have r: "restarted sync bump p = set_loop 0 Returned (setNotRunning s3)"
    by (simp add: restarted_def s1_def s'_def s2_def s3_def Let_def)
  have r0: "?R (NewPolicySyncService p) s1" unfolding s1_def by (rule sync_service_step.start)
  have r1: "?R s1 s2" unfolding s2_def
    by (rule sync_service_step.synced [OF _ s'_def]) (simp add: s1_def ys_Start_def NewPolicySyncService_def loop_at_def)
  have r2: "?R s2 (ys_Stop s2)" by (rule sync_service_step.stop)
  have r3: "?R (ys_Stop s2) s3" unfolding s3_def by (rule sync_service_step.start)
  have r4: "?R s3 (restarted sync bump p)" unfolding r
    by (rule sync_service_step.stopped [where stop = 2 and trig = 3])
      (auto simp: defs loop_at_def split: prod.split option.split)
  have "?R\<^sup>*\<^sup>* (NewPolicySyncService p) (restarted sync bump p)"
    by (rule rtranclp.rtrancl_into_rtrancl [where r = ?R, OF _ r4], rule rtranclp.rtrancl_into_rtrancl [where r = ?R, OF _ r3],
        rule rtranclp.rtrancl_into_rtrancl [where r = ?R, OF _ r2], rule rtranclp.rtrancl_into_rtrancl [where r = ?R, OF _ r1], rule r_into_rtranclp [of ?R, OF r0])
  moreover have "loop_at 1 InSync (restarted sync bump p)" "ys_stopCh (restarted sync bump p) \<notin> ys_closed (restarted sync bump p)"
      "ys_Stop (restarted sync bump p) = restarted sync bump p"
    unfolding r by (auto simp: defs setNotRunning_def loop_at_def split: prod.split option.split)
  ultimately show ?thesis by blast
qed

end
