(* ===== verification/Sanitize.thy ===== *)
theory Sanitize
  imports Subject_Format
begin

text \<open>
  \<open>util/sanitize\<close>: cleaning of strings that become Redis keys, names, file names, elements of paths and
  commit messages. A regular expression that negates an ASCII class replaces rune by rune, so the theory
  begins with the decoding of UTF-8.
\<close>

subsection \<open>Runes\<close>

abbreviation byte :: "char \<Rightarrow> nat" where "byte c \<equiv> of_char c"

text \<open>\<open>n\<close> bytes follow, the first between \<open>lo\<close> and \<open>hi\<close>, the others continuation bytes.\<close>

definition follows :: "nat \<Rightarrow> nat \<Rightarrow> nat \<Rightarrow> string \<Rightarrow> bool" where
  "follows lo hi n cs \<longleftrightarrow>
     cs \<noteq> [] \<and> n \<le> length cs \<and> lo \<le> byte (hd cs) \<and> byte (hd cs) \<le> hi \<and>
     list_all (\<lambda>c. 0x80 \<le> byte c \<and> byte c \<le> 0xBF) (take (n - 1) (tl cs))"

text \<open>The number of bytes of the first rune; a byte that begins no valid sequence is a rune of its own.\<close>

fun rune_len :: "string \<Rightarrow> nat" where
  "rune_len [] = 0"
| "rune_len (c # cs) =
     (if 0xC2 \<le> byte c \<and> byte c \<le> 0xDF \<and> follows 0x80 0xBF 1 cs then 2
      else if byte c = 0xE0 then (if follows 0xA0 0xBF 2 cs then 3 else 1)
      else if byte c = 0xED then (if follows 0x80 0x9F 2 cs then 3 else 1)
      else if 0xE1 \<le> byte c \<and> byte c \<le> 0xEF \<and> follows 0x80 0xBF 2 cs then 3
      else if byte c = 0xF0 then (if follows 0x90 0xBF 3 cs then 4 else 1)
      else if byte c = 0xF4 then (if follows 0x80 0x8F 3 cs then 4 else 1)
      else if 0xF1 \<le> byte c \<and> byte c \<le> 0xF3 \<and> follows 0x80 0xBF 3 cs then 4
      else 1)"

lemma rune_len_pos [simp]: "s \<noteq> [] \<Longrightarrow> 0 < rune_len s"
  by (cases s) simp_all

lemma rune_len_ascii: "byte c < 0x80 \<Longrightarrow> rune_len (c # cs) = 1"
  by simp

declare rune_len.simps(2) [simp del]

function runes :: "string \<Rightarrow> string list" where
  "runes s = (if s = [] then [] else take (rune_len s) s # runes (drop (rune_len s) s))"
  by pat_completeness auto
termination by (relation "measure length") auto

declare runes.simps [simp del]

lemma runes_Nil [simp]: "runes [] = []"
  by (simp add: runes.simps)

lemma runes_ascii [simp]: "byte c < 0x80 \<Longrightarrow> runes (c # cs) = [c] # runes cs"
  by (simp add: runes.simps [of "c # cs"] rune_len_ascii)

text \<open>For evaluation: the top bit of a byte tells whether it is ASCII.\<close>

lemma ascii_bit: "byte c < 0x80 \<longleftrightarrow> \<not> digit7 c"
proof (cases c)
  case (Char b0 b1 b2 b3 b4 b5 b6 b7)
  have "(of_char c :: nat) < 128 \<longleftrightarrow> \<not> b7" unfolding Char by (simp add: of_char_Char)
  then show ?thesis using Char by simp
qed

lemma runes_code [code]:
  "runes s = (case s of [] \<Rightarrow> []
     | c # cs \<Rightarrow> if digit7 c then take (rune_len s) s # runes (drop (rune_len s) s) else [c] # runes cs)"
  using ascii_bit by (cases s) (simp_all add: runes.simps [of "_ # _"] rune_len_ascii)

lemma concat_runes: "concat (runes s) = s"
  by (induction s rule: runes.induct) (simp add: runes.simps)

text \<open>What \<open>range\<close> over a string yields, written again: an invalid byte becomes the replacement character.\<close>

definition range_runes :: "string \<Rightarrow> string list" where
  "range_runes s =
     map (\<lambda>r. if length r = 1 \<and> 0x80 \<le> byte (hd r) then [CHR 0xEF, CHR 0xBF, CHR 0xBD] else r) (runes s)"

text \<open>\<open>ReplaceAllString(s, new)\<close> for the complement of a class \<open>ok\<close> of ASCII characters.\<close>

definition replace_others :: "(char \<Rightarrow> bool) \<Rightarrow> string \<Rightarrow> string \<Rightarrow> string" where
  "replace_others ok new s = concat (map (\<lambda>r. if length r = 1 \<and> ok (hd r) then r else new) (runes s))"

lemma replace_others_set: "set (replace_others ok new s) \<subseteq> {c. ok c} \<union> set new"
proof -
  have "set r \<subseteq> {c. ok c}" if "length r = 1" "ok (hd r)" for r
    using that by (cases r) auto
  then show ?thesis by (fastforce simp: replace_others_def split: if_splits)
qed

lemma replace_others_id:
  "list_all ok s \<Longrightarrow> (\<And>c. ok c \<Longrightarrow> byte c < 0x80) \<Longrightarrow> replace_others ok new s = s"
  by (induction s) (auto simp: replace_others_def)

subsection \<open>Classes\<close>

definition alnum :: "char \<Rightarrow> bool" where
  "alnum c \<longleftrightarrow> is_lower c \<or> is_upper c \<or> is_digit c"

definition path_char :: "char \<Rightarrow> bool" where
  "path_char c \<longleftrightarrow> alnum c \<or> c \<in> set ''._-''"

definition key_char :: "char \<Rightarrow> bool" where
  "key_char c \<longleftrightarrow> path_char c \<or> c = CHR ''/''"

lemma alnum_ascii: "alnum c \<Longrightarrow> byte c < 0x80"
  by (auto simp: alnum_def is_lower_def is_upper_def is_digit_def)

lemma path_char_ascii: "path_char c \<Longrightarrow> byte c < 0x80"
  using alnum_ascii by (auto simp: path_char_def)

subsection \<open>Operations\<close>

definition RemoveControlChars :: "string \<Rightarrow> string" where
  "RemoveControlChars s =
     trim_space (concat (filter (\<lambda>r. \<not> (byte (hd r) < 32 \<or> byte (hd r) = 127)) (range_runes s)))"

definition PathParam :: "string \<Rightarrow> string" where
  "PathParam s = RemoveControlChars s"

definition RedisKey :: "string \<Rightarrow> string" where
  "RedisKey s = take 512 (replace_others key_char ''_'' s)"

definition CommitMessage :: "string \<Rightarrow> gerror + string" where
  "CommitMessage s =
     (if s = [] then Inl (Err ''commit message cannot be empty'')
      else (let result = concat (filter (\<lambda>r. 32 \<le> byte (hd r) \<or> byte (hd r) \<in> {9, 10, 13})
                            (range_runes (replace_all [CHR 0x00] [] s)))
            in if result = [] then Inl (Err ''commit message contains only invalid characters'') else Inr result))"

fun collapse_dashes :: "string \<Rightarrow> string" where
  "collapse_dashes [] = []"
| "collapse_dashes (c # cs) =
     (if c = CHR ''-'' \<and> prefix ''-'' cs then collapse_dashes cs else c # collapse_dashes cs)"

definition K8sName :: "string \<Rightarrow> string" where
  "K8sName s =
     take 40 (trim_char (CHR ''-'')
       (collapse_dashes (replace_others (\<lambda>c. lower_alnum c \<or> c = CHR ''-'') ''-'' (to_lower s))))"

definition Filename :: "string \<Rightarrow> string" where
  "Filename s =
     (let sanitized = take 200 (replace_all ''..'' ''_'' (replace_others path_char ''_'' s))
      in if sanitized = [] then ''export'' else sanitized)"

definition PathComponent :: "string \<Rightarrow> gerror + string" where
  "PathComponent s =
     (if s = [] then Inl (Err ''path component cannot be empty'')
      else (let c = replace_all [CHR 0x5C] ''-'' (replace_all ''/'' ''-'' (replace_all ''..'' [] s));
                cleaned = trim_char (CHR ''-'') (replace_others path_char ''-'' (trim_space c))
            in if cleaned = [] then Inl (Err ''path component contains only invalid characters'') else Inr cleaned))"

subsection \<open>No parent directory\<close>

text \<open>A string without two dots in a row.\<close>

definition dotless :: "string \<Rightarrow> bool" where
  "dotless s \<longleftrightarrow> \<not> contains s ''..''"

lemma dotless_simps [simp]:
  "dotless []" "dotless (c # cs) \<longleftrightarrow> \<not> (c = CHR ''.'' \<and> prefix ''.'' cs) \<and> dotless cs"
proof -
  have "contains (c # cs) ''..'' \<longleftrightarrow> prefix ''..'' (c # cs) \<or> contains cs ''..''"
    unfolding contains_iff by (metis drop0 drop_Suc_Cons not0_implies_Suc)
  then show "dotless (c # cs) \<longleftrightarrow> \<not> (c = CHR ''.'' \<and> prefix ''.'' cs) \<and> dotless cs" by (auto simp: dotless_def)
qed (simp add: dotless_def contains_iff)


lemma dotless_append: "dotless (a @ b) \<Longrightarrow> dotless a \<and> dotless b"
proof (induction a)
  case (Cons c cs)
  then show ?case by (cases cs) auto
qed simp

lemma dotless_sublist: "dotless s \<Longrightarrow> sublist t s \<Longrightarrow> dotless t"
  unfolding sublist_def using dotless_append by blast

lemma replace_all_Nil [simp]: "replace_all old new [] = []"
  by (simp add: replace_all.simps)

lemma replace_all_Cons:
  "old \<noteq> [] \<Longrightarrow> replace_all old new (c # cs) =
     (if prefix old (c # cs) then new @ replace_all old new (drop (length old) (c # cs)) else c # replace_all old new cs)"
  by (subst replace_all.simps) simp

lemma dotless_replace_all:
  assumes "new = [] \<or> new = [x]" "x \<noteq> CHR ''.''"
  shows "dotless (replace_all ''..'' new s)"
proof (induction s rule: length_induct)
  case (1 s)
  show ?case
  proof (cases "prefix ''..'' s")
    case True
    have eq: "replace_all ''..'' new s = new @ replace_all ''..'' new (drop 2 s)"
      using True by (subst replace_all.simps) (simp add: numeral_2_eq_2)
    have "dotless (replace_all ''..'' new (drop 2 s))" using 1 True by (auto simp: prefix_def)
    then show ?thesis unfolding eq using assms by auto
  next
    case False
    show ?thesis
    proof (cases s)
      case (Cons c cs)
      have "dotless (replace_all ''..'' new cs)" using 1 Cons by simp
      moreover have "\<not> prefix ''.'' (replace_all ''..'' new cs)" if c: "c = CHR ''.''"
      proof (cases cs)
        case (Cons d ds)
        then have "d \<noteq> CHR ''.''" using False \<open>s = c # cs\<close> c by simp
        then show ?thesis using Cons by (simp add: replace_all.simps [of _ _ "d # ds"])
      qed (simp add: replace_all.simps)
      moreover have "replace_all ''..'' new s = c # replace_all ''..'' new cs"
        using False unfolding Cons by (subst replace_all_Cons) auto
      ultimately show ?thesis by simp
    qed simp
  qed
qed

lemma replace_all_id: "\<not> contains s old \<Longrightarrow> replace_all old new s = s"
proof (induction s)
  case (Cons c cs)
  have "\<not> prefix old (c # cs)" "\<not> contains cs old"
    using Cons.prems unfolding contains_iff by (metis drop0, metis drop_Suc_Cons)
  then show ?case using Cons.IH by (simp add: replace_all.simps [of _ _ "c # cs"])
qed (simp add: replace_all.simps contains_iff)

lemma replace_all_char: "replace_all [x] [y] s = map (\<lambda>c. if c = x then y else c) s"
  by (induction s) (auto simp: replace_all_Cons)

lemma dotless_map: "(\<And>c. f c = CHR ''.'' \<Longrightarrow> c = CHR ''.'') \<Longrightarrow> dotless s \<Longrightarrow> dotless (map f s)"
proof (induction s)
  case (Cons c cs)
  then have IH: "dotless (map f cs)" by simp
  have "f c = CHR ''.'' \<Longrightarrow> \<not> prefix ''.'' (map f cs)"
    using Cons.prems(1) [of c] Cons.prems(1) [of "hd cs"] Cons.prems(2) by (cases cs) auto
  then show ?case using IH by simp
qed simp

lemma runes_nonempty: "r \<in> set (runes s) \<Longrightarrow> r \<noteq> []"
proof (induction s rule: runes.induct)
  case (1 s)
  show ?case
  proof (cases "s = []")
    case False
    then have "set (runes s) = insert (take (rune_len s) s) (set (runes (drop (rune_len s) s)))"
      by (subst runes.simps) simp
    then show ?thesis using 1 False by force
  qed (use 1 in simp)
qed

lemma dotless_units:
  "dotless (concat rs) \<Longrightarrow> (\<And>r. r \<in> set rs \<Longrightarrow> r \<noteq> []) \<Longrightarrow>
     dotless (concat (map (\<lambda>r. if length r = 1 \<and> ok (hd r) then r else ''-'') rs))"
proof (induction rs)
  case (Cons r rs)
  let ?g = "\<lambda>r. if length r = 1 \<and> ok (hd r) then r else ''-''"
  have IH: "dotless (concat (map ?g rs))" using Cons dotless_append [of r] by simp
  show ?case
  proof (cases "length r = 1 \<and> ok (hd r)")
    case True
    then obtain c where r: "r = [c]" by (cases r) auto
    have "prefix ''.'' (concat (map ?g rs)) \<Longrightarrow> prefix ''.'' (concat rs)"
      using Cons.prems(2) by (cases rs) (auto simp: length_Suc_conv split: if_splits)
    then show ?thesis using IH Cons.prems(1) True r by auto
  qed (use IH in auto)
qed simp

lemma dotless_replace_others: "dotless s \<Longrightarrow> dotless (replace_others ok ''-'' s)"
  unfolding replace_others_def by (rule dotless_units) (simp_all add: concat_runes runes_nonempty)

lemma trim_space_sublist: "sublist (trim_space s) s"
proof -
  obtain a where a: "s = a @ trim_left space_runes s" using trim_left_suffix by (metis suffix_def)
  obtain b where b: "rev (trim_left space_runes s) = b @ trim_left (map rev space_runes) (rev (trim_left space_runes s))"
    using trim_left_suffix by (metis suffix_def)
  then have "trim_left space_runes s = trim_space s @ rev b"
    by (metis rev_append rev_rev_ident trim_space_def)
  then show ?thesis using a unfolding sublist_def by metis
qed

lemma trim_char_sublist: "sublist (trim_char c s) s"
proof -
  have "s = takeWhile (\<lambda>x. x = c) s @ dropWhile (\<lambda>x. x = c) s" by simp
  moreover have "dropWhile (\<lambda>x. x = c) s = trim_char c s @ rev (takeWhile (\<lambda>x. x = c) (rev (dropWhile (\<lambda>x. x = c) s)))"
    unfolding trim_char_def trim_right_char_def by (metis rev_append rev_rev_ident takeWhile_dropWhile_id)
  ultimately show ?thesis unfolding sublist_def by metis
qed

lemma trim_char_id: "s = [] \<or> hd s \<noteq> c \<and> last s \<noteq> c \<Longrightarrow> trim_char c s = s"
proof -
  assume h: "s = [] \<or> hd s \<noteq> c \<and> last s \<noteq> c"
  then have "dropWhile (\<lambda>x. x = c) s = s" by (cases s) auto
  moreover have "dropWhile (\<lambda>x. x = c) (rev s) = rev s" using h by (cases s rule: rev_cases) auto
  ultimately show ?thesis by (simp add: trim_char_def trim_right_char_def)
qed

lemma trim_char_ends: "trim_char c s \<noteq> [] \<Longrightarrow> hd (trim_char c s) \<noteq> c \<and> last (trim_char c s) \<noteq> c"
proof -
  assume n: "trim_char c s \<noteq> []"
  let ?d = "dropWhile (\<lambda>x. x = c) s"
  have t: "trim_char c s = rev (dropWhile (\<lambda>x. x = c) (rev ?d))" by (simp add: trim_char_def trim_right_char_def)
  have "dropWhile (\<lambda>x. x = c) (rev ?d) \<noteq> []" using n t by simp
  then have l: "last (trim_char c s) \<noteq> c" unfolding t last_rev by (rule hd_dropWhile)
  obtain z where z: "?d = trim_char c s @ z"
    unfolding t by (metis rev_append rev_rev_ident takeWhile_dropWhile_id)
  then have "?d \<noteq> []" "hd ?d = hd (trim_char c s)" using n by (auto simp: hd_append)
  then show ?thesis using l hd_dropWhile [of "\<lambda>x. x = c" s] by auto
qed

subsection \<open>Normal forms\<close>

definition clean_component :: "string \<Rightarrow> bool" where
  "clean_component p \<longleftrightarrow>
     p \<noteq> [] \<and> list_all path_char p \<and> dotless p \<and> hd p \<noteq> CHR ''-'' \<and> last p \<noteq> CHR ''-''"

lemma PathComponent_clean: "PathComponent s = Inr p \<Longrightarrow> clean_component p"
proof -
  assume P: "PathComponent s = Inr p"
  define u where "u = trim_space (replace_all [CHR 0x5C] ''-'' (replace_all ''/'' ''-'' (replace_all ''..'' [] s)))"
  have p: "p = trim_char (CHR ''-'') (replace_others path_char ''-'' u)" "p \<noteq> []"
    using P by (auto simp: PathComponent_def Let_def u_def split: if_splits)
  have "dotless (replace_all ''..'' [] s)" by (rule dotless_replace_all) auto
  then have "dotless u" unfolding u_def replace_all_char
    by (intro dotless_sublist [OF _ trim_space_sublist] dotless_map) (auto split: if_splits)
  then have d: "dotless p" unfolding p by (intro dotless_sublist [OF _ trim_char_sublist] dotless_replace_others)
  have "set p \<subseteq> set (replace_others path_char ''-'' u)" unfolding p by (rule set_mono_sublist [OF trim_char_sublist])
  then have "list_all path_char p"
    using replace_others_set [of path_char "''-''" u] by (force simp: list_all_iff path_char_def)
  then show ?thesis using d p trim_char_ends unfolding clean_component_def by metis
qed

lemma path_char_not_space: "path_char c \<Longrightarrow> c \<notin> space_lead \<and> c \<notin> space_trail"
proof -
  have "\<forall>c \<in> space_lead \<union> space_trail. \<not> path_char c"
    by (simp add: space_lead_def space_trail_def path_char_def alnum_def is_lower_def is_upper_def is_digit_def)
  then show "path_char c \<Longrightarrow> ?thesis" by blast
qed

lemma PathComponent_id: "clean_component p \<Longrightarrow> PathComponent p = Inr p"
proof -
  assume c: "clean_component p"
  have pc: "list_all path_char p" "p \<noteq> []" using c by (simp_all add: clean_component_def)
  have 1: "replace_all ''..'' [] p = p" using c by (intro replace_all_id) (simp add: clean_component_def dotless_def)
  have no: "CHR ''/'' \<notin> set p" "CHR 0x5C \<notin> set p"
    using pc by (auto simp: list_all_iff path_char_def alnum_def is_lower_def is_upper_def is_digit_def)
  then have 2: "replace_all [CHR 0x5C] ''-'' (replace_all ''/'' ''-'' p) = p"
    unfolding replace_all_char by (auto intro!: map_idI)
  have "hd p \<in> set p" "last p \<in> set p" using pc(2) by simp_all
  then have 3: "trim_space p = p" using pc path_char_not_space by (intro trim_space_id) (auto simp: list_all_iff)
  have 4: "replace_others path_char ''-'' p = p" by (rule replace_others_id [OF pc(1) path_char_ascii])
  have 5: "trim_char (CHR ''-'') p = p" using c by (intro trim_char_id) (simp add: clean_component_def)
  show ?thesis using pc(2) by (simp add: PathComponent_def Let_def 1 2 3 4 5)
qed

lemma Filename_clean: "Filename s \<noteq> [] \<and> length (Filename s) \<le> 200 \<and> list_all path_char (Filename s) \<and> dotless (Filename s)"
proof -
  define t where "t = replace_all ''..'' ''_'' (replace_others path_char ''_'' s)"
  have "dotless t" unfolding t_def by (rule dotless_replace_all) auto
  then have d: "dotless (take 200 t)" using dotless_append [of "take 200 t" "drop 200 t"] by simp
  have "set (replace_all ''..'' ''_'' u) \<subseteq> insert (CHR ''_'') (set u)" for u
  proof (induction u rule: length_induct)
    case (1 u)
    show ?case
    proof (cases u)
      case (Cons c cs)
      have "set (drop 2 u) \<subseteq> set u" by (rule set_drop_subset)
      moreover have "set (replace_all ''..'' ''_'' (drop 2 u)) \<subseteq> insert (CHR ''_'') (set (drop 2 u))"
          "set (replace_all ''..'' ''_'' cs) \<subseteq> insert (CHR ''_'') (set cs)"
        using 1 Cons by simp_all
      ultimately show ?thesis using Cons by (auto simp: replace_all_Cons numeral_2_eq_2)
    qed simp
  qed
  then have "set t \<subseteq> {c. path_char c}"
    using replace_others_set [of path_char "''_''" s] unfolding t_def by (fastforce simp: path_char_def)
  then have "list_all path_char (take 200 t)" using set_take_subset by (fastforce simp: list_all_iff)
  moreover have "list_all path_char ''export''" "dotless ''export''" by code_simp+
  ultimately show ?thesis using d by (simp add: Filename_def t_def [symmetric] Let_def)
qed

subsection \<open>Properties\<close>

text \<open>
  What \<open>PathComponent\<close> lets through is one element of a path: not empty, letters, digits, dots,
  underscores and dashes only, no dash at an end, and never two dots in a row, in whatever order dots,
  separators and foreign runes are mixed in the input. Cleaning it again changes nothing. A file name from
  \<open>Filename\<close> is of the same characters, never empty, at most 200 bytes long and without two dots in a row.
\<close>

theorem sanitized_paths_are_elements:
  assumes "PathComponent s = Inr p"
  shows "p \<noteq> [] \<and> list_all path_char p \<and> \<not> contains p ''..'' \<and> hd p \<noteq> CHR ''-'' \<and> last p \<noteq> CHR ''-'' \<and>
    PathComponent p = Inr p \<and>
    Filename t \<noteq> [] \<and> length (Filename t) \<le> 200 \<and> list_all path_char (Filename t) \<and> \<not> contains (Filename t) ''..''"
  using PathComponent_clean [OF assms] PathComponent_id Filename_clean [of t]
  by (simp add: clean_component_def dotless_def)

theorem sanitized_paths_are_elements_witness:
  "PathComponent ''../..//etc/./.passwd'' = Inr ''etc-.-.passwd'' \<and> \<not> contains (Filename ''../x'') ''..''"
proof -
  have "PathComponent ''../..//etc/./.passwd'' = Inr ''etc-.-.passwd''" by code_simp
  with sanitized_paths_are_elements [OF this] show ?thesis by blast
qed

text \<open>Truncation comes last in \<open>K8sName\<close>: a dash can be left at the end.\<close>

lemma K8sName_may_end_in_dash: "\<not> IsValidDNS1123Label (K8sName (replicate 39 (CHR ''a'') @ ''-b''))"
  by code_simp

end
