(* ===== verification/Deployment_Model.thy ===== *)
theory Deployment_Model
  imports Http_Request Sanitize
begin

text \<open>
  The data of the package \<open>deployment\<close>: requests, results and repository configurations with their
  validation (\<open>types.go\<close>), the labels, annotations and manifest of an instance (\<open>metadata.go\<close>,
  \<open>generator.go\<close>), the path of a manifest in its repository, and the check of a specification
  (\<open>validation.go\<close>). Times are their RFC 3339 text.
\<close>

subsection \<open>Modes and states\<close>

text \<open>\<open>DeploymentMode\<close> and \<open>InstanceStatus\<close> are strings.\<close>

abbreviation "ModeDirect \<equiv> ''direct''"
abbreviation "ModeGitOps \<equiv> ''gitops''"
abbreviation "ModeHybrid \<equiv> ''hybrid''"

definition mode_IsValid :: "string \<Rightarrow> bool" where
  "mode_IsValid m \<longleftrightarrow> m \<in> {ModeDirect, ModeGitOps, ModeHybrid}"

definition ParseDeploymentMode :: "string \<Rightarrow> string" where
  "ParseDeploymentMode s = (if mode_IsValid s then s else ModeDirect)"

abbreviation "StatusPending \<equiv> ''Pending''"
abbreviation "StatusManifestGenerated \<equiv> ''ManifestGenerated''"
abbreviation "StatusPushedToGit \<equiv> ''PushedToGit''"
abbreviation "StatusCreating \<equiv> ''Creating''"
abbreviation "StatusReady \<equiv> ''Ready''"
abbreviation "StatusFailed \<equiv> ''Failed''"
abbreviation "StatusGitOpsFailed \<equiv> ''GitOpsFailed''"

subsection \<open>Repository configurations\<close>

record SecretReference =
  sr_Name :: string
  sr_Namespace :: string
  sr_Key :: string

record RepositoryConfig =
  rp_ID :: string
  rp_Name :: string
  rp_ProjectID :: string
  rp_Provider :: string
  rp_BaseURL :: string
  rp_Owner :: string
  rp_Repo :: string
  rp_Branch :: string
  rp_DefaultBranch :: string
  rp_BasePath :: string
  rp_SecretRef :: SecretReference
  rp_SecretName :: string
  rp_SecretNamespace :: string
  rp_SecretKey :: string
  rp_CreatedAt :: string
  rp_UpdatedAt :: string

definition GetBranch :: "RepositoryConfig \<Rightarrow> string" where
  "GetBranch r =
     (if rp_Branch r \<noteq> [] then rp_Branch r
      else if rp_DefaultBranch r \<noteq> [] then rp_DefaultBranch r
      else ''main'')"

definition GetSecretName :: "RepositoryConfig \<Rightarrow> string" where
  "GetSecretName r = (if sr_Name (rp_SecretRef r) \<noteq> [] then sr_Name (rp_SecretRef r) else rp_SecretName r)"

definition GetSecretNamespace :: "RepositoryConfig \<Rightarrow> string" where
  "GetSecretNamespace r =
     (if sr_Namespace (rp_SecretRef r) \<noteq> [] then sr_Namespace (rp_SecretRef r)
      else if rp_SecretNamespace r \<noteq> [] then rp_SecretNamespace r
      else ''kro-system'')"

definition GetSecretKey :: "RepositoryConfig \<Rightarrow> string" where
  "GetSecretKey r =
     (if sr_Key (rp_SecretRef r) \<noteq> [] then sr_Key (rp_SecretRef r)
      else if rp_SecretKey r \<noteq> [] then rp_SecretKey r
      else ''token'')"

text \<open>The regular expressions: characters of a class, of a narrower class at both ends.\<close>

definition edged :: "(char \<Rightarrow> bool) \<Rightarrow> (char \<Rightarrow> bool) \<Rightarrow> string \<Rightarrow> bool" where
  "edged edge inner s \<longleftrightarrow> s \<noteq> [] \<and> edge (hd s) \<and> edge (last s) \<and> list_all (\<lambda>c. edge c \<or> inner c) s"

definition githubOwnerRegex :: "string \<Rightarrow> bool" where
  "githubOwnerRegex s \<longleftrightarrow> edged alnum (\<lambda>c. c = CHR ''-'') s \<and> length s \<le> 39"

definition githubRepoRegex :: "string \<Rightarrow> bool" where
  "githubRepoRegex s \<longleftrightarrow> list_all path_char s \<and> 1 \<le> length s \<and> length s \<le> 100"

definition gitBranchRegex :: "string \<Rightarrow> bool" where
  "gitBranchRegex s \<longleftrightarrow> edged alnum (\<lambda>c. c \<in> set ''/_.-'') s"

definition kubernetesNameRegex :: "string \<Rightarrow> bool" where
  "kubernetesNameRegex s \<longleftrightarrow> edged lower_alnum (\<lambda>c. c = CHR ''-'') s"

definition basePathRegex :: "string \<Rightarrow> bool" where
  "basePathRegex s \<longleftrightarrow> edged alnum (\<lambda>c. c \<in> set ''/_.-'') s"

definition forbidden_branch_patterns :: "string list" where
  "forbidden_branch_patterns = [[CHR ''@'', CHR ''{''], ''~'', ''^'', '':'', [CHR 0x5C]]"

definition ValidateBranchName :: "string \<Rightarrow> gerror option" where
  "ValidateBranchName branch =
     (if branch = [] then Some (Err ''branch name cannot be empty'')
      else if length branch > 255 then Some (Err ''branch name exceeds maximum length of 255 characters'')
      else if contains branch ''..'' then Some (Err ''branch name cannot contain path traversal sequences'')
      else if list_ex (contains branch) forbidden_branch_patterns then Some (Err ''branch name cannot contain pattern'')
      else if list_ex (\<lambda>c. byte c < 32 \<or> byte c = 127) branch
        then Some (Err ''branch name cannot contain control characters'')
      else if CHR '' '' \<in> set branch then Some (Err ''branch name cannot contain spaces'')
      else if \<not> gitBranchRegex branch then Some (Err ''branch name contains invalid characters'')
      else None)"

definition ValidateBasePath :: "string \<Rightarrow> gerror option" where
  "ValidateBasePath path =
     (if path = [] then None
      else if length path > 255 then Some (Err ''base path exceeds maximum length of 255 characters'')
      else if contains path ''..'' then Some (Err ''base path cannot contain path traversal sequences'')
      else if has_prefix path ''/'' \<or> has_prefix path [CHR 0x5C] then Some (Err ''base path cannot be absolute'')
      else if CHR 0x5C \<in> set path then Some (Err ''base path cannot contain backslashes'')
      else if \<not> basePathRegex path then Some (Err ''base path contains invalid characters'')
      else None)"

definition secret_key_forbidden :: "char list" where
  "secret_key_forbidden = ''/'' @ [CHR 0x5C] @ '':*?'' @ [CHR 0x22] @ ''<>|''"

definition repo_Validate :: "RepositoryConfig option \<Rightarrow> gerror option" where
  "repo_Validate ro =
     (case ro of
        None \<Rightarrow> Some (Err ''repository config is nil'')
      | Some r \<Rightarrow>
          if rp_Owner r = [] then Some (Err ''repository owner is required'')
          else if \<not> githubOwnerRegex (rp_Owner r) then Some (Err ''invalid repository owner'')
          else if rp_Repo r = [] then Some (Err ''repository name is required'')
          else if \<not> githubRepoRegex (rp_Repo r) then Some (Err ''invalid repository name'')
          else first_err (wrap_err ''invalid branch'' (if GetBranch r \<noteq> [] then ValidateBranchName (GetBranch r) else None))
            (first_err (wrap_err ''invalid base path'' (if rp_BasePath r \<noteq> [] then ValidateBasePath (rp_BasePath r) else None))
              (if GetSecretName r = [] then Some (Err ''secret name is required'')
               else if \<not> kubernetesNameRegex (GetSecretName r) then Some (Err ''invalid secret name'')
               else if length (GetSecretName r) > 253 then Some (Err ''secret name exceeds maximum length of 253 characters'')
               else if GetSecretNamespace r \<noteq> [] \<and> \<not> kubernetesNameRegex (GetSecretNamespace r)
                 then Some (Err ''invalid secret namespace'')
               else if GetSecretNamespace r \<noteq> [] \<and> length (GetSecretNamespace r) > 63
                 then Some (Err ''secret namespace exceeds maximum length of 63 characters'')
               else if GetSecretKey r \<noteq> [] \<and> contains_any (GetSecretKey r) secret_key_forbidden
                 then Some (Err ''invalid secret key'')
               else if GetSecretKey r \<noteq> [] \<and> length (GetSecretKey r) > 253
                 then Some (Err ''secret key exceeds maximum length of 253 characters'')
               else None)))"

subsection \<open>Requests, results and objects\<close>

record DeployRequest =
  dp_InstanceID :: string
  dp_Name :: string
  dp_Namespace :: string
  dp_RGDName :: string
  dp_RGDNamespace :: string
  dp_APIVersion :: string
  dp_Kind :: string
  dp_Spec :: json
  dp_IsClusterScoped :: bool
  dp_DeploymentMode :: string
  dp_ProjectID :: string
  dp_ClusterRef :: string
  dp_Repository :: "RepositoryConfig option"
  dp_GitBranch :: string
  dp_GitPath :: string
  dp_CreatedBy :: string
  dp_CreatedAt :: string

definition GetEffectiveBranch :: "DeployRequest \<Rightarrow> string" where
  "GetEffectiveBranch r =
     (if dp_GitBranch r \<noteq> [] then dp_GitBranch r
      else case dp_Repository r of Some repo \<Rightarrow> GetBranch repo | None \<Rightarrow> ''main'')"

record DeployResult =
  re_InstanceID :: string
  re_Name :: string
  re_Namespace :: string
  re_Mode :: string
  re_Status :: string
  re_ClusterDeployed :: bool
  re_ClusterError :: "gerror option"
  re_GitPushed :: bool
  re_GitCommitSHA :: string
  re_ManifestPath :: string
  re_GitError :: "gerror option"

text \<open>The unstructured object of an instance; \<open>ob_Namespace\<close> is \<open>None\<close> in a cluster-scoped one.\<close>

record kube_object =
  ob_APIVersion :: string
  ob_Kind :: string
  ob_Name :: string
  ob_Namespace :: "string option"
  ob_Labels :: "string \<rightharpoonup> string"
  ob_Annotations :: "string \<rightharpoonup> string"
  ob_Spec :: json

subsection \<open>The path of a manifest\<close>

text \<open>\<open>filepath.Join\<close> on Unix.\<close>

definition path_Join :: "string list \<Rightarrow> string" where
  "path_Join es =
     (let es' = filter (\<lambda>e. e \<noteq> []) es in if es' = [] then [] else path_Clean (join_on ''/'' es'))"

definition buildPathFromPrimitives ::
  "string \<Rightarrow> string \<Rightarrow> string \<Rightarrow> bool \<Rightarrow> string \<Rightarrow> string \<Rightarrow> gerror + string" where
  "buildPathFromPrimitives name namespace kind isClusterScoped basePath metadataDir =
     (if has_prefix (path_Clean basePath) ''..'' then Inl (Err ''invalid basePath: must not traverse above root'')
      else (case PathComponent name of
              Inl e \<Rightarrow> Inl (Wrap ''invalid name'' e)
            | Inr sanitizedName \<Rightarrow>
                let finish = (\<lambda>path.
                      if has_prefix (path_Clean path) (path_Clean basePath) then Inr path
                      else Inl (Err ''path traversal detected: path escapes base directory''))
                in if isClusterScoped
                   then (case PathComponent (to_lower kind) of
                           Inl e \<Rightarrow> Inl (Wrap ''invalid kind'' e)
                         | Inr sanitizedKind \<Rightarrow>
                             finish (if metadataDir \<noteq> []
                               then path_Join [basePath, ''cluster-scoped'', sanitizedKind, metadataDir, sanitizedName @ ''.yaml'']
                               else path_Join [basePath, ''cluster-scoped'', sanitizedKind, sanitizedName @ ''.yaml'']))
                   else (case PathComponent namespace of
                           Inl e \<Rightarrow> Inl (Wrap ''invalid namespace'' e)
                         | Inr sanitizedNS \<Rightarrow>
                             (case PathComponent kind of
                                Inl e \<Rightarrow> Inl (Wrap ''invalid kind'' e)
                              | Inr sanitizedKind \<Rightarrow>
                                  finish (if metadataDir \<noteq> []
                                    then path_Join [basePath, sanitizedNS, sanitizedKind, metadataDir, sanitizedName @ ''.yaml'']
                                    else path_Join [basePath, sanitizedNS, sanitizedKind, sanitizedName @ ''.yaml''])))))"

definition ManifestPathFor :: "string \<Rightarrow> string \<Rightarrow> string \<Rightarrow> bool \<Rightarrow> string \<Rightarrow> gerror + string" where
  "ManifestPathFor name namespace kind isClusterScoped basePath =
     buildPathFromPrimitives name namespace kind isClusterScoped (if basePath = [] then ''instances'' else basePath) []"

definition GenerateManifestPath :: "DeployRequest \<Rightarrow> string \<Rightarrow> gerror + string" where
  "GenerateManifestPath req basePath =
     ManifestPathFor (dp_Name req) (dp_Namespace req) (dp_Kind req) (dp_IsClusterScoped req) basePath"

subsection \<open>Labels, annotations and manifests\<close>

definition Labels :: "DeployRequest \<Rightarrow> string \<rightharpoonup> string" where
  "Labels req =
     [''app.kubernetes.io/name'' \<mapsto> dp_Name req, ''knodex.io/deployment-mode'' \<mapsto> dp_DeploymentMode req]
     ++ (if dp_ProjectID req \<noteq> [] then [''knodex.io/project'' \<mapsto> dp_ProjectID req] else Map.empty)"

definition Annotations :: "DeployRequest \<Rightarrow> string \<rightharpoonup> string" where
  "Annotations req =
     [''knodex.io/instance-id'' \<mapsto> dp_InstanceID req, ''knodex.io/created-by'' \<mapsto> dp_CreatedBy req,
      ''knodex.io/created-at'' \<mapsto> dp_CreatedAt req, ''knodex.io/deployment-mode'' \<mapsto> dp_DeploymentMode req]
     ++ (if dp_ProjectID req \<noteq> [] then [''knodex.io/project-id'' \<mapsto> dp_ProjectID req] else Map.empty)
     ++ (case dp_Repository req of
           None \<Rightarrow> Map.empty
         | Some repo \<Rightarrow>
             [''knodex.io/git-repository'' \<mapsto> rp_Owner repo @ ''/'' @ rp_Repo repo,
              ''knodex.io/git-branch'' \<mapsto> GetEffectiveBranch req]
             ++ (case GenerateManifestPath req (rp_BasePath repo) of
                   Inl _ \<Rightarrow> Map.empty
                 | Inr path \<Rightarrow> [''knodex.io/git-path'' \<mapsto> path]))"

definition BuildUnstructured :: "DeployRequest \<Rightarrow> string \<Rightarrow> string \<Rightarrow> json \<Rightarrow> kube_object" where
  "BuildUnstructured req apiVersion kind spec =
     \<lparr>ob_APIVersion = apiVersion, ob_Kind = kind, ob_Name = dp_Name req,
      ob_Namespace = (if dp_IsClusterScoped req then None else Some (dp_Namespace req)),
      ob_Labels = Labels req, ob_Annotations = Annotations req, ob_Spec = spec\<rparr>"

abbreviation annotationKroReconcile :: string where
  "annotationKroReconcile \<equiv> ''kro.run/reconcile''"

definition BuildUnstructuredSuspended :: "DeployRequest \<Rightarrow> string \<Rightarrow> string \<Rightarrow> json \<Rightarrow> kube_object" where
  "BuildUnstructuredSuspended req apiVersion kind spec =
     (let obj = BuildUnstructured req apiVersion kind spec
      in obj\<lparr>ob_Annotations := (ob_Annotations obj)(annotationKroReconcile \<mapsto> ''suspended'')\<rparr>)"

text \<open>The marshalling of an object to YAML is \<open>toYAML\<close>.\<close>

definition GenerateManifest ::
  "(kube_object \<Rightarrow> gerror + string) \<Rightarrow> DeployRequest option \<Rightarrow> gerror + string" where
  "GenerateManifest toYAML ro =
     (case ro of
        None \<Rightarrow> Inl (Err ''deploy request cannot be nil'')
      | Some req \<Rightarrow>
          if dp_Name req = [] then Inl (Err ''instance name is required'')
          else if \<not> dp_IsClusterScoped req \<and> dp_Namespace req = [] then Inl (Err ''instance namespace is required'')
          else if dp_APIVersion req = [] then Inl (Err ''api version is required'')
          else if dp_Kind req = [] then Inl (Err ''kind is required'')
          else (case toYAML (BuildUnstructured req (dp_APIVersion req) (dp_Kind req) (dp_Spec req)) of
                  Inl e \<Rightarrow> Inl (Wrap ''failed to marshal manifest to YAML'' e)
                | Inr yaml \<Rightarrow>
                    let instanceRef = (if dp_IsClusterScoped req then dp_Name req
                                       else dp_Namespace req @ ''/'' @ dp_Name req)
                    in Inr (''# Generated by Knodex'' @ [CHR 0x0A] @ ''# Instance: '' @ instanceRef @ [CHR 0x0A] @
                         ''# RGD: '' @ dp_RGDName req @ [CHR 0x0A] @ ''# Created: '' @ dp_CreatedAt req @ [CHR 0x0A] @
                         ''# DO NOT EDIT - managed by Knodex GitOps'' @ [CHR 0x0A] @ ''---'' @ [CHR 0x0A] @ yaml)))"

definition GenerateCommitMessage :: "DeployRequest \<Rightarrow> string" where
  "GenerateCommitMessage req =
     (if dp_IsClusterScoped req
      then ''Deploy '' @ dp_Name req @ '' [cluster-scoped] (RGD: '' @ dp_RGDName req @ '')'' @ [CHR 0x0A]
      else ''Deploy '' @ dp_Namespace req @ ''/'' @ dp_Name req @ '' (RGD: '' @ dp_RGDName req @ '')'' @ [CHR 0x0A])
     @ [CHR 0x0A] @ ''Instance ID: '' @ dp_InstanceID req @ [CHR 0x0A]
     @ ''Created by: '' @ dp_CreatedBy req @ [CHR 0x0A] @ ''Deployment mode: '' @ dp_DeploymentMode req @ [CHR 0x0A]
     @ (if dp_IsClusterScoped req then ''Scope: cluster'' @ [CHR 0x0A] else [])
     @ (if dp_ProjectID req \<noteq> [] then ''Project: '' @ dp_ProjectID req @ [CHR 0x0A] else [])
     @ ''Timestamp: '' @ dp_CreatedAt req @ [CHR 0x0A] @ [CHR 0x0A] @ ''Managed by Knodex GitOps''"

definition GenerateDeleteCommitMessage :: "string \<Rightarrow> string \<Rightarrow> string \<Rightarrow> string \<Rightarrow> string \<Rightarrow> bool \<Rightarrow> string" where
  "GenerateDeleteCommitMessage now namespace name rgdName deletedBy isClusterScoped =
     (if isClusterScoped
      then ''Delete '' @ name @ '' [cluster-scoped] (RGD: '' @ rgdName @ '')'' @ [CHR 0x0A]
      else ''Delete '' @ namespace @ ''/'' @ name @ '' (RGD: '' @ rgdName @ '')'' @ [CHR 0x0A])
     @ [CHR 0x0A] @ ''Deleted by: '' @ deletedBy @ [CHR 0x0A]
     @ (if isClusterScoped then ''Scope: cluster'' @ [CHR 0x0A] else [])
     @ ''Timestamp: '' @ now @ [CHR 0x0A] @ [CHR 0x0A] @ ''Managed by Knodex GitOps''"

subsection \<open>The specification\<close>

abbreviation MaxSpecDepth :: nat where "MaxSpecDepth \<equiv> 10"

definition yamlSpecialChars :: "string list" where
  "yamlSpecialChars = ['': '', ''- '', ''| '', ''> '', ''{{'', ''}}'', ''${'']"

definition bad_key :: "string \<Rightarrow> gerror option" where
  "bad_key key =
     (if contains_any key [CHR 0x0A, CHR 0x0D, CHR 0x00]
        then Some (Err ''spec: spec contains key with prohibited control character'')
      else if list_ex (contains key) yamlSpecialChars
        then Some (Err ''spec: spec contains key with prohibited sequence'')
      else None)"

definition long_string :: "string \<Rightarrow> gerror option" where
  "long_string str =
     (if length str > 65536 then Some (Err ''spec: spec contains excessively long string'') else None)"

text \<open>
  \<open>ValidateSpecMap\<close> and \<open>validateSliceItems\<close>: the guard of the depth, then the entries. A map is visited
  in the order of its list, which Go leaves open.
\<close>

definition depth_guard :: "nat \<Rightarrow> nat \<Rightarrow> gerror option \<Rightarrow> gerror option" where
  "depth_guard currentDepth maxDepth result =
     (if currentDepth > maxDepth then Some (Err ''spec: spec nesting depth exceeds maximum'') else result)"

fun spec_entries :: "(string \<times> json) list \<Rightarrow> nat \<Rightarrow> nat \<Rightarrow> gerror option"
and slice_items :: "json list \<Rightarrow> nat \<Rightarrow> nat \<Rightarrow> gerror option" where
  "spec_entries [] d maxDepth = None"
| "spec_entries ((key, v) # kvs) d maxDepth =
     first_err (bad_key key)
       (first_err
         (case v of
            JObj m \<Rightarrow> wrap_err ''validating nested map key'' (depth_guard (Suc d) maxDepth (spec_entries m (Suc d) maxDepth))
          | JArr l \<Rightarrow> wrap_err ''validating slice items for key'' (depth_guard (Suc d) maxDepth (slice_items l (Suc d) maxDepth))
          | JStr str \<Rightarrow> long_string str
          | _ \<Rightarrow> None)
         (spec_entries kvs d maxDepth))"
| "slice_items [] d maxDepth = None"
| "slice_items (v # vs) d maxDepth =
     first_err
       (case v of
          JObj m \<Rightarrow> wrap_err ''validating map at slice index'' (depth_guard d maxDepth (spec_entries m d maxDepth))
        | JArr l \<Rightarrow> wrap_err ''validating nested slice at index'' (depth_guard (Suc d) maxDepth (slice_items l (Suc d) maxDepth))
        | JStr str \<Rightarrow> long_string str
        | _ \<Rightarrow> None)
       (slice_items vs d maxDepth)"

definition ValidateSpecMap :: "(string \<times> json) list \<Rightarrow> nat \<Rightarrow> nat \<Rightarrow> gerror option" where
  "ValidateSpecMap spec currentDepth maxDepth = depth_guard currentDepth maxDepth (spec_entries spec currentDepth maxDepth)"

definition validateSliceItems :: "json list \<Rightarrow> nat \<Rightarrow> nat \<Rightarrow> gerror option" where
  "validateSliceItems l currentDepth maxDepth = depth_guard currentDepth maxDepth (slice_items l currentDepth maxDepth)"

subsection \<open>What the checks mean\<close>

text \<open>
  The depth of a value: maps count, arrays count, a map directly in an array does not. A value is sound
  when all keys are sound, all strings short, and the depth is within the limit.
\<close>

fun depth_of :: "json \<Rightarrow> nat" and map_depth :: "(string \<times> json) list \<Rightarrow> nat" and arr_depth :: "json list \<Rightarrow> nat" where
  "depth_of (JObj m) = Suc (map_depth m)"
| "depth_of (JArr l) = Suc (arr_depth l)"
| "depth_of _ = 0"
| "map_depth [] = 0"
| "map_depth ((k, v) # kvs) = max (depth_of v) (map_depth kvs)"
| "arr_depth [] = 0"
| "arr_depth (v # vs) = max (case v of JObj m \<Rightarrow> map_depth m | _ \<Rightarrow> depth_of v) (arr_depth vs)"

fun sound_value :: "json \<Rightarrow> bool" where
  "sound_value (JObj m) = list_all (\<lambda>(k, v). bad_key k = None \<and> sound_value v) m"
| "sound_value (JArr l) = list_all sound_value l"
| "sound_value (JStr str) = (length str \<le> 65536)"
| "sound_value _ = True"

lemma depth_guard_None: "depth_guard d m r = None \<longleftrightarrow> d \<le> m \<and> r = None"
  by (simp add: depth_guard_def)

lemma entries_sound:
  "d \<le> maxDepth \<Longrightarrow> spec_entries spec d maxDepth = None \<longleftrightarrow> sound_value (JObj spec) \<and> d + map_depth spec \<le> maxDepth"
  "d \<le> maxDepth \<Longrightarrow> slice_items l d maxDepth = None \<longleftrightarrow> sound_value (JArr l) \<and> d + arr_depth l \<le> maxDepth"
proof (induction spec d maxDepth and l d maxDepth rule: spec_entries_slice_items.induct)
  case (2 key v kvs d maxDepth)
  then show ?case
    by (cases v) (auto simp: depth_guard_None long_string_def Suc_le_eq not_less)
next
  case (4 v vs d maxDepth)
  then show ?case
    by (cases v) (auto simp: depth_guard_None long_string_def Suc_le_eq not_less)
qed auto

subsection \<open>Cleaning relative paths\<close>

abbreviation kept :: "string \<Rightarrow> bool" where "kept e \<equiv> e \<noteq> [] \<and> e \<noteq> ''.''"

lemma clean_elems_keep:
  "''..'' \<notin> set es \<Longrightarrow> clean_elems rooted out es = rev out @ filter kept es"
  by (induction es arbitrary: out) auto

lemma split_on_app: "split_on c (a @ c # b) = split_on c a @ split_on c b"
proof (induction a)
  case Nil
  then show ?case by (simp add: split_on_Cons)
next
  case (Cons x a)
  then show ?case by (cases "split_on c a") (auto simp: split_on_Cons [of c x])
qed

lemma sublist_join_on: "e \<in> set xs \<Longrightarrow> sublist e (join_on sep xs)"
proof (induction xs)
  case (Cons x xs)
  show ?case
  proof (cases "xs = []")
    case False
    have j: "join_on sep (x # xs) = x @ sep @ join_on sep xs" by (rule join_on_Cons [OF False])
    show ?thesis
    proof (cases "e = x")
      case True
      then show ?thesis unfolding j by simp
    next
      case F: False
      then obtain ps ss where "join_on sep xs = ps @ e @ ss" using Cons by (auto simp: sublist_def)
      then have "x @ sep @ join_on sep xs = (x @ sep @ ps) @ e @ ss" by simp
      then show ?thesis unfolding j sublist_def by blast
    qed
  qed (use Cons in simp)
qed simp

lemma dotless_elems: "dotless s \<Longrightarrow> ''..'' \<notin> set (split_on (CHR ''/'') s)"
proof
  assume "dotless s" "''..'' \<in> set (split_on (CHR ''/'') s)"
  then have "dotless ''..''" using dotless_sublist sublist_join_on [of "''..''" _ "''/''"] by (metis join_split_on)
  then show False by simp
qed

lemma path_Clean_rel:
  assumes "s \<noteq> []" "hd s \<noteq> CHR ''/''" "''..'' \<notin> set (split_on (CHR ''/'') s)"
    "filter kept (split_on (CHR ''/'') s) = x # xs"
  shows "path_Clean s = join_on ''/'' (x # xs)"
proof -
  have "x \<in> set (filter kept (split_on (CHR ''/'') s))" unfolding assms(4) by simp
  then have "x \<noteq> []" by simp
  then have "join_on ''/'' (x # xs) \<noteq> []" by (cases xs) simp_all
  then show ?thesis using assms by (simp add: path_Clean_def Let_def clean_elems_keep)
qed

definition base_elems :: "string \<Rightarrow> string list" where
  "base_elems base = filter kept (split_on (CHR ''/'') base)"

lemma edged_first:
  assumes "edged alnum inner s"
  shows "\<exists>c cs. s = c # cs \<and> alnum c"
  using assms by (cases s) (auto simp: edged_def)

lemma valid_base:
  assumes "ValidateBasePath base = None" "base \<noteq> []"
  shows "dotless base" "hd base \<noteq> CHR ''/''" "\<exists>c cs xs. base_elems base = (c # cs) # xs \<and> alnum c"
    "list_all plain_elem (base_elems base)"
proof -
  obtain c cs where b: "base = c # cs" "alnum c"
    using assms edged_first [of _ base] by (auto simp: ValidateBasePath_def basePathRegex_def split: if_splits)
  have c: "c \<noteq> CHR ''/''" "c \<noteq> CHR ''.''" using b(2) by (auto simp: alnum_def is_lower_def is_upper_def is_digit_def)
  show d: "dotless base" using assms by (auto simp: ValidateBasePath_def dotless_def split: if_splits)
  show "hd base \<noteq> CHR ''/''" using b c by simp
  have "split_on (CHR ''/'') base = (c # hd (split_on (CHR ''/'') cs)) # tl (split_on (CHR ''/'') cs)"
    unfolding b(1) by (rule split_on_Cons [OF c(1)])
  then show "\<exists>c cs xs. base_elems base = (c # cs) # xs \<and> alnum c" using b(2) c by (simp add: base_elems_def)
  show "list_all plain_elem (base_elems base)"
    using dotless_elems [OF d] by (auto simp: base_elems_def list_all_iff plain_elem_def dest: split_on_parts)
qed

lemma path_Clean_base:
  assumes "ValidateBasePath base = None" "base \<noteq> []"
  shows "path_Clean base = join_on ''/'' (base_elems base)"
proof -
  obtain x xs where "base_elems base = x # xs" using valid_base(3) [OF assms] by blast
  then show ?thesis
    using path_Clean_rel [of base x xs] valid_base [OF assms] assms(2) dotless_elems by (simp add: base_elems_def)
qed

lemma path_Clean_plain:
  assumes "list_all plain_elem es" "es \<noteq> []"
  shows "path_Clean (join_on ''/'' es) = join_on ''/'' es"
proof -
  obtain x xs where e: "es = x # xs" using assms(2) by (cases es) auto
  have sp: "split_on (CHR ''/'') (join_on ''/'' es) = es"
    using assms by (intro split_join_on) (auto simp: list_all_iff plain_elem_def)
  have k: "filter kept es = x # xs" using assms(1) e by (simp add: list_all_iff plain_elem_def filter_id_conv)
  have "x \<noteq> []" "CHR ''/'' \<notin> set x" using assms(1) e by (auto simp: plain_elem_def)
  then have "join_on ''/'' es \<noteq> []" "hd (join_on ''/'' es) \<noteq> CHR ''/''" using e by (cases xs; cases x; auto)+
  then show ?thesis using path_Clean_rel [of "join_on ''/'' es" x xs] assms(1) sp k e
    by (auto simp: list_all_iff plain_elem_def)
qed

lemma join_on_append: "xs \<noteq> [] \<Longrightarrow> ys \<noteq> [] \<Longrightarrow> join_on sep (xs @ ys) = join_on sep xs @ sep @ join_on sep ys"
  by (induction xs rule: list_nonempty_induct) (simp_all add: join_on_Cons)

lemma path_Join_base:
  assumes base: "ValidateBasePath base = None" "base \<noteq> []"
    and es: "\<forall>e \<in> set es. e \<noteq> [] \<and> e \<noteq> ''..'' \<and> CHR ''/'' \<notin> set e" "es \<noteq> []"
  shows "path_Join (base # es) = join_on ''/'' (base_elems base @ filter kept es)"
proof -
  have "filter (\<lambda>e. e \<noteq> []) es = es" using es by (simp add: filter_id_conv)
  then have "path_Join (base # es) = path_Clean (join_on ''/'' (base # es))" using base(2) by (simp add: path_Join_def)
  moreover have j: "join_on ''/'' (base # es) = base @ CHR ''/'' # join_on ''/'' es" using join_on_Cons [OF es(2)] by simp
  have sp: "split_on (CHR ''/'') (join_on ''/'' es) = es" using es by (intro split_join_on) auto
  obtain x xs where x: "base_elems base @ filter kept es = x # xs"
    using valid_base(3) [OF base] by (cases "base_elems base") auto
  have "path_Clean (join_on ''/'' (base # es)) = join_on ''/'' (x # xs)"
  proof (rule path_Clean_rel)
    show "hd (join_on ''/'' (base # es)) \<noteq> CHR ''/''" unfolding j using valid_base(2) [OF base] base(2) by (cases base) auto
    show "''..'' \<notin> set (split_on (CHR ''/'') (join_on ''/'' (base # es)))"
      unfolding j split_on_app sp using dotless_elems [OF valid_base(1) [OF base]] es by auto
    show "filter kept (split_on (CHR ''/'') (join_on ''/'' (base # es))) = x # xs"
      unfolding j split_on_app sp filter_append x [symmetric] by (simp add: base_elems_def)
  qed (simp add: j)
  ultimately show ?thesis unfolding x by simp
qed

text \<open>The elements below the base path.\<close>

definition path_elems :: "string \<Rightarrow> string \<Rightarrow> string \<Rightarrow> string list" where
  "path_elems x k n = filter kept [x, k, n @ ''.yaml'']"

definition effective_base :: "string \<Rightarrow> string" where
  "effective_base basePath = (if basePath = [] then ''instances'' else basePath)"

lemma effective_base_valid:
  assumes "ValidateBasePath basePath = None"
  shows "ValidateBasePath (effective_base basePath) = None \<and> effective_base basePath \<noteq> []"
proof (cases "basePath = []")
  case True
  have "ValidateBasePath ''instances'' = None" by code_simp
  then show ?thesis using True by (simp add: effective_base_def)
qed (use assms in \<open>simp add: effective_base_def\<close>)

definition manifest_elems :: "string \<Rightarrow> string \<Rightarrow> string \<Rightarrow> string \<Rightarrow> string list" where
  "manifest_elems basePath x k n = base_elems (effective_base basePath) @ path_elems x k n"

lemma clean_component_elem: "clean_component c \<Longrightarrow> c \<noteq> ''..'' \<and> CHR ''/'' \<notin> set c \<and> c \<noteq> []"
proof -
  assume c: "clean_component c"
  have "\<not> path_char (CHR ''/'')" by (simp add: path_char_def alnum_def is_lower_def is_upper_def is_digit_def)
  then show ?thesis using c by (auto simp: clean_component_def list_all_iff)
qed

lemma yaml_elem: "clean_component c \<Longrightarrow> plain_elem (c @ ''.yaml'')"
  using clean_component_elem [of c] by (cases c) (auto simp: plain_elem_def)

lemma path_elems_plain:
  assumes "clean_component x" "clean_component k" "clean_component n"
  shows "list_all plain_elem (path_elems x k n)" "path_elems x k n \<noteq> []" "last (path_elems x k n) = n @ ''.yaml''"
proof -
  have y: "n @ ''.yaml'' \<noteq> ''.''" using assms(3) by (cases n) (simp_all add: clean_component_def)
  show "list_all plain_elem (path_elems x k n)"
    using assms(1,2) [THEN clean_component_elem] yaml_elem [OF assms(3)] by (auto simp: path_elems_def plain_elem_def)
  show "path_elems x k n \<noteq> []" "last (path_elems x k n) = n @ ''.yaml''" using y by (auto simp: path_elems_def)
qed

lemma build_path:
  assumes b: "ValidateBasePath basePath = None" "basePath \<noteq> []"
    and c: "clean_component x" "clean_component k" "clean_component n"
  shows "path_Join [basePath, x, k, n @ ''.yaml''] = join_on ''/'' (base_elems basePath @ path_elems x k n) \<and>
    has_prefix (path_Clean (join_on ''/'' (base_elems basePath @ path_elems x k n))) (path_Clean basePath) \<and>
    \<not> has_prefix (path_Clean basePath) ''..''"
proof (intro conjI)
  have e: "base_elems basePath \<noteq> []" "list_all plain_elem (base_elems basePath)" using valid_base [OF b] by auto
  note pe = path_elems_plain [OF c]
  show "path_Join [basePath, x, k, n @ ''.yaml''] = join_on ''/'' (base_elems basePath @ path_elems x k n)"
    using path_Join_base [OF b, of "[x, k, n @ ''.yaml'']"] c(1,2) [THEN clean_component_elem] yaml_elem [OF c(3)]
    by (simp add: path_elems_def plain_elem_def)
  have "path_Clean (join_on ''/'' (base_elems basePath @ path_elems x k n)) = join_on ''/'' (base_elems basePath @ path_elems x k n)"
    using e pe by (intro path_Clean_plain) auto
  then show "has_prefix (path_Clean (join_on ''/'' (base_elems basePath @ path_elems x k n))) (path_Clean basePath)"
    using path_Clean_base [OF b] join_on_append [OF e(1) pe(2)] by simp
  obtain a as es where a: "base_elems basePath = (a # as) # es" "alnum a" using valid_base(3) [OF b] by blast
  have "a \<noteq> CHR ''.''" using a(2) by (auto simp: alnum_def is_lower_def is_upper_def is_digit_def)
  then show "\<not> has_prefix (path_Clean basePath) ''..''" using path_Clean_base [OF b] a(1) by (cases es) auto
qed

lemma clean_cluster_scoped: "clean_component ''cluster-scoped''"
  by code_simp

text \<open>The first element below the base: the namespace, or a fixed word for the cluster scope.\<close>

definition scope_elem :: "bool \<Rightarrow> string \<Rightarrow> gerror + string" where
  "scope_elem isClusterScoped namespace = (if isClusterScoped then Inr ''cluster-scoped'' else PathComponent namespace)"

lemma ManifestPathFor_elems:
  assumes "ValidateBasePath basePath = None"
  shows "ManifestPathFor name namespace kind cs basePath = Inr p \<longleftrightarrow>
    (\<exists>n x k. PathComponent name = Inr n \<and> scope_elem cs namespace = Inr x \<and>
       PathComponent (if cs then to_lower kind else kind) = Inr k \<and> p = join_on ''/'' (manifest_elems basePath x k n))"
proof -
  note b = effective_base_valid [OF assms, THEN conjunct1] effective_base_valid [OF assms, THEN conjunct2]
  note bp = build_path [OF b]
  have nb: "\<not> has_prefix (path_Clean (effective_base basePath)) ''..''"
    using bp [OF clean_cluster_scoped clean_cluster_scoped clean_cluster_scoped] by blast
  have eq: "ManifestPathFor name namespace kind b basePath =
      buildPathFromPrimitives name namespace kind b (effective_base basePath) []" for b
    by (simp add: ManifestPathFor_def effective_base_def)
  show ?thesis
  proof (cases "PathComponent name")
    case (Inr n)
    note cn = PathComponent_clean [OF Inr]
    show ?thesis
    proof (cases cs)
      case True
      show ?thesis
      proof (cases "PathComponent (to_lower kind)")
        case (Inr k)
        then show ?thesis
          using \<open>PathComponent name = Inr n\<close> True nb bp [OF clean_cluster_scoped PathComponent_clean [OF Inr] cn]
          unfolding eq by (auto simp: buildPathFromPrimitives_def Let_def scope_elem_def manifest_elems_def)
      qed (use Inr True nb in \<open>simp add: eq buildPathFromPrimitives_def\<close>)
    next
      case False
      show ?thesis
      proof (cases "PathComponent namespace")
        case x: (Inr x)
        show ?thesis
        proof (cases "PathComponent kind")
          case (Inr k)
          then show ?thesis
            using \<open>PathComponent name = Inr n\<close> x False nb bp [OF PathComponent_clean [OF x] PathComponent_clean [OF Inr] cn]
            unfolding eq by (auto simp: buildPathFromPrimitives_def Let_def scope_elem_def manifest_elems_def)
        qed (use Inr x False nb in \<open>simp add: eq buildPathFromPrimitives_def scope_elem_def\<close>)
      qed (use Inr False nb in \<open>simp add: eq buildPathFromPrimitives_def scope_elem_def\<close>)
    qed
  qed (use nb in \<open>simp add: eq buildPathFromPrimitives_def\<close>)
qed

lemma scope_clean: "scope_elem cs namespace = Inr x \<Longrightarrow> clean_component x"
  using clean_cluster_scoped PathComponent_clean by (auto simp: scope_elem_def split: if_splits)

lemma manifest_elems_plain:
  assumes "ValidateBasePath basePath = None" "clean_component x" "clean_component k" "clean_component n"
  shows "list_all plain_elem (manifest_elems basePath x k n)" "manifest_elems basePath x k n \<noteq> []"
  using valid_base(4) [OF effective_base_valid [OF assms(1), THEN conjunct1] effective_base_valid [OF assms(1), THEN conjunct2]]
    path_elems_plain [OF assms(2-4)]
  by (simp_all add: manifest_elems_def)

lemma manifest_split:
  assumes "ValidateBasePath basePath = None" "clean_component x" "clean_component k" "clean_component n"
  shows "split_on (CHR ''/'') (join_on ''/'' (manifest_elems basePath x k n)) = manifest_elems basePath x k n"
  using manifest_elems_plain [OF assms] by (intro split_join_on) (auto simp: list_all_iff plain_elem_def)

subsection \<open>Kubernetes names are their own elements\<close>

lemma lower_alnum_path: "lower_alnum c \<Longrightarrow> path_char c \<and> c \<noteq> CHR ''-'' \<and> c \<noteq> CHR ''.''"
  by (auto simp: path_char_def alnum_def lower_alnum_def is_lower_def is_digit_def)

lemma alnum_path: "alnum c \<Longrightarrow> path_char c \<and> c \<noteq> CHR ''-'' \<and> c \<noteq> CHR ''.''"
  by (auto simp: path_char_def alnum_def is_lower_def is_upper_def is_digit_def)

lemma dotless_no_dot: "CHR ''.'' \<notin> set s \<Longrightarrow> dotless s"
  by (induction s) auto

lemma k8s_label_chars: "dns_label_regex s \<Longrightarrow> list_all path_char s \<and> CHR ''.'' \<notin> set s \<and> s \<noteq> [] \<and> hd s \<noteq> CHR ''-'' \<and> last s \<noteq> CHR ''-''"
  using lower_alnum_path by (auto simp: dns_label_regex_def list_all_iff path_char_def)

lemma label_clean: "IsValidDNS1123Label s \<Longrightarrow> clean_component s \<and> CHR ''.'' \<notin> set s"
  using k8s_label_chars dotless_no_dot by (auto simp: IsValidDNS1123Label_def clean_component_def)

lemma dotted_clean:
  "xs \<noteq> [] \<Longrightarrow> list_all dns_label_regex xs \<Longrightarrow> clean_component (join_on ''.'' xs) \<and> hd (join_on ''.'' xs) \<noteq> CHR ''.''"
proof (induction xs rule: list_nonempty_induct)
  case (single x)
  then show ?case using k8s_label_chars [of x] dotless_no_dot by (cases x) (auto simp: clean_component_def)
next
  case (cons x xs)
  have IH: "clean_component (join_on ''.'' xs)" "hd (join_on ''.'' xs) \<noteq> CHR ''.''" using cons by auto
  have x: "list_all path_char x" "CHR ''.'' \<notin> set x" "x \<noteq> []" "hd x \<noteq> CHR ''-''" using k8s_label_chars [of x] cons.prems by auto
  have j: "join_on ''.'' (x # xs) = x @ CHR ''.'' # join_on ''.'' xs" using join_on_Cons [OF cons.hyps(1)] by simp
  have n: "join_on ''.'' xs \<noteq> []" using IH(1) by (simp add: clean_component_def)
  have "dotless (y @ CHR ''.'' # join_on ''.'' xs)" if "CHR ''.'' \<notin> set y" for y
    using that IH n by (induction y) (auto simp: clean_component_def prefix_Cons neq_Nil_conv)
  moreover have "path_char (CHR ''.'')" by (simp add: path_char_def)
  moreover have "hd x \<noteq> CHR ''.''" using x(2,3) by (cases x) auto
  ultimately show ?case unfolding j using x IH n by (auto simp: clean_component_def)
qed

lemma subdomain_clean: "IsValidDNS1123Subdomain s \<Longrightarrow> clean_component s"
  using dotted_clean [of "split_on (CHR ''.'') s"] by (simp add: IsValidDNS1123Subdomain_def)

lemma to_lower_ascii: "list_all alnum s \<Longrightarrow> to_lower s = map lower_char s"
proof (induction s)
  case (Cons c cs)
  have "c \<noteq> CHR 0xC4" "c \<noteq> CHR 0xE2" using Cons.prems by (auto simp: alnum_def is_lower_def is_upper_def is_digit_def)
  then show ?case using Cons by simp
qed simp

lemma lower_char_alnum: "alnum c \<Longrightarrow> alnum (lower_char c) \<and> \<not> is_upper (lower_char c)"
proof -
  have k: "byte (lower_char c) = (if 65 \<le> byte c \<and> byte c \<le> 90 then byte c + 32 else byte c)"
    by (simp add: lower_char_def)
  have "97 \<le> m \<and> m \<le> 122 \<or> 65 \<le> m \<and> m \<le> 90 \<or> 48 \<le> m \<and> m \<le> 57 \<Longrightarrow>
      k = (if 65 \<le> m \<and> m \<le> 90 then m + 32 else m) \<Longrightarrow>
      (97 \<le> k \<and> k \<le> 122 \<or> 65 \<le> k \<and> k \<le> 90 \<or> 48 \<le> k \<and> k \<le> 57) \<and> \<not> (65 \<le> k \<and> k \<le> 90)" for m k :: nat
    by (cases "65 \<le> m \<and> m \<le> 90") auto
  then show "alnum c \<Longrightarrow> ?thesis" using k unfolding alnum_def is_lower_def is_upper_def is_digit_def by blast
qed

lemma alnum_clean: "list_all alnum s \<Longrightarrow> s \<noteq> [] \<Longrightarrow> clean_component s \<and> s \<noteq> ''.''"
proof -
  assume s: "list_all alnum s" "s \<noteq> []"
  have all: "path_char c \<and> c \<noteq> CHR ''-'' \<and> c \<noteq> CHR ''.''" if "c \<in> set s" for c
    using that s(1) by (intro alnum_path) (simp add: list_all_iff)
  then have "list_all path_char s" "CHR ''.'' \<notin> set s" by (auto simp: list_all_iff)
  moreover have "hd s \<noteq> CHR ''-''" "last s \<noteq> CHR ''-''" using all s(2) by simp_all
  ultimately show ?thesis using s(2) dotless_no_dot [of s] by (auto simp: clean_component_def)
qed

lemma kind_clean:
  assumes "IsValidK8sKind s"
  shows "list_all alnum s \<and> clean_component s \<and> is_upper (hd s)" "clean_component (to_lower s)" "to_lower s \<noteq> ''.''"
    "\<not> is_upper (hd (to_lower s))"
proof -
  have s: "list_all alnum s" "s \<noteq> []" "is_upper (hd s)"
    using assms by (cases s, auto simp: IsValidK8sKind_def alnum_def list_all_iff)+
  then show "list_all alnum s \<and> clean_component s \<and> is_upper (hd s)" using alnum_clean by blast
  have l: "list_all alnum (to_lower s)" "to_lower s \<noteq> []"
    using s lower_char_alnum by (auto simp: to_lower_ascii list_all_iff)
  show "clean_component (to_lower s)" "to_lower s \<noteq> ''.''" using alnum_clean [OF l] by simp_all
  have "alnum (hd s)" using s by (cases s) auto
  moreover have "hd (to_lower s) = lower_char (hd s)" using s by (simp add: to_lower_ascii hd_map)
  ultimately show "\<not> is_upper (hd (to_lower s))" using lower_char_alnum by simp
qed

text \<open>What the API server accepts as the name, the namespace and the kind of an object.\<close>

definition valid_instance :: "string \<Rightarrow> string \<Rightarrow> string \<Rightarrow> bool \<Rightarrow> bool" where
  "valid_instance name namespace kind cs \<longleftrightarrow>
     IsValidDNS1123Subdomain name \<and> (cs \<or> IsValidDNS1123Label namespace) \<and> IsValidK8sKind kind"

lemma valid_manifest_path:
  assumes "ValidateBasePath basePath = None" "valid_instance name namespace kind cs"
  shows "ManifestPathFor name namespace kind cs basePath = Inr (join_on ''/'' (base_elems (effective_base basePath) @
      [if cs then ''cluster-scoped'' else namespace, if cs then to_lower kind else kind, name @ ''.yaml'']))"
proof -
  let ?x = "if cs then ''cluster-scoped'' else namespace" and ?k = "if cs then to_lower kind else kind"
  have n: "clean_component name" using assms(2) subdomain_clean by (simp add: valid_instance_def)
  have k: "clean_component ?k" "?k \<noteq> ''.''"
    using assms(2) kind_clean [of kind] by (auto simp: valid_instance_def is_upper_def)
  have x: "scope_elem cs namespace = Inr ?x" "?x \<noteq> ''.''"
    using assms(2) label_clean [of namespace] PathComponent_id by (auto simp: valid_instance_def scope_elem_def)
  have "kept ?x" "kept ?k" "kept (name @ ''.yaml'')"
    using n k x scope_clean [OF x(1)] by (cases name, auto simp: clean_component_def)+
  then have "path_elems ?x ?k name = [?x, ?k, name @ ''.yaml'']" by (simp add: path_elems_def)
  then show ?thesis
    using ManifestPathFor_elems [OF assms(1)] PathComponent_id [OF n] PathComponent_id [OF k(1)] x(1)
    by (simp add: manifest_elems_def)
qed

subsection \<open>Properties\<close>

text \<open>
  C18: a manifest stays below the base path of its repository. Whatever the name, the namespace and the kind
  of a request contain, when the base path has passed the validation and a manifest path is computed at
  all, it is a clean relative path of a \<open>.yaml\<close> file that starts with the base path and a slash and has
  no parent element; an empty base path stands for \<open>instances\<close>.
\<close>

theorem manifest_path_stays_below_base:
  assumes "ValidateBasePath basePath = None" "ManifestPathFor name namespace kind cs basePath = Inr p"
  shows "has_prefix p (path_Clean (if basePath = [] then ''instances'' else basePath) @ ''/'') \<and> path_Clean p = p \<and>
    has_suffix p ''.yaml'' \<and> hd p \<noteq> CHR ''/'' \<and> ''..'' \<notin> set (split_on (CHR ''/'') p)"
proof -
  obtain n x k where r: "PathComponent name = Inr n" "scope_elem cs namespace = Inr x"
      "PathComponent (if cs then to_lower kind else kind) = Inr k"
      and p: "p = join_on ''/'' (manifest_elems basePath x k n)"
    using assms(2) unfolding ManifestPathFor_elems [OF assms(1)] by blast
  note c = PathComponent_clean [OF r(1)] scope_clean [OF r(2)] PathComponent_clean [OF r(3)]
  note b = effective_base_valid [OF assms(1), THEN conjunct1] effective_base_valid [OF assms(1), THEN conjunct2]
  note pl = manifest_elems_plain [OF assms(1) c(2,3,1)]
  note pe = path_elems_plain [OF c(2,3,1)]
  obtain a as es where a: "base_elems (effective_base basePath) = (a # as) # es" "alnum a" using valid_base(3) [OF b] by blast
  have pb: "p = path_Clean (effective_base basePath) @ ''/'' @ join_on ''/'' (path_elems x k n)"
    unfolding p manifest_elems_def path_Clean_base [OF b] using a(1) pe(2) by (intro join_on_append) simp_all
  have "join_on ''/'' es = join_on ''/'' (butlast es) @ (if butlast es = [] then [] else ''/'') @ last es" if "es \<noteq> []" for es :: "string list"
    using that by (induction es rule: list_nonempty_induct) (auto simp: join_on_Cons split: if_splits)
  from this [OF pe(2)] have "has_suffix (join_on ''/'' (path_elems x k n)) (n @ ''.yaml'')" using pe(3) by (simp add: suffix_def)
  then have sfx: "has_suffix p ''.yaml''" unfolding pb by (auto simp: suffix_def)
  have "a \<noteq> CHR ''/''" using a(2) by (auto simp: alnum_def is_lower_def is_upper_def is_digit_def)
  then have "hd p \<noteq> CHR ''/''" unfolding pb path_Clean_base [OF b] a(1) by (cases es) auto
  moreover have "''..'' \<notin> set (split_on (CHR ''/'') p)"
    unfolding p manifest_split [OF assms(1) c(2,3,1)] using pl(1) by (auto simp: list_all_iff plain_elem_def)
  moreover have "path_Clean p = p" unfolding p using pl by (rule path_Clean_plain)
  ultimately show ?thesis using pb sfx by (simp add: effective_base_def)
qed

theorem manifest_path_stays_below_base_witness:
  "has_prefix ''clusters/prod/etc-passwd/Web-App/x.yaml'' ''clusters/prod/''"
proof -
  have "ValidateBasePath ''clusters/./prod'' = None"
    "ManifestPathFor ''../x'' ''../../etc/passwd'' ''Web App'' False ''clusters/./prod'' = Inr ''clusters/prod/etc-passwd/Web-App/x.yaml''"
    by code_simp+
  from manifest_path_stays_below_base [OF this] show ?thesis by (simp add: path_Clean_def)
qed

text \<open>
  C21: the manifests of different instances have different paths, as far as the path can tell. For names,
  namespaces and kinds the API server accepts, two requests for the same repository have the same path
  exactly when they agree in name and scope and, in a namespace, in namespace and kind, or, in the cluster
  scope, in the kind up to the case of letters. The API group is no part of the path.
\<close>

theorem manifest_paths_distinct:
  assumes "ValidateBasePath basePath = None" "valid_instance name ns kind cs" "valid_instance name' ns' kind' cs'"
  shows "ManifestPathFor name ns kind cs basePath = ManifestPathFor name' ns' kind' cs' basePath \<longleftrightarrow>
    name = name' \<and> cs = cs' \<and> (if cs then to_lower kind = to_lower kind' else ns = ns' \<and> kind = kind')"
proof -
  define f where "f = (\<lambda>name ns kind cs. base_elems (effective_base basePath) @
      [if cs then ''cluster-scoped'' else ns, if cs then to_lower kind else kind, name @ ''.yaml''])"
  note b = effective_base_valid [OF assms(1), THEN conjunct1] effective_base_valid [OF assms(1), THEN conjunct2]
  have plain: "\<forall>e \<in> set (f name ns kind cs). CHR ''/'' \<notin> set e" if "valid_instance name ns kind cs" for name ns kind cs
  proof -
    have "clean_component name" "clean_component (if cs then to_lower kind else kind)"
        "clean_component (if cs then ''cluster-scoped'' else ns)"
      using that subdomain_clean label_clean kind_clean [of kind] clean_cluster_scoped by (auto simp: valid_instance_def)
    then show ?thesis
      using valid_base(4) [OF b] clean_component_elem yaml_elem unfolding f_def by (auto simp: list_all_iff plain_elem_def)
  qed
  have eq: "ManifestPathFor name ns kind cs basePath = Inr (join_on ''/'' (f name ns kind cs))"
    if "valid_instance name ns kind cs" for name ns kind cs
    using valid_manifest_path [OF assms(1) that] by (simp add: f_def)
  have inj: "f name ns kind cs = f name' ns' kind' cs'" if "join_on ''/'' (f name ns kind cs) = join_on ''/'' (f name' ns' kind' cs')"
  proof -
    have sp: "split_on (CHR ''/'') (join_on ''/'' (f a b c d)) = f a b c d" if v: "valid_instance a b c d" for a b c d
    proof (rule split_join_on)
      show "f a b c d \<noteq> []" by (simp add: f_def)
      show "CHR ''/'' \<notin> set e" if "e \<in> set (f a b c d)" for e using plain [OF v] that by (rule bspec)
    qed
    from arg_cong [OF that, of "split_on (CHR ''/'')"] show ?thesis unfolding sp [OF assms(2)] sp [OF assms(3)] .
  qed
  have up: "to_lower kind \<noteq> kind'" "to_lower kind' \<noteq> kind"
  proof -
    have "IsValidK8sKind kind" "IsValidK8sKind kind'" using assms(2,3) by (simp_all add: valid_instance_def)
    then show "to_lower kind \<noteq> kind'" "to_lower kind' \<noteq> kind" using kind_clean(1,4) by metis+
  qed
  have iff: "f name ns kind cs = f name' ns' kind' cs' \<longleftrightarrow>
      name = name' \<and> cs = cs' \<and> (if cs then to_lower kind = to_lower kind' else ns = ns' \<and> kind = kind')"
    using up by (auto simp: f_def)
  have "join_on ''/'' (f name ns kind cs) = join_on ''/'' (f name' ns' kind' cs') \<longleftrightarrow> f name ns kind cs = f name' ns' kind' cs'"
    using inj by metis
  then show ?thesis unfolding eq [OF assms(2)] eq [OF assms(3)] iff [symmetric] by simp
qed

theorem manifest_paths_distinct_witness:
  "ManifestPathFor ''db'' ''team-a'' ''Postgres'' False [] \<noteq> ManifestPathFor ''db'' ''team-b'' ''Postgres'' False [] \<and>
   ManifestPathFor ''db'' [] ''WebApp'' True [] = ManifestPathFor ''db'' [] ''Webapp'' True []"
proof -
  have v: "valid_instance ''db'' ''team-a'' ''Postgres'' False" "valid_instance ''db'' ''team-b'' ''Postgres'' False"
    "valid_instance ''db'' [] ''WebApp'' True" "valid_instance ''db'' [] ''Webapp'' True"
    "ValidateBasePath [] = None" "to_lower ''WebApp'' = to_lower ''Webapp''"
    by code_simp+
  show ?thesis using manifest_paths_distinct [OF v(5,1,2)] manifest_paths_distinct [OF v(5,3,4)] v(6) by simp
qed


end
