(* ===== verification/Github_Client.thy ===== *)
theory Github_Client
  imports Retry Deployment_Model
begin

text \<open>
  \<open>deployment/vcs\<close>: the client of the GitHub contents API, \<open>github.go\<close>, with the retries of \<open>retry.go\<close>. The
  HTTP transport is \<open>ga_Do\<close>. The locale \<open>github_server\<close> states the documented behaviour of the contents
  API; it is interpreted on an in-memory server. The state of the rate limit, which is only reported, is
  left out.
\<close>

subsection \<open>Requests and answers\<close>

record commitFilePayload =
  cp_Message :: string
  cp_Content :: string
  cp_Branch :: string
  cp_SHA :: string

datatype gh_request =
    GhGet string
  | GhPut string commitFilePayload
  | GhDelete string string string string

text \<open>
  An answer: its status, its body decoded as a file and as the result of a commit (their hashes), and the
  seconds of its \<open>Retry-After\<close>. \<open>GhDelete\<close> has URL, message, hash and branch.
\<close>

record gh_response =
  gr_Status :: int
  gr_File :: "gerror + string"
  gr_Commit :: "gerror + string"
  gr_RetryAfter :: int

record 'w github_api =
  ga_Do :: "gh_request \<Rightarrow> 'w \<Rightarrow> ((bool \<times> string) + gh_response) \<times> 'w"
  ga_env :: "'w retry_env"
  ga_base64 :: "string \<Rightarrow> string"

record GitHubClient =
  gc_token :: string
  gc_owner :: string
  gc_repo :: string
  gc_baseURL :: string
  gc_retryConfig :: RetryConfig

definition GitHubAPIBaseURL :: string where
  "GitHubAPIBaseURL = ''https://api.github.com''"

definition DefaultRetryConfig :: RetryConfig where
  "DefaultRetryConfig =
     \<lparr>rt_MaxAttempts = 3, rt_BaseDelay = 10 ^ 9, rt_MaxDelay = 10 * 10 ^ 9, rt_MaxTotalDuration = 0\<rparr>"

definition NewGitHubClient :: "string \<Rightarrow> string \<Rightarrow> string \<Rightarrow> gerror + GitHubClient" where
  "NewGitHubClient token owner repo =
     (if token = [] then Inl (Err ''github token cannot be empty'')
      else if owner = [] then Inl (Err ''github owner cannot be empty'')
      else if repo = [] then Inl (Err ''github repo cannot be empty'')
      else Inr \<lparr>gc_token = token, gc_owner = owner, gc_repo = repo, gc_baseURL = GitHubAPIBaseURL,
                gc_retryConfig = DefaultRetryConfig\<rparr>)"

subsection \<open>Retries\<close>

definition waitForRateLimit :: "'w github_api \<Rightarrow> RetryConfig \<Rightarrow> int \<Rightarrow> 'w \<Rightarrow> 'w" where
  "waitForRateLimit api conf retryAfter w =
     (let d = (if retryAfter \<le> 0 then rt_BaseDelay conf else retryAfter);
          d = (if d > rt_MaxDelay conf * 10 then rt_MaxDelay conf * 10 else d)
      in snd (re_wait (ga_env api) d w))"

definition attempt_request ::
  "'w github_api \<Rightarrow> RetryConfig \<Rightarrow> gh_request \<Rightarrow> ('w, gh_response) operation" where
  "attempt_request api conf req w =
     (case ga_Do api req w of
        (Inl (isNetErr, txt), w1) \<Rightarrow>
          (Inl (if IsRetryable (Some (isNetErr, txt)) then Plain (Err txt) else PermanentError (Err txt)), w1)
      | (Inr resp, w1) \<Rightarrow>
          if gr_Status resp \<ge> 500 then (Inl (Plain (Err ''server error'')), w1)
          else if gr_Status resp = 429
            then (Inl (Plain (Err ''rate limited'')), waitForRateLimit api conf (gr_RetryAfter resp) w1)
          else (Inr resp, w1))"

definition doWithRetry :: "'w github_api \<Rightarrow> GitHubClient \<Rightarrow> gh_request \<Rightarrow> 'w \<Rightarrow> (gerror + gh_response) \<times> 'w" where
  "doWithRetry api c req w =
     DoWithResult (ga_env api) (gc_retryConfig c) (attempt_request api (gc_retryConfig c) req) w"

subsection \<open>Files\<close>

definition contents_url :: "string \<Rightarrow> string \<Rightarrow> string \<Rightarrow> string \<Rightarrow> string" where
  "contents_url base owner repo path = base @ ''/repos/'' @ owner @ ''/'' @ repo @ ''/contents/'' @ path"

definition url_of :: "GitHubClient \<Rightarrow> string \<Rightarrow> string" where
  "url_of c path = contents_url (gc_baseURL c) (gc_owner c) (gc_repo c) path"

text \<open>The hash of a file, \<open>None\<close> when there is no file.\<close>

definition getFileContent :: "'w github_api \<Rightarrow> GitHubClient \<Rightarrow> string \<Rightarrow> string \<Rightarrow> 'w \<Rightarrow> (gerror + string option) \<times> 'w" where
  "getFileContent api c path branch w =
     (case doWithRetry api c (GhGet (url_of c path @ (if branch \<noteq> [] then ''?ref='' @ branch else []))) w of
        (Inl e, w1) \<Rightarrow> (Inl (Wrap ''failed to get file content'' e), w1)
      | (Inr resp, w1) \<Rightarrow>
          if gr_Status resp = 404 then (Inr None, w1)
          else if gr_Status resp \<noteq> 200 then (Inl (Err ''failed to get file content''), w1)
          else (case gr_File resp of
                  Inl e \<Rightarrow> (Inl (Wrap ''failed to decode file content'' e), w1)
                | Inr sha \<Rightarrow> (Inr (Some sha), w1)))"

record CommitFileRequest =
  cf_Path :: string
  cf_Content :: string
  cf_Message :: string
  cf_Branch :: string
  cf_SHA :: string

definition CommitFile :: "'w github_api \<Rightarrow> GitHubClient \<Rightarrow> CommitFileRequest \<Rightarrow> 'w \<Rightarrow> (gerror + string) \<times> 'w" where
  "CommitFile api c req w =
     (if cf_Path req = [] then (Inl (Err ''file path cannot be empty''), w)
      else if cf_Content req = [] then (Inl (Err ''file content cannot be empty''), w)
      else if cf_Message req = [] then (Inl (Err ''commit message cannot be empty''), w)
      else (case doWithRetry api c
                   (GhPut (url_of c (cf_Path req))
                      \<lparr>cp_Message = cf_Message req, cp_Content = ga_base64 api (cf_Content req),
                       cp_Branch = cf_Branch req, cp_SHA = cf_SHA req\<rparr>) w of
              (Inl e, w1) \<Rightarrow> (Inl (Wrap ''failed to commit file'' e), w1)
            | (Inr resp, w1) \<Rightarrow>
                if gr_Status resp \<noteq> 200 \<and> gr_Status resp \<noteq> 201 then (Inl (Err ''failed to commit file''), w1)
                else (case gr_Commit resp of
                        Inl e \<Rightarrow> (Inl (Wrap ''failed to decode commit result'' e), w1)
                      | Inr sha \<Rightarrow> (Inr sha, w1))))"

definition DeleteFile :: "'w github_api \<Rightarrow> GitHubClient \<Rightarrow> string \<Rightarrow> string \<Rightarrow> string \<Rightarrow> 'w \<Rightarrow> gerror option \<times> 'w" where
  "DeleteFile api c path branch message w =
     (if path = [] then (Some (Err ''file path cannot be empty''), w)
      else if message = [] then (Some (Err ''commit message cannot be empty''), w)
      else (case getFileContent api c path branch w of
              (Inl e, w1) \<Rightarrow> (Some (Wrap ''failed to get file SHA'' e), w1)
            | (Inr None, w1) \<Rightarrow> (None, w1)
            | (Inr (Some sha), w1) \<Rightarrow>
                (case doWithRetry api c (GhDelete (url_of c path) message sha branch) w1 of
                   (Inl e, w2) \<Rightarrow> (Some (Wrap ''failed to delete file'' e), w2)
                 | (Inr resp, w2) \<Rightarrow>
                     if gr_Status resp \<noteq> 200 then (Some (Err ''failed to delete file''), w2) else (None, w2))))"

subsection \<open>The contents API\<close>

text \<open>
  A file is found by owner, repository, branch and path; it has a content and a hash. The API is relied on
  for paths and branches that need no escaping in a URL. To replace a file the request must carry the hash
  of the file it replaces; to create one there must be no file. A request that fails, or whose answer is
  lost, may still have been carried out.
\<close>

type_synonym git_file = "string \<times> string \<times> string \<times> string"

definition url_safe :: "string \<Rightarrow> bool" where
  "url_safe s \<longleftrightarrow> s \<noteq> [] \<and> list_all key_char s"

definition put_allowed :: "(git_file \<rightharpoonup> string \<times> string) \<Rightarrow> git_file \<Rightarrow> string \<Rightarrow> bool" where
  "put_allowed fs k sha \<longleftrightarrow> (case fs k of None \<Rightarrow> True | Some (_, s) \<Rightarrow> s = sha)"

locale github_server =
  fixes api :: "'w github_api"
    and files :: "'w \<Rightarrow> git_file \<rightharpoonup> string \<times> string"
    and other :: "'w \<Rightarrow> 'k"
  assumes get_frame: "ga_Do api (GhGet url) w = (r, w') \<Longrightarrow> files w' = files w \<and> other w' = other w"
    and get_file: "list_all path_char owner \<Longrightarrow> list_all path_char repo \<Longrightarrow> url_safe path \<Longrightarrow> url_safe branch \<Longrightarrow>
      ga_Do api (GhGet (contents_url GitHubAPIBaseURL owner repo path @ ''?ref='' @ branch)) w = (Inr resp, w') \<Longrightarrow>
      (gr_Status resp = 404 \<longrightarrow> files w (owner, repo, branch, path) = None) \<and>
      (gr_Status resp = 200 \<longrightarrow> (\<exists>c sha. files w (owner, repo, branch, path) = Some (c, sha) \<and> gr_File resp = Inr sha))"
    and put_file: "list_all path_char owner \<Longrightarrow> list_all path_char repo \<Longrightarrow> url_safe path \<Longrightarrow> url_safe branch \<Longrightarrow>
      ga_Do api (GhPut (contents_url GitHubAPIBaseURL owner repo path)
        \<lparr>cp_Message = m, cp_Content = ga_base64 api content, cp_Branch = branch, cp_SHA = sha\<rparr>) w = (r, w') \<Longrightarrow>
      other w' = other w \<and>
      (files w' = files w \<and> (\<forall>resp. r = Inr resp \<longrightarrow> gr_Status resp \<notin> {200, 201}) \<or>
       put_allowed (files w) (owner, repo, branch, path) sha \<and>
       (\<exists>sha'. sha' \<noteq> [] \<and> files w' = (files w)((owner, repo, branch, path) \<mapsto> (content, sha'))))"
    and delete_file: "list_all path_char owner \<Longrightarrow> list_all path_char repo \<Longrightarrow> url_safe path \<Longrightarrow> url_safe branch \<Longrightarrow>
      ga_Do api (GhDelete (contents_url GitHubAPIBaseURL owner repo path) m sha branch) w = (r, w') \<Longrightarrow>
      other w' = other w \<and>
      (files w' = files w \<and> (\<forall>resp. r = Inr resp \<longrightarrow> gr_Status resp \<noteq> 200) \<or>
       files w' = (files w)((owner, repo, branch, path) := None))"
    and env_frame: "files (snd (re_rand (ga_env api) w)) = files w" "other (snd (re_rand (ga_env api) w)) = other w"
      "files (snd (re_wait (ga_env api) d w)) = files w" "other (snd (re_wait (ga_env api) d w)) = other w"

subsection \<open>What the client achieves\<close>

text \<open>An invariant of the operation and of the environment is one of the loop; a result is that of one attempt.\<close>

lemma retry_loop_keeps:
  assumes "\<And>w. I w \<Longrightarrow> I (snd (fn w))" "\<And>w. I w \<Longrightarrow> I (snd (re_rand env w))" "\<And>d w. I w \<Longrightarrow> I (snd (re_wait env d w))"
  shows "I w \<Longrightarrow> retry_loop env conf start fn todo n e w = (r, w') \<Longrightarrow>
    I w' \<and> (\<forall>a. r = Inr a \<longrightarrow> (\<exists>w0. I w0 \<and> fn w0 = (Inr a, w')))"
proof (induction todo arbitrary: n e w)
  case (Suc todo)
  have p: "I w2" if "I w1" "pause env conf n w1 = (c, w2)" for w1 c w2
    using that assms(2,3) by (auto simp: pause_def split: prod.splits) (metis snd_conv)
  show ?case
  proof (cases "re_ctx env w")
    case None
    obtain x w1 where f: "fn w = (x, w1)" by fastforce
    have w1: "I w1" using assms(1) [OF Suc.prems(1)] f by simp
    obtain c w2 where q: "pause env conf n w1 = (c, w2)" by fastforce
    note IH = Suc.IH [of w1 "Suc n"] Suc.IH [of w2 "Suc n"]
    show ?thesis
      using Suc.prems None f w1 p [OF w1 q] q IH
      by (auto split: if_splits sum.splits retry_error.splits bool.splits)
  qed (use Suc.prems in auto)
qed auto

context github_server begin

abbreviation "same w w' \<equiv> files w' = files w \<and> other w' = other w"

lemma wait_frame: "same w (waitForRateLimit api conf d w)"
  by (simp add: waitForRateLimit_def env_frame Let_def)

lemma attempt_frame:
  assumes "ga_Do api req w = (x, w1)" "attempt_request api conf req w = (r, w')"
  shows "same w1 w' \<and> (\<forall>resp. r = Inr resp \<longrightarrow> x = Inr resp)"
  using assms wait_frame by (auto simp: attempt_request_def split: sum.splits if_splits)

definition github_client :: "GitHubClient \<Rightarrow> bool" where
  "github_client c \<longleftrightarrow> gc_baseURL c = GitHubAPIBaseURL \<and> list_all path_char (gc_owner c) \<and> list_all path_char (gc_repo c)"

lemma doWithRetry_keeps:
  assumes inv: "\<And>u v. same u v \<Longrightarrow> I u \<Longrightarrow> I v" and step: "\<And>u x v. I u \<Longrightarrow> ga_Do api req u = (x, v) \<Longrightarrow> I v"
    and run: "I w" "doWithRetry api c req w = (r, w')"
  shows "I w' \<and> (\<forall>resp. r = Inr resp \<longrightarrow> (\<exists>u v. I u \<and> ga_Do api req u = (Inr resp, v) \<and> same v w'))"
proof -
  let ?fn = "attempt_request api (gc_retryConfig c) req"
  have fn: "I (snd (?fn u))" if "I u" for u
  proof -
    obtain x v where d: "ga_Do api req u = (x, v)" by fastforce
    obtain y v' where a: "?fn u = (y, v')" by fastforce
    have "same v v'" using attempt_frame [OF d a] by blast
    then have "I v'" using inv step [OF that d] by blast
    then show ?thesis using a by simp
  qed
  have K: "I w' \<and> (\<forall>a. r = Inr a \<longrightarrow> (\<exists>w0. I w0 \<and> ?fn w0 = (Inr a, w')))"
  proof (rule retry_loop_keeps [where I = I])
    show "I (snd (re_rand (ga_env api) u))" "I (snd (re_wait (ga_env api) d u))" if "I u" for u d
      using inv env_frame that by blast+
    show "retry_loop (ga_env api) (gc_retryConfig c) (re_now (ga_env api) w) ?fn (attempts (gc_retryConfig c)) 0 None w = (r, w')"
      using run(2) by (simp add: doWithRetry_def DoWithResult_def)
  qed (use fn run(1) in auto)
  have "\<exists>u v. I u \<and> ga_Do api req u = (Inr resp, v) \<and> same v w'" if s: "r = Inr resp" for resp
  proof -
    obtain u where u: "I u" "?fn u = (Inr resp, w')" using K s by blast
    obtain x v where d: "ga_Do api req u = (x, v)" by fastforce
    show ?thesis using attempt_frame [OF d u(2)] d u(1) by blast
  qed
  then show ?thesis using K by blast
qed

lemma commit_effect:
  assumes c: "github_client c" and k: "url_safe (cf_Path req)" "url_safe (cf_Branch req)"
    and run: "CommitFile api c req w = (r, w')"
  shows "other w' = other w \<and>
    (files w' = files w \<and> isl r \<or>
     put_allowed (files w) (gc_owner c, gc_repo c, cf_Branch req, cf_Path req) (cf_SHA req) \<and>
     (\<exists>sha. sha \<noteq> [] \<and> files w' = (files w)((gc_owner c, gc_repo c, cf_Branch req, cf_Path req) \<mapsto> (cf_Content req, sha))))"
proof -
  define k where "k = (gc_owner c, gc_repo c, cf_Branch req, cf_Path req)"
  define carried where "carried = (\<lambda>u. put_allowed (files w) k (cf_SHA req) \<and>
      (\<exists>sha. sha \<noteq> [] \<and> files u = (files w)(k \<mapsto> (cf_Content req, sha))))"
  define I where "I = (\<lambda>u. other u = other w \<and> (files u = files w \<or> carried u))"
  define put where "put = GhPut (url_of c (cf_Path req))
    \<lparr>cp_Message = cf_Message req, cp_Content = ga_base64 api (cf_Content req), cp_Branch = cf_Branch req, cp_SHA = cf_SHA req\<rparr>"
  have step: "I v \<and> (\<forall>resp. x = Inr resp \<longrightarrow> gr_Status resp \<in> {200, 201} \<longrightarrow> carried v)"
    if "I u" "ga_Do api put u = (x, v)" for u x v
  proof -
    have P: "other v = other u \<and>
      (files v = files u \<and> (\<forall>resp. x = Inr resp \<longrightarrow> gr_Status resp \<notin> {200, 201}) \<or>
       put_allowed (files u) k (cf_SHA req) \<and> (\<exists>sha. sha \<noteq> [] \<and> files v = (files u)(k \<mapsto> (cf_Content req, sha))))"
      using put_file [OF _ _ k] c that(2) unfolding put_def url_of_def k_def github_client_def by metis
    have u: "other u = other w" "files u = files w \<or> carried u" using that(1) by (simp_all add: I_def)
    show ?thesis
    proof (cases "files v = files u \<and> (\<forall>resp. x = Inr resp \<longrightarrow> gr_Status resp \<notin> {200, 201})")
      case True
      then show ?thesis using P u by (auto simp: I_def carried_def)
    next
      case False
      then obtain sha where a: "put_allowed (files u) k (cf_SHA req)" "sha \<noteq> []" "files v = (files u)(k \<mapsto> (cf_Content req, sha))"
        using P by blast
      have "carried v"
        using u(2) a by (elim disjE) (auto simp: carried_def)
      then show ?thesis using P u(1) by (simp add: I_def)
    qed
  qed
  show ?thesis
  proof (cases "cf_Path req = [] \<or> cf_Content req = [] \<or> cf_Message req = []")
    case True
    then show ?thesis using run by (auto simp: CommitFile_def split: if_splits)
  next
    case False
    obtain x w1 where d: "doWithRetry api c put w = (x, w1)" by fastforce
    have K: "I w1 \<and> (\<forall>resp. x = Inr resp \<longrightarrow> (\<exists>u v. I u \<and> ga_Do api put u = (Inr resp, v) \<and> same v w1))"
    proof (rule doWithRetry_keeps [OF _ _ _ d])
      show "I v" if "same u v" "I u" for u v using that by (auto simp: I_def carried_def)
      show "I v" if "I u" "ga_Do api put u = (y, v)" for u y v using step that by blast
    qed (simp add: I_def)
    have w': "w' = w1" and r: "\<not> isl r \<Longrightarrow> \<exists>resp. x = Inr resp \<and> gr_Status resp \<in> {200, 201}"
      using run d False by (auto simp: CommitFile_def put_def split: sum.splits if_splits)
    have "carried w'" if s: "\<not> isl r"
    proof -
      obtain resp u v where "x = Inr resp" "gr_Status resp \<in> {200, 201}" "I u" "ga_Do api put u = (Inr resp, v)" "same v w1"
        using K r [OF s] by blast
      then have "carried v" "same v w'" using step w' by blast+
      then show ?thesis by (simp add: carried_def)
    qed
    then show ?thesis using K w' unfolding I_def carried_def k_def by blast
  qed
qed

lemma delete_effect:
  assumes c: "github_client c" and k: "url_safe path" "url_safe branch"
    and run: "DeleteFile api c path branch message w = (r, w')"
  shows "other w' = other w \<and>
    (files w' = files w \<and> r \<noteq> None \<or> files w' = (files w)((gc_owner c, gc_repo c, branch, path) := None))"
proof -
  define k where "k = (gc_owner c, gc_repo c, branch, path)"
  have b: "branch \<noteq> []" using k(2) by (simp add: url_safe_def)
  define get where "get = GhGet (url_of c path @ ''?ref='' @ branch)"
  obtain x w1 where d: "doWithRetry api c get w = (x, w1)" by fastforce
  have G: "same w w1 \<and> (\<forall>resp. x = Inr resp \<longrightarrow> (\<exists>u v. same w u \<and> ga_Do api get u = (Inr resp, v) \<and> same v w1))"
  proof (rule doWithRetry_keeps [OF _ _ _ d, of "same w"])
    show "same w v" if "same w u" "ga_Do api get u = (y, v)" for u y v using that get_frame unfolding get_def by metis
  qed auto
  have none: "files w k = None" if x: "x = Inr resp" "gr_Status resp = 404" for resp
  proof -
    obtain u v where "same w u" "ga_Do api get u = (Inr resp, v)" using G x(1) by blast
    then show ?thesis using get_file [OF _ _ k] c x(2) unfolding get_def url_of_def github_client_def k_def by metis
  qed
  show ?thesis
  proof (cases "getFileContent api c path branch w")
    case (Pair y w1')
    then have w1': "w1' = w1" using d b by (auto simp: getFileContent_def get_def split: sum.splits if_splits)
    show ?thesis
    proof (cases "\<exists>sha. y = Inr (Some sha) \<and> path \<noteq> [] \<and> message \<noteq> []")
      case False
      have "y = Inr None \<Longrightarrow> files w k = None"
        using Pair d b none by (auto simp: getFileContent_def get_def split: sum.splits if_splits)
      then show ?thesis
        using run False Pair w1' G
        by (auto simp: DeleteFile_def k_def fun_upd_idem_iff split: if_splits sum.splits option.splits)
    next
      case True
      then obtain sha where y: "y = Inr (Some sha)" "path \<noteq> []" "message \<noteq> []" by blast
      define del where "del = GhDelete (url_of c path) message sha branch"
      define I where "I = (\<lambda>u. other u = other w \<and> (files u = files w \<or> files u = (files w)(k := None)))"
      obtain z w2 where e: "doWithRetry api c del w1 = (z, w2)" by fastforce
      have step: "I v \<and> (\<forall>resp. q = Inr resp \<longrightarrow> gr_Status resp = 200 \<longrightarrow> files v = (files w)(k := None))"
        if "I u" "ga_Do api del u = (q, v)" for u q v
      proof -
        have "other v = other u \<and> (files v = files u \<and> (\<forall>resp. q = Inr resp \<longrightarrow> gr_Status resp \<noteq> 200) \<or>
            files v = (files u)(k := None))"
          using delete_file [OF _ _ k] c that(2) unfolding del_def url_of_def github_client_def k_def by metis
        then show ?thesis using that(1) by (auto simp: I_def)
      qed
      have D: "I w2 \<and> (\<forall>resp. z = Inr resp \<longrightarrow> (\<exists>u v. I u \<and> ga_Do api del u = (Inr resp, v) \<and> same v w2))"
      proof (rule doWithRetry_keeps [OF _ _ _ e])
        show "I v" if "same u v" "I u" for u v using that by (auto simp: I_def)
        show "I v" if "I u" "ga_Do api del u = (q, v)" for u q v using step that by blast
      qed (use G in \<open>simp add: I_def\<close>)
      have w': "w' = w2" and r: "r = None \<Longrightarrow> \<exists>resp. z = Inr resp \<and> gr_Status resp = 200"
        using run Pair y w1' e by (auto simp: DeleteFile_def del_def split: sum.splits if_splits)
      have "files w' = (files w)(k := None)" if s: "r = None"
      proof -
        obtain resp u v where "gr_Status resp = 200" "I u" "ga_Do api del u = (Inr resp, v)" "same v w2"
          using D r [OF s] by blast
        then show ?thesis using step w' by metis
      qed
      then show ?thesis using D w' unfolding I_def k_def by blast
    qed
  qed
qed

end

subsection \<open>An in-memory server\<close>

record 'k gh_mem =
  gm_files :: "git_file \<rightharpoonup> string \<times> string"
  gm_other :: 'k

definition answer :: "int \<Rightarrow> string \<Rightarrow> gh_response" where
  "answer status sha = \<lparr>gr_Status = status, gr_File = Inr sha, gr_Commit = Inr (''commit-'' @ sha), gr_RetryAfter = 0\<rparr>"

definition parse_url :: "string \<Rightarrow> string \<times> string \<times> string" where
  "parse_url url =
     (let parts = split_n 4 (CHR ''/'') (drop (length (GitHubAPIBaseURL @ ''/repos/'')) url)
      in (parts ! 0, parts ! 1, parts ! 3))"

fun gh_mem_Do :: "gh_request \<Rightarrow> 'k gh_mem \<Rightarrow> ((bool \<times> string) + gh_response) \<times> 'k gh_mem" where
  "gh_mem_Do (GhGet url) w =
     (case parse_url url of (owner, repo, rest) \<Rightarrow>
        (case gm_files w (owner, repo, drop 5 (dropWhile (\<lambda>x. x \<noteq> CHR ''?'') rest), takeWhile (\<lambda>x. x \<noteq> CHR ''?'') rest) of
           None \<Rightarrow> (Inr (answer 404 []), w)
         | Some (_, sha) \<Rightarrow> (Inr (answer 200 sha), w)))"
| "gh_mem_Do (GhPut url pl) w =
     (case parse_url url of (owner, repo, path) \<Rightarrow>
        (let k = (owner, repo, cp_Branch pl, path); sha = ''blob '' @ cp_Content pl
         in if put_allowed (gm_files w) k (cp_SHA pl)
              then (Inr (answer 201 sha), w\<lparr>gm_files := (gm_files w)(k \<mapsto> (cp_Content pl, sha))\<rparr>)
            else (Inr (answer 422 []), w)))"
| "gh_mem_Do (GhDelete url m sha branch) w =
     (case parse_url url of (owner, repo, path) \<Rightarrow>
        (case gm_files w (owner, repo, branch, path) of
           None \<Rightarrow> (Inr (answer 404 []), w)
         | Some (_, s) \<Rightarrow>
             if s = sha then (Inr (answer 200 []), w\<lparr>gm_files := (gm_files w)((owner, repo, branch, path) := None)\<rparr>)
             else (Inr (answer 409 []), w)))"

definition quiet_env :: "'w retry_env" where
  "quiet_env = \<lparr>re_ctx = (\<lambda>_. None), re_now = (\<lambda>_. 0), re_rand = (\<lambda>w. (None, w)), re_wait = (\<lambda>_ w. (False, w))\<rparr>"

definition gh_mem_api :: "'k gh_mem github_api" where
  "gh_mem_api = \<lparr>ga_Do = gh_mem_Do, ga_env = quiet_env, ga_base64 = (\<lambda>s. s)\<rparr>"

lemma parse_contents_url:
  assumes "list_all path_char owner" "list_all path_char repo"
  shows "parse_url (contents_url GitHubAPIBaseURL owner repo x) = (owner, repo, x)"
proof -
  have no: "CHR ''/'' \<notin> set a" if "list_all path_char a" for a
    using that by (auto simp: list_all_iff path_char_def alnum_def is_lower_def is_upper_def is_digit_def)
  have d: "drop (length (GitHubAPIBaseURL @ ''/repos/'')) (contents_url GitHubAPIBaseURL owner repo x)
      = owner @ CHR ''/'' # repo @ CHR ''/'' # ''contents'' @ CHR ''/'' # x"
    by (simp add: contents_url_def GitHubAPIBaseURL_def)
  have "split_n (Suc (Suc (Suc (Suc 0)))) (CHR ''/'') (owner @ CHR ''/'' # repo @ CHR ''/'' # ''contents'' @ CHR ''/'' # x)
      = [owner, repo, ''contents'', x]"
    using split_n_append [OF no [OF assms(1)], of 2] split_n_append [OF no [OF assms(2)], of 1]
      split_n_append [of "CHR ''/''" "''contents''" 0] by (simp add: numeral_2_eq_2)
  then show ?thesis unfolding parse_url_def d by (simp add: eval_nat_numeral Let_def)
qed

interpretation gh_mem: github_server gh_mem_api gm_files gm_other
proof
  fix owner repo path branch :: string and w w' :: "'k gh_mem" and resp
  assume u: "list_all path_char owner" "list_all path_char repo" "url_safe path" "url_safe branch"
    and d: "ga_Do gh_mem_api (GhGet (contents_url GitHubAPIBaseURL owner repo path @ ''?ref='' @ branch)) w = (Inr resp, w')"
  have e: "contents_url GitHubAPIBaseURL owner repo path @ y = contents_url GitHubAPIBaseURL owner repo (path @ y)" for y
    by (simp add: contents_url_def)
  have q: "CHR ''?'' \<notin> set path"
    using u(3) by (auto simp: url_safe_def list_all_iff key_char_def path_char_def alnum_def is_lower_def is_upper_def is_digit_def)
  have "takeWhile (\<lambda>x. x \<noteq> CHR ''?'') (path @ ''?ref='' @ branch) = path"
      "drop 5 (dropWhile (\<lambda>x. x \<noteq> CHR ''?'') (path @ ''?ref='' @ branch)) = branch"
    using q by (auto simp: takeWhile_tail dropWhile_append)
  then show "(gr_Status resp = 404 \<longrightarrow> gm_files w (owner, repo, branch, path) = None) \<and>
      (gr_Status resp = 200 \<longrightarrow> (\<exists>c sha. gm_files w (owner, repo, branch, path) = Some (c, sha) \<and> gr_File resp = Inr sha))"
    using d unfolding e by (auto simp: gh_mem_api_def parse_contents_url [OF u(1,2)] answer_def split: option.splits)
next
  fix owner repo path branch m content sha :: string and w w' :: "'k gh_mem" and r
  assume u: "list_all path_char owner" "list_all path_char repo" "url_safe path" "url_safe branch"
    and d: "ga_Do gh_mem_api (GhPut (contents_url GitHubAPIBaseURL owner repo path)
        \<lparr>cp_Message = m, cp_Content = ga_base64 gh_mem_api content, cp_Branch = branch, cp_SHA = sha\<rparr>) w = (r, w')"
  show "gm_other w' = gm_other w \<and>
      (gm_files w' = gm_files w \<and> (\<forall>resp. r = Inr resp \<longrightarrow> gr_Status resp \<notin> {200, 201}) \<or>
       put_allowed (gm_files w) (owner, repo, branch, path) sha \<and>
       (\<exists>sha'. sha' \<noteq> [] \<and> gm_files w' = (gm_files w)((owner, repo, branch, path) \<mapsto> (content, sha'))))"
    using d by (auto simp: gh_mem_api_def parse_contents_url [OF u(1,2)] answer_def Let_def split: if_splits)
qed (auto simp: gh_mem_api_def quiet_env_def parse_contents_url answer_def split: prod.splits option.splits if_splits)


definition demo_client :: GitHubClient where
  "demo_client = \<lparr>gc_token = ''t'', gc_owner = ''acme'', gc_repo = ''infra'', gc_baseURL = GitHubAPIBaseURL,
     gc_retryConfig = DefaultRetryConfig\<rparr>"


end
