(* ===== verification/Deployment_Controller.thy ===== *)
theory Deployment_Controller
  imports Github_Client
begin

text \<open>
  \<open>deployment/controller.go\<close>: deploying an instance to the cluster, to a Git repository, or to both, and
  removing its manifest. The Kubernetes API is a record of operations on a state \<open>'w\<close>; the locale
  \<open>deploy_world\<close> states what its server and the Git server promise, and is interpreted on an in-memory
  world. A repository is reached through the client of \<open>Github_Client\<close>, the one \<open>NewController\<close> installs.
\<close>

subsection \<open>The API server\<close>

datatype api_reason =
    ReasonAlreadyExists | ReasonNotFound | ReasonConflict | ReasonServerTimeout | ReasonTooManyRequests | OtherReason

record api_error =
  ae_Reason :: api_reason
  ae_IsNetErr :: bool
  ae_Text :: string

record gvr =
  gvr_Group :: string
  gvr_Version :: string
  gvr_Resource :: string

text \<open>
  The second argument of the operations is the namespace, empty for the cluster. \<open>de_discovery\<close> maps group,
  version and kind to a resource; \<open>None\<close> when there is no discovery client.
\<close>

record 'w deploy_env =
  de_discovery :: "(string \<Rightarrow> string \<Rightarrow> string \<Rightarrow> 'w \<Rightarrow> gerror + gvr) option"
  de_Create :: "gvr \<Rightarrow> string \<Rightarrow> kube_object \<Rightarrow> 'w \<Rightarrow> api_error option \<times> 'w"
  de_Patch :: "gvr \<Rightarrow> string \<Rightarrow> kube_object \<Rightarrow> 'w \<Rightarrow> api_error option \<times> 'w"
  de_Delete :: "gvr \<Rightarrow> string \<Rightarrow> string \<Rightarrow> 'w \<Rightarrow> api_error option \<times> 'w"
  de_GetSecret :: "string \<Rightarrow> string \<Rightarrow> 'w \<Rightarrow> gerror + (string \<rightharpoonup> string)"
  de_toYAML :: "kube_object \<Rightarrow> gerror + string"
  de_now :: "'w \<Rightarrow> string"
  de_retry :: "'w retry_env"
  de_retryConfig :: RetryConfig
  de_github :: "'w github_api"

definition controllerRetryConfig :: RetryConfig where
  "controllerRetryConfig =
     \<lparr>rt_MaxAttempts = 3, rt_BaseDelay = 5 * 10 ^ 8, rt_MaxDelay = 5 * 10 ^ 9, rt_MaxTotalDuration = 0\<rparr>"

definition scope :: "DeployRequest \<Rightarrow> string" where
  "scope req = (if dp_IsClusterScoped req then [] else dp_Namespace req)"

subsection \<open>The cluster\<close>

definition getGVRFromUnstructured :: "'w deploy_env \<Rightarrow> kube_object \<Rightarrow> 'w \<Rightarrow> gerror + gvr" where
  "getGVRFromUnstructured env obj w =
     (let apiVersion = ob_APIVersion obj; kind = ob_Kind obj; parts = split_on (CHR ''/'') apiVersion
      in if apiVersion = [] then Inl (Err ''apiVersion is required'')
         else if kind = [] then Inl (Err ''kind is required'')
         else if length parts > 2 then Inl (Err ''invalid apiVersion format'')
         else (case de_discovery env of
                 None \<Rightarrow> Inl (Err ''cannot determine plural resource name: no discovery client available'')
               | Some resolve \<Rightarrow>
                   (case (if length parts = 1 then resolve [] (parts ! 0) kind w else resolve (parts ! 0) (parts ! 1) kind w) of
                      Inl e \<Rightarrow> Inl (Wrap ''cannot determine plural resource name'' e)
                    | Inr g \<Rightarrow> Inr g)))"

definition errResourceAlreadyExists :: gerror where
  "errResourceAlreadyExists = Err ''resource already exists''"

text \<open>An error of the server as a value, never the sentinel.\<close>

definition api_gerror :: "api_error \<Rightarrow> gerror" where
  "api_gerror e = Err (''the server: '' @ ae_Text e)"

definition create_attempt ::
  "'w deploy_env \<Rightarrow> gvr \<Rightarrow> string \<Rightarrow> kube_object \<Rightarrow> 'w \<Rightarrow> retry_error option \<times> 'w" where
  "create_attempt env g ns obj w =
     (case de_Create env g ns obj w of
        (None, w1) \<Rightarrow> (None, w1)
      | (Some e, w1) \<Rightarrow>
          (Some (if ae_Reason e = ReasonAlreadyExists then PermanentError errResourceAlreadyExists
                 else if IsRetryable (Some (ae_IsNetErr e, ae_Text e)) \<or>
                      ae_Reason e \<in> {ReasonServerTimeout, ReasonTooManyRequests, ReasonConflict}
                   then Plain (api_gerror e)
                 else PermanentError (api_gerror e)), w1))"

definition applyObjectToCluster ::
  "'w deploy_env \<Rightarrow> kube_object \<Rightarrow> DeployRequest \<Rightarrow> 'w \<Rightarrow> gerror option \<times> 'w" where
  "applyObjectToCluster env obj req w =
     (case getGVRFromUnstructured env obj w of
        Inl e \<Rightarrow> (Some (Wrap ''determine GVR'' e), w)
      | Inr g \<Rightarrow>
          (case Do (de_retry env) (de_retryConfig env) (create_attempt env g (scope req) obj) w of
             (err, w1) \<Rightarrow>
               if (case err of None \<Rightarrow> False | Some e \<Rightarrow> errors_is e errResourceAlreadyExists)
               then (case de_Patch env g (scope req) obj w1 of
                       (None, w2) \<Rightarrow> (None, w2)
                     | (Some e, w2) \<Rightarrow> (Some (Wrap ''patch existing'' (api_gerror e)), w2))
               else (wrap_err ''create'' err, w1)))"

definition applyToCluster :: "'w deploy_env \<Rightarrow> DeployRequest \<Rightarrow> 'w \<Rightarrow> gerror option \<times> 'w" where
  "applyToCluster env req w =
     applyObjectToCluster env (BuildUnstructured req (dp_APIVersion req) (dp_Kind req) (dp_Spec req)) req w"

definition deleteFromClusterByGVR ::
  "'w deploy_env \<Rightarrow> gvr \<Rightarrow> kube_object \<Rightarrow> DeployRequest \<Rightarrow> 'w \<Rightarrow> gerror option \<times> 'w" where
  "deleteFromClusterByGVR env g obj req w =
     (case de_Delete env g (scope req) (ob_Name obj) w of
        (None, w1) \<Rightarrow> (None, w1)
      | (Some e, w1) \<Rightarrow>
          if ae_Reason e = ReasonNotFound then (None, w1) else (Some (Wrap ''delete'' (api_gerror e)), w1))"

definition deleteFromCluster ::
  "'w deploy_env \<Rightarrow> kube_object \<Rightarrow> DeployRequest \<Rightarrow> 'w \<Rightarrow> gerror option \<times> 'w" where
  "deleteFromCluster env obj req w =
     (case getGVRFromUnstructured env obj w of
        Inl e \<Rightarrow> (Some (Wrap ''determine GVR for delete'' e), w)
      | Inr g \<Rightarrow> deleteFromClusterByGVR env g obj req w)"

subsection \<open>The repository\<close>

definition getGitHubToken :: "'w deploy_env \<Rightarrow> RepositoryConfig \<Rightarrow> 'w \<Rightarrow> gerror + string" where
  "getGitHubToken env repo w =
     (if GetSecretName repo = [] then Inl (Err ''secret name is required'')
      else (case de_GetSecret env (GetSecretNamespace repo) (GetSecretName repo) w of
              Inl e \<Rightarrow> Inl (Wrap ''failed to get secret'' e)
            | Inr data \<Rightarrow>
                (case data (GetSecretKey repo) of
                   None \<Rightarrow> Inl (Err ''secret does not contain key'')
                 | Some token \<Rightarrow> Inr token)))"

text \<open>Commit hash and path of the manifest.\<close>

definition pushToGit :: "'w deploy_env \<Rightarrow> DeployRequest \<Rightarrow> 'w \<Rightarrow> (gerror + string \<times> string) \<times> 'w" where
  "pushToGit env req w =
     (case dp_Repository req of
        None \<Rightarrow> (Inl (Err ''repository configuration is required''), w)
      | Some repo \<Rightarrow>
          (case getGitHubToken env repo w of
             Inl e \<Rightarrow> (Inl (Wrap ''failed to get GitHub token'' e), w)
           | Inr token \<Rightarrow>
               (case NewGitHubClient token (rp_Owner repo) (rp_Repo repo) of
                  Inl e \<Rightarrow> (Inl (Wrap ''failed to create GitHub client'' e), w)
                | Inr client \<Rightarrow>
                    (case GenerateManifest (de_toYAML env) (Some req) of
                       Inl e \<Rightarrow> (Inl (Wrap ''failed to generate manifest'' e), w)
                     | Inr manifestYAML \<Rightarrow>
                         (case GenerateManifestPath req (rp_BasePath repo) of
                            Inl e \<Rightarrow> (Inl (Wrap ''failed to generate manifest path'' e), w)
                          | Inr manifestPath \<Rightarrow>
                              (case CommitFile (de_github env) client
                                      \<lparr>cf_Path = manifestPath, cf_Content = manifestYAML,
                                       cf_Message = GenerateCommitMessage req,
                                       cf_Branch = GetEffectiveBranch req, cf_SHA = []\<rparr> w of
                                 (Inl e, w1) \<Rightarrow> (Inl (Wrap ''failed to commit manifest'' e), w1)
                               | (Inr sha, w1) \<Rightarrow> (Inr (sha, manifestPath), w1)))))))"

subsection \<open>\<open>Deploy\<close>\<close>

definition start_result :: "DeployRequest \<Rightarrow> DeployResult" where
  "start_result req =
     \<lparr>re_InstanceID = dp_InstanceID req, re_Name = dp_Name req, re_Namespace = dp_Namespace req,
      re_Mode = dp_DeploymentMode req, re_Status = StatusPending, re_ClusterDeployed = False, re_ClusterError = None,
      re_GitPushed = False, re_GitCommitSHA = [], re_ManifestPath = [], re_GitError = None\<rparr>"

abbreviation cluster_failed :: "gerror \<Rightarrow> DeployResult \<Rightarrow> DeployResult" where
  "cluster_failed e result \<equiv> result\<lparr>re_Status := StatusFailed, re_ClusterError := Some e\<rparr>"

abbreviation git_failed :: "gerror \<Rightarrow> DeployResult \<Rightarrow> DeployResult" where
  "git_failed e result \<equiv> result\<lparr>re_Status := StatusFailed, re_GitError := Some e\<rparr>"

definition deployDirect ::
  "'w deploy_env \<Rightarrow> DeployRequest \<Rightarrow> DeployResult \<Rightarrow> 'w \<Rightarrow> DeployResult \<times> gerror option \<times> 'w" where
  "deployDirect env req result w =
     (case applyToCluster env req w of
        (Some e, w1) \<Rightarrow> (cluster_failed e result, Some (Wrap ''failed to apply manifest to cluster'' e), w1)
      | (None, w1) \<Rightarrow> (result\<lparr>re_ClusterDeployed := True, re_Status := StatusReady\<rparr>, None, w1))"

definition deployGitOps ::
  "'w deploy_env \<Rightarrow> DeployRequest \<Rightarrow> DeployResult \<Rightarrow> 'w \<Rightarrow> DeployResult \<times> gerror option \<times> 'w" where
  "deployGitOps env req result w =
     (case dp_Repository req of
        None \<Rightarrow> (let e = Err ''repository configuration is required for GitOps deployment'' in (git_failed e result, Some e, w))
      | Some repo \<Rightarrow>
          (case repo_Validate (Some repo) of
             Some e \<Rightarrow> (git_failed e result, Some (Wrap ''invalid repository configuration'' e), w)
           | None \<Rightarrow>
               (let suspendedObj = BuildUnstructuredSuspended req (dp_APIVersion req) (dp_Kind req) (dp_Spec req)
                in case getGVRFromUnstructured env suspendedObj w of
                     Inl e \<Rightarrow> (cluster_failed e result, Some (Wrap ''failed to apply suspended manifest to cluster'' e), w)
                   | Inr suspendedGVR \<Rightarrow>
                       (case applyObjectToCluster env suspendedObj req w of
                          (Some e, w1) \<Rightarrow>
                            (cluster_failed e result, Some (Wrap ''failed to apply suspended manifest to cluster'' e), w1)
                        | (None, w1) \<Rightarrow>
                            (case pushToGit env req w1 of
                               (Inl e, w2) \<Rightarrow>
                                 (case deleteFromClusterByGVR env suspendedGVR suspendedObj req w2 of
                                    (delErr, w3) \<Rightarrow>
                                      (git_failed e (result\<lparr>re_ClusterDeployed := (delErr \<noteq> None)\<rparr>),
                                       Some (Wrap ''failed to push manifest to Git'' e), w3))
                             | (Inr (commitSHA, manifestPath), w2) \<Rightarrow>
                                 (result\<lparr>re_ClusterDeployed := True, re_GitPushed := True, re_GitCommitSHA := commitSHA,
                                    re_ManifestPath := manifestPath, re_Status := StatusPushedToGit\<rparr>, None, w2))))))"

definition deployHybrid ::
  "'w deploy_env \<Rightarrow> DeployRequest \<Rightarrow> DeployResult \<Rightarrow> 'w \<Rightarrow> DeployResult \<times> gerror option \<times> 'w" where
  "deployHybrid env req result w =
     (case applyToCluster env req w of
        (Some e, w1) \<Rightarrow> (cluster_failed e result, Some (Wrap ''failed to apply manifest to cluster'' e), w1)
      | (None, w1) \<Rightarrow>
          (let result = result\<lparr>re_ClusterDeployed := True, re_Status := StatusReady\<rparr>;
               failed = (\<lambda>e. result\<lparr>re_GitError := Some e, re_Status := StatusGitOpsFailed\<rparr>)
           in case dp_Repository req of
                None \<Rightarrow> (result, None, w1)
              | Some repo \<Rightarrow>
                  (case repo_Validate (Some repo) of
                     Some e \<Rightarrow> (failed (Wrap ''invalid repository configuration'' e), None, w1)
                   | None \<Rightarrow>
                       (case pushToGit env req w1 of
                          (Inl e, w2) \<Rightarrow> (failed e, None, w2)
                        | (Inr (commitSHA, manifestPath), w2) \<Rightarrow>
                            (result\<lparr>re_GitPushed := True, re_GitCommitSHA := commitSHA, re_ManifestPath := manifestPath\<rparr>,
                             None, w2)))))"

text \<open>An unknown mode is direct. A request is never nil here; \<open>Deploy\<close> answers nil with an error.\<close>

definition Deploy ::
  "'w deploy_env \<Rightarrow> DeployRequest option \<Rightarrow> 'w \<Rightarrow> DeployResult option \<times> gerror option \<times> 'w" where
  "Deploy env ro w =
     (case ro of
        None \<Rightarrow> (None, Some (Err ''deploy request cannot be nil''), w)
      | Some req \<Rightarrow>
          (case (if dp_DeploymentMode req = ModeDirect then deployDirect env req (start_result req) w
                 else if dp_DeploymentMode req = ModeGitOps then deployGitOps env req (start_result req) w
                 else if dp_DeploymentMode req = ModeHybrid then deployHybrid env req (start_result req) w
                 else (let req' = req\<lparr>dp_DeploymentMode := ModeDirect\<rparr>
                       in deployDirect env req' ((start_result req)\<lparr>re_Mode := ModeDirect\<rparr>) w)) of
             (result, e, w1) \<Rightarrow> (Some result, e, w1)))"

subsection \<open>\<open>Delete\<close>\<close>

definition deleteFromGit ::
  "'w deploy_env \<Rightarrow> string \<Rightarrow> string \<Rightarrow> string \<Rightarrow> string \<Rightarrow> string \<Rightarrow> bool \<Rightarrow> RepositoryConfig \<Rightarrow> 'w \<Rightarrow> gerror option \<times> 'w" where
  "deleteFromGit env namespace name kind rgdName deletedBy isClusterScoped repo w =
     (case getGitHubToken env repo w of
        Inl e \<Rightarrow> (Some (Wrap ''failed to get GitHub token'' e), w)
      | Inr token \<Rightarrow>
          (case NewGitHubClient token (rp_Owner repo) (rp_Repo repo) of
             Inl e \<Rightarrow> (Some (Wrap ''failed to create GitHub client'' e), w)
           | Inr client \<Rightarrow>
               (case ManifestPathFor name namespace kind isClusterScoped (rp_BasePath repo) of
                  Inl e \<Rightarrow> (Some (Wrap ''failed to generate manifest path for deletion'' e), w)
                | Inr manifestPath \<Rightarrow>
                    (case DeleteFile (de_github env) client manifestPath (GetBranch repo)
                            (GenerateDeleteCommitMessage (de_now env w) namespace name rgdName deletedBy isClusterScoped) w of
                       (e, w1) \<Rightarrow> (wrap_err ''failed to delete manifest from Git'' e, w1)))))"

definition Delete ::
  "'w deploy_env \<Rightarrow> string \<Rightarrow> string \<Rightarrow> string \<Rightarrow> string \<Rightarrow> string \<Rightarrow> bool \<Rightarrow> RepositoryConfig option \<Rightarrow> string \<Rightarrow> 'w \<Rightarrow>
   gerror option \<times> 'w" where
  "Delete env namespace name kind rgdName deletedBy isClusterScoped ro mode w =
     (if mode = ModeGitOps
      then (case ro of
              None \<Rightarrow> (Some (Err ''repository configuration is required for GitOps deletion''), w)
            | Some repo \<Rightarrow> deleteFromGit env namespace name kind rgdName deletedBy isClusterScoped repo w)
      else if mode = ModeHybrid
      then (case ro of
              None \<Rightarrow> (None, w)
            | Some repo \<Rightarrow> (None, snd (deleteFromGit env namespace name kind rgdName deletedBy isClusterScoped repo w)))
      else (None, w))"

subsection \<open>What the servers promise\<close>

text \<open>
  A merge patch: the fields of the patch replace those of the object, a null removes one, and maps are
  merged field by field.
\<close>

fun merge_json :: "json \<Rightarrow> json \<Rightarrow> json" and merge_fields :: "(string \<times> json) list \<Rightarrow> (string \<times> json) list \<Rightarrow> (string \<times> json) list" where
  "merge_json old (JObj kvs) = JObj (merge_fields (case old of JObj o' \<Rightarrow> o' | _ \<Rightarrow> []) kvs)"
| "merge_json old v = v"
| "merge_fields fs [] = fs"
| "merge_fields fs ((k, v) # kvs) =
     merge_fields
       (let rest = filter (\<lambda>(k', _). k' \<noteq> k) fs
        in if v = JNull then rest
           else (k, merge_json (case map_of fs k of None \<Rightarrow> JNull | Some v' \<Rightarrow> v') v) # rest) kvs"

definition merge_object :: "kube_object \<Rightarrow> kube_object \<Rightarrow> kube_object" where
  "merge_object old patch =
     patch\<lparr>ob_Labels := ob_Labels old ++ ob_Labels patch, ob_Annotations := ob_Annotations old ++ ob_Annotations patch,
           ob_Spec := merge_json (ob_Spec old) (ob_Spec patch)\<rparr>"

text \<open>
  Objects are those not marked for deletion, by resource, namespace and name. A request that fails, or
  whose answer is lost, may have been carried out, except where the reason excludes it.
\<close>

type_synonym object_key = "gvr \<times> string \<times> string"

locale deploy_world =
  github_server "de_github env" files objs
  for env :: "'w deploy_env" and files :: "'w \<Rightarrow> git_file \<rightharpoonup> string \<times> string" and objs :: "'w \<Rightarrow> object_key \<rightharpoonup> kube_object" +
  assumes Create: "de_Create env g ns obj w = (r, w') \<Longrightarrow> files w' = files w \<and>
      (r = None \<longrightarrow> objs w (g, ns, ob_Name obj) = None \<and> objs w' = (objs w)((g, ns, ob_Name obj) \<mapsto> obj)) \<and>
      (\<forall>e. r = Some e \<longrightarrow>
         objs w' = objs w \<and> (ae_Reason e = ReasonAlreadyExists \<longrightarrow> objs w (g, ns, ob_Name obj) \<noteq> None) \<or>
         ae_Reason e \<noteq> ReasonAlreadyExists \<and> objs w (g, ns, ob_Name obj) = None \<and>
           objs w' = (objs w)((g, ns, ob_Name obj) \<mapsto> obj))"
    and Patch: "de_Patch env g ns obj w = (r, w') \<Longrightarrow> files w' = files w \<and>
      (objs w' = objs w \<and> r \<noteq> None \<or>
       (\<exists>old. objs w (g, ns, ob_Name obj) = Some old \<and> objs w' = (objs w)((g, ns, ob_Name obj) \<mapsto> merge_object old obj)))"
    and Remove: "de_Delete env g ns name w = (r, w') \<Longrightarrow> files w' = files w \<and>
      (objs w' = objs w \<and> (\<exists>e. r = Some e \<and> (ae_Reason e = ReasonNotFound \<longrightarrow> objs w (g, ns, name) = None)) \<or>
       objs w' = (objs w)((g, ns, name) := None))"
    and retry_frame: "objs (snd (re_rand (de_retry env) w)) = objs w" "files (snd (re_rand (de_retry env) w)) = files w"
      "objs (snd (re_wait (de_retry env) d w)) = objs w" "files (snd (re_wait (de_retry env) d w)) = files w"

lemma Do_result:
  assumes "\<And>w. I w \<Longrightarrow> I (snd (fn w))" "\<And>w. I w \<Longrightarrow> I (snd (re_rand renv w))" "\<And>d w. I w \<Longrightarrow> I (snd (re_wait renv d w))"
    and "I w" "Do renv conf fn w = (r, w')"
  shows "I w' \<and> (r = None \<longrightarrow> (\<exists>w0. I w0 \<and> fn w0 = (None, w')))"
proof -
  let ?f = "\<lambda>w. case fn w of (None, w1) \<Rightarrow> (Inr (), w1) | (Some e, w1) \<Rightarrow> (Inl e, w1)"
  obtain x v where d: "retry_loop renv conf (re_now renv w) ?f (attempts conf) 0 None w = (x, v)" by fastforce
  have "I (snd (?f u))" if "I u" for u using assms(1) [OF that] by (auto split: prod.splits option.splits)
  then have K: "I v \<and> (\<forall>a. x = Inr a \<longrightarrow> (\<exists>w0. I w0 \<and> ?f w0 = (Inr a, v)))"
    using retry_loop_keeps [where I = I and fn = ?f, OF _ assms(2,3,4) d] by blast
  have "w' = v" "r = None \<Longrightarrow> x = Inr ()"
    using assms(5) d by (auto simp: Do_def DoWithResult_def split: sum.splits)
  moreover have "fn w0 = (None, v)" if "?f w0 = (Inr (), v)" for w0
    using that by (cases "fn w0") (auto split: option.splits)
  ultimately show ?thesis using K by blast
qed

text \<open>What \<open>applyObjectToCluster\<close> leaves: the object, new or merged into the one that was there.\<close>

definition applied :: "kube_object \<Rightarrow> kube_object option \<Rightarrow> kube_object \<Rightarrow> bool" where
  "applied obj before after \<longleftrightarrow> (case before of None \<Rightarrow> after = obj \<or> after = merge_object obj obj | Some old \<Rightarrow> after = merge_object old obj)"

context deploy_world begin

lemma create_loop:
  assumes "Do (de_retry env) conf (create_attempt env g ns obj) w = (r, w')"
  defines "k \<equiv> (g, ns, ob_Name obj)"
  shows "files w' = files w \<and> (objs w' = objs w \<or> objs w k = None \<and> objs w' = (objs w)(k \<mapsto> obj)) \<and>
    (r = None \<longrightarrow> objs w k = None \<and> objs w' = (objs w)(k \<mapsto> obj))"
proof -
  define I where "I = (\<lambda>u. files u = files w \<and> (objs u = objs w \<or> objs w k = None \<and> objs u = (objs w)(k \<mapsto> obj)))"
  have step: "I v \<and> (x = None \<longrightarrow> objs w k = None \<and> objs v = (objs w)(k \<mapsto> obj))"
    if "I u" "create_attempt env g ns obj u = (x, v)" for u x v
  proof -
    obtain y v' where c: "de_Create env g ns obj u = (y, v')" by fastforce
    then have v: "v' = v" "x = None \<longleftrightarrow> y = None" using that(2) by (auto simp: create_attempt_def split: option.splits)
    show ?thesis using Create [OF c] that(1) v unfolding I_def k_def by (cases y) auto
  qed
  have "I w' \<and> (r = None \<longrightarrow> (\<exists>w0. I w0 \<and> create_attempt env g ns obj w0 = (None, w')))"
  proof (rule Do_result [OF _ _ _ _ assms(1)])
    show "I (snd (create_attempt env g ns obj u))" if "I u" for u using step [OF that] by (metis prod.collapse)
  qed (simp_all add: I_def retry_frame)
  then show ?thesis using step unfolding I_def by blast
qed

lemma apply_effect:
  assumes "applyObjectToCluster env obj req w = (r, w')"
  shows "files w' = files w \<and>
    (objs w' = objs w \<and> r \<noteq> None \<or>
     (\<exists>g after. getGVRFromUnstructured env obj w = Inr g \<and> applied obj (objs w (g, scope req, ob_Name obj)) after \<and>
        objs w' = (objs w)((g, scope req, ob_Name obj) \<mapsto> after)))"
proof (cases "getGVRFromUnstructured env obj w")
  case (Inl e)
  then show ?thesis using assms by (auto simp: applyObjectToCluster_def)
next
  case (Inr g)
  obtain e w1 where d: "Do (de_retry env) (de_retryConfig env) (create_attempt env g (scope req) obj) w = (e, w1)" by fastforce
  note L = create_loop [OF d]
  show ?thesis
  proof (cases "\<exists>x. e = Some x \<and> errors_is x errResourceAlreadyExists")
    case False
    then have "r = wrap_err ''create'' e" "w' = w1"
      using assms Inr d by (auto simp: applyObjectToCluster_def split: option.splits if_splits)
    then show ?thesis using L Inr by (auto simp: applied_def)
  next
    case True
    obtain y w2 where p: "de_Patch env g (scope req) obj w1 = (y, w2)" by fastforce
    have "w' = w2" "r = None \<longleftrightarrow> y = None"
      using assms Inr d True p by (auto simp: applyObjectToCluster_def split: option.splits)
    then have w': "w' = w2" and r: "r = None \<longleftrightarrow> y = None" by simp_all
    define k where "k = (g, scope req, ob_Name obj)"
    have files: "files w' = files w" using Patch [OF p] L w' by simp
    consider (keep) "objs w1 = objs w" | (new) "objs w k = None" "objs w1 = (objs w)(k \<mapsto> obj)"
      using L unfolding k_def [symmetric] by (elim conjE disjE) simp_all
    then have "objs w' = objs w \<and> r \<noteq> None \<or> (\<exists>after. applied obj (objs w k) after \<and> objs w' = (objs w)(k \<mapsto> after))"
    proof cases
      case keep
      then show ?thesis using Patch [OF p] w' r unfolding k_def [symmetric] applied_def by auto
    next
      case new
      have "objs w' = objs w1 \<or> objs w' = (objs w1)(k \<mapsto> merge_object obj obj)"
        using Patch [OF p] w' new(2) unfolding k_def [symmetric] by auto
      then show ?thesis using new unfolding applied_def by auto
    qed
    then show ?thesis using files Inr unfolding k_def by blast
  qed
qed

end

lemma repo_valid:
  assumes "repo_Validate (Some repo) = None"
  shows "list_all path_char (rp_Owner repo)" "list_all path_char (rp_Repo repo)" "ValidateBasePath (rp_BasePath repo) = None"
proof -
  have owner: "githubOwnerRegex (rp_Owner repo)"
    by (rule ccontr) (use assms in \<open>simp add: repo_Validate_def split: if_split_asm\<close>)
  have name: "githubRepoRegex (rp_Repo repo)"
    by (rule ccontr) (use assms in \<open>simp add: repo_Validate_def split: if_split_asm\<close>)
  have "wrap_err ''invalid base path'' (if rp_BasePath repo \<noteq> [] then ValidateBasePath (rp_BasePath repo) else None) = None"
    by (rule ccontr) (use assms in \<open>simp add: repo_Validate_def split: if_split_asm\<close>)
  moreover have "ValidateBasePath [] = None" by (simp add: ValidateBasePath_def)
  ultimately show "ValidateBasePath (rp_BasePath repo) = None" by (cases "rp_BasePath repo = []") simp_all
  show "list_all path_char (rp_Owner repo)" using owner alnum_path
    by (auto simp: githubOwnerRegex_def edged_def list_all_iff path_char_def)
  show "list_all path_char (rp_Repo repo)" using name by (simp add: githubRepoRegex_def)
qed

lemma join_on_chars: "\<forall>e \<in> set es. list_all P e \<Longrightarrow> P c \<Longrightarrow> list_all P (join_on [c] es)"
proof (induction es)
  case (Cons e es)
  then show ?case by (cases "es = []") (simp_all add: join_on_Cons)
qed simp

lemma manifest_path_safe:
  assumes "ValidateBasePath basePath = None" "ManifestPathFor name ns kind cs basePath = Inr p"
  shows "url_safe p"
proof -
  obtain n x k where r: "PathComponent name = Inr n" "scope_elem cs ns = Inr x"
      "PathComponent (if cs then to_lower kind else kind) = Inr k"
      and p: "p = join_on ''/'' (manifest_elems basePath x k n)"
    using assms(2) unfolding ManifestPathFor_elems [OF assms(1)] by blast
  note c = scope_clean [OF r(2)] PathComponent_clean [OF r(3)] PathComponent_clean [OF r(1)]
  note b = effective_base_valid [OF assms(1), THEN conjunct1] effective_base_valid [OF assms(1), THEN conjunct2]
  have "list_all key_char (effective_base basePath)"
    using b alnum_path by (auto simp: ValidateBasePath_def basePathRegex_def edged_def list_all_iff key_char_def path_char_def split: if_splits)
  then have be: "list_all key_char e" if "e \<in> set (base_elems (effective_base basePath))" for e
  proof -
    have "sublist e (effective_base basePath)"
      using that sublist_join_on [of e "split_on (CHR ''/'') (effective_base basePath)" "''/''"] by (simp add: base_elems_def)
    then have "set e \<subseteq> set (effective_base basePath)" by (rule set_mono_sublist)
    then show ?thesis using \<open>list_all key_char (effective_base basePath)\<close> by (auto simp: list_all_iff)
  qed
  have "list_all key_char x" "list_all key_char k" "list_all key_char n" "list_all key_char ''.yaml''"
    using c by (auto simp: clean_component_def list_all_iff key_char_def path_char_def alnum_def is_lower_def)
  then have "\<forall>e \<in> set (manifest_elems basePath x k n). list_all key_char e"
    using be by (auto simp: manifest_elems_def path_elems_def)
  then have "list_all key_char p" unfolding p by (rule join_on_chars) (simp add: key_char_def)
  moreover have "p \<noteq> []"
    using sublist_join_on [of "n @ ''.yaml''" "manifest_elems basePath x k n" "''/''"]
    unfolding p by (auto simp: manifest_elems_def path_elems_def)
  ultimately show ?thesis by (simp add: url_safe_def)
qed

text \<open>The file of a request in its repository.\<close>

definition manifest_file :: "DeployRequest \<Rightarrow> RepositoryConfig \<Rightarrow> string \<Rightarrow> git_file" where
  "manifest_file req repo p = (rp_Owner repo, rp_Repo repo, GetEffectiveBranch req, p)"

definition pushed :: "(kube_object \<Rightarrow> gerror + string) \<Rightarrow> DeployRequest \<Rightarrow> RepositoryConfig \<Rightarrow>
    (git_file \<rightharpoonup> string \<times> string) \<Rightarrow> (git_file \<rightharpoonup> string \<times> string) \<Rightarrow> string \<Rightarrow> bool" where
  "pushed toYAML req repo fs fs' p \<longleftrightarrow>
     GenerateManifestPath req (rp_BasePath repo) = Inr p \<and>
     (\<forall>c s. fs (manifest_file req repo p) = Some (c, s) \<longrightarrow> s = []) \<and>
     (\<exists>m sha. GenerateManifest toYAML (Some req) = Inr m \<and> fs' = fs(manifest_file req repo p \<mapsto> (m, sha)))"

text \<open>Where the object of a request may be, and which files its push may touch.\<close>

definition own_object :: "DeployRequest \<Rightarrow> object_key \<Rightarrow> bool" where
  "own_object req k \<longleftrightarrow> fst (snd k) = scope req \<and> snd (snd k) = dp_Name req"

definition own_file :: "DeployRequest \<Rightarrow> git_file \<Rightarrow> bool" where
  "own_file req f \<longleftrightarrow>
     (\<exists>repo p. dp_Repository req = Some repo \<and> GenerateManifestPath req (rp_BasePath repo) = Inr p \<and> f = manifest_file req repo p)"

context deploy_world begin

lemma push_effect:
  assumes repo: "dp_Repository req = Some repo" "repo_Validate (Some repo) = None" and b: "url_safe (GetEffectiveBranch req)"
    and run: "pushToGit env req w = (r, w')"
  shows "objs w' = objs w \<and> (files w' = files w \<and> isl r \<or>
    (\<exists>p. pushed (de_toYAML env) req repo (files w) (files w') p \<and> (\<forall>x. r = Inr x \<longrightarrow> snd x = p)))"
proof (cases "\<exists>token client m p. getGitHubToken env repo w = Inr token \<and> NewGitHubClient token (rp_Owner repo) (rp_Repo repo) = Inr client \<and>
    GenerateManifest (de_toYAML env) (Some req) = Inr m \<and> GenerateManifestPath req (rp_BasePath repo) = Inr p")
  case False
  then show ?thesis using run repo(1) by (auto simp: pushToGit_def split: sum.splits)
next
  case True
  then obtain token client m p where s: "getGitHubToken env repo w = Inr token" "NewGitHubClient token (rp_Owner repo) (rp_Repo repo) = Inr client"
      "GenerateManifest (de_toYAML env) (Some req) = Inr m" "GenerateManifestPath req (rp_BasePath repo) = Inr p" by blast
  let ?q = "\<lparr>cf_Path = p, cf_Content = m, cf_Message = GenerateCommitMessage req, cf_Branch = GetEffectiveBranch req, cf_SHA = []\<rparr>"
  obtain x w1 where c: "CommitFile (de_github env) client ?q w = (x, w1)" by fastforce
  have w: "w' = w1" "isl r \<longleftrightarrow> isl x" "\<forall>y. r = Inr y \<longrightarrow> snd y = p"
    using run repo(1) s c by (auto simp: pushToGit_def split: sum.splits)
  have gc: "gc_owner client = rp_Owner repo" "gc_repo client = rp_Repo repo" "github_client client"
    using s(2) repo_valid [OF repo(2)] by (auto simp: NewGitHubClient_def github_client_def split: if_splits)
  have ps: "url_safe p" using manifest_path_safe [OF repo_valid(3) [OF repo(2)]] s(4) by (simp add: GenerateManifestPath_def)
  show ?thesis
    using commit_effect [OF gc(3) _ _ c] ps b w gc(1,2) s(3,4)
    by (auto simp: pushed_def manifest_file_def put_allowed_def split: option.splits)
qed

lemma remove_effect:
  assumes "deleteFromClusterByGVR env g obj req w = (r, w')"
  shows "files w' = files w \<and> (objs w' = objs w \<and> r \<noteq> None \<or> objs w' = (objs w)((g, scope req, ob_Name obj) := None))"
proof -
  obtain x w1 where d: "de_Delete env g (scope req) (ob_Name obj) w = (x, w1)" by fastforce
  have *: "objs w1 = objs w \<Longrightarrow> objs w k = None \<Longrightarrow> objs w1 = (objs w)(k := None)" for k by (auto simp: fun_upd_idem_iff)
  have "w' = w1" "r = None \<longleftrightarrow> x = None \<or> (\<exists>e. x = Some e \<and> ae_Reason e = ReasonNotFound)"
    using assms d by (auto simp: deleteFromClusterByGVR_def split: option.splits if_splits)
  then show ?thesis using Remove [OF d] * by auto
qed

definition confined :: "DeployRequest \<Rightarrow> 'w \<Rightarrow> 'w \<Rightarrow> bool" where
  "confined req w w' \<longleftrightarrow>
     (\<forall>k. objs w' k \<noteq> objs w k \<longrightarrow> own_object req k) \<and> (\<forall>f. files w' f \<noteq> files w f \<longrightarrow> own_file req f)"

lemma confined_trans: "confined req u v \<Longrightarrow> confined req v w \<Longrightarrow> confined req u w"
  unfolding confined_def by metis

lemma apply_confined: "applyObjectToCluster env obj req w = (r, w') \<Longrightarrow> ob_Name obj = dp_Name req \<Longrightarrow> confined req w w'"
  using apply_effect by (fastforce simp: confined_def own_object_def)

lemma remove_confined: "deleteFromClusterByGVR env g obj req w = (r, w') \<Longrightarrow> ob_Name obj = dp_Name req \<Longrightarrow> confined req w w'"
  using remove_effect by (fastforce simp: confined_def own_object_def)

lemma push_confined:
  assumes "dp_Repository req = Some repo" "repo_Validate (Some repo) = None" "url_safe (GetEffectiveBranch req)"
    and "pushToGit env req w = (r, w')"
  shows "confined req w w'"
proof -
  have "own_file req f" if "pushed (de_toYAML env) req repo (files w) (files w') p" "files w' f \<noteq> files w f" for f p
    using that assms(1) by (auto simp: own_file_def pushed_def split: if_splits)
  then show ?thesis using push_effect [OF assms] unfolding confined_def by auto
qed

lemma object_names [simp]:
  "ob_Name (BuildUnstructured req a k s) = dp_Name req" "ob_Name (BuildUnstructuredSuspended req a k s) = dp_Name req"
  "ob_Labels (BuildUnstructuredSuspended req a k s) = Labels req" "ob_Labels (BuildUnstructured req a k s) = Labels req"
  by (simp_all add: BuildUnstructured_def BuildUnstructuredSuspended_def Let_def)

text \<open>The three ways to deploy, each with what it leaves.\<close>

definition present :: "DeployRequest \<Rightarrow> 'w \<Rightarrow> bool" where
  "present req w \<longleftrightarrow> (\<exists>k obj. own_object req k \<and> objs w k = Some obj \<and> Labels req \<subseteq>\<^sub>m ob_Labels obj)"

lemma applied_labels: "applied obj before after \<Longrightarrow> ob_Labels obj \<subseteq>\<^sub>m ob_Labels after"
  by (auto simp: applied_def merge_object_def split: option.splits)

lemma apply_present:
  assumes "applyObjectToCluster env obj req w = (None, w')" "ob_Name obj = dp_Name req" "ob_Labels obj = Labels req"
  shows "present req w'"
proof -
  obtain g after where "applied obj (objs w (g, scope req, ob_Name obj)) after"
      "objs w' = (objs w)((g, scope req, ob_Name obj) \<mapsto> after)"
    using apply_effect [OF assms(1)] by blast
  moreover from this have "Labels req \<subseteq>\<^sub>m ob_Labels after" using applied_labels assms(3) by fastforce
  ultimately show ?thesis using assms(2) unfolding present_def own_object_def
    by (intro exI [of _ "(g, scope req, dp_Name req)"] exI [of _ after]) auto
qed

definition in_git :: "DeployRequest \<Rightarrow> string \<Rightarrow> 'w \<Rightarrow> bool" where
  "in_git req p w \<longleftrightarrow> (\<exists>repo m sha. dp_Repository req = Some repo \<and> GenerateManifest (de_toYAML env) (Some req) = Inr m \<and>
     GenerateManifestPath req (rp_BasePath repo) = Inr p \<and> files w (manifest_file req repo p) = Some (m, sha))"

definition outcome_ok :: "DeployRequest \<Rightarrow> 'w \<Rightarrow> DeployResult \<times> gerror option \<times> 'w \<Rightarrow> bool" where
  "outcome_ok req w out \<longleftrightarrow>
     (case out of (res, err, w') \<Rightarrow>
        confined req w w' \<and>
        (err = None \<longrightarrow> re_ClusterDeployed res \<and> present req w' \<and> re_Status res \<in> {StatusReady, StatusPushedToGit, StatusGitOpsFailed}) \<and>
        (err \<noteq> None \<longrightarrow> re_Status res = StatusFailed \<and> \<not> re_GitPushed res) \<and>
        (re_GitPushed res \<longrightarrow> in_git req (re_ManifestPath res) w'))"

lemma direct_ok:
  assumes "deployDirect env req res0 w = out" "\<not> re_GitPushed res0"
  shows "outcome_ok req w out"
proof -
  obtain e w1 where a: "applyToCluster env req w = (e, w1)" by fastforce
  note a' = a [unfolded applyToCluster_def]
  show ?thesis
    using assms a apply_confined [OF a'] apply_present [of _ req w w1] a'
    by (cases e) (auto simp: outcome_ok_def deployDirect_def)
qed

lemma push_in_git:
  assumes "dp_Repository req = Some repo" "repo_Validate (Some repo) = None" "url_safe (GetEffectiveBranch req)"
    and "pushToGit env req w = (Inr (sha, p), w')"
  shows "in_git req p w' \<and> objs w' = objs w"
  using push_effect [OF assms] assms(1) by (auto simp: in_git_def pushed_def)

lemma present_cong: "objs w' = objs w \<Longrightarrow> present req w \<Longrightarrow> present req w'"
  by (simp add: present_def)

lemma hybrid_ok:
  assumes "deployHybrid env req res0 w = out" "\<not> re_GitPushed res0" "url_safe (GetEffectiveBranch req)"
  shows "outcome_ok req w out"
proof -
  obtain e w1 where a: "applyToCluster env req w = (e, w1)" by fastforce
  note a' = a [unfolded applyToCluster_def]
  note ac = apply_confined [OF a' object_names(1)]
  show ?thesis
  proof (cases e)
    case (Some x)
    then show ?thesis using assms(1,2) a ac by (auto simp: outcome_ok_def deployHybrid_def)
  next
    case None
    have pr: "present req w1" using apply_present a' None by simp
    show ?thesis
    proof (cases "\<exists>repo. dp_Repository req = Some repo \<and> repo_Validate (Some repo) = None")
      case False
      then show ?thesis using assms(1,2) a None ac pr
        by (cases "dp_Repository req") (auto simp: outcome_ok_def deployHybrid_def Let_def)
    next
      case True
      then obtain repo where r: "dp_Repository req = Some repo" "repo_Validate (Some repo) = None" by blast
      obtain x w2 where p: "pushToGit env req w1 = (x, w2)" by fastforce
      have pc: "confined req w w2" using confined_trans [OF ac push_confined [OF r assms(3) p]] .
      have pp: "present req w2" using present_cong [OF _ pr] push_effect [OF r assms(3) p] by blast
      show ?thesis using assms(1,2) a None r p pc pp push_in_git [OF r assms(3), of w1]
        by (cases x) (auto simp: outcome_ok_def deployHybrid_def Let_def)
    qed
  qed
qed

lemma gitops_ok:
  assumes "deployGitOps env req res0 w = out" "\<not> re_GitPushed res0" "url_safe (GetEffectiveBranch req)"
  shows "outcome_ok req w out"
proof (cases "\<exists>repo g. dp_Repository req = Some repo \<and> repo_Validate (Some repo) = None \<and>
    getGVRFromUnstructured env (BuildUnstructuredSuspended req (dp_APIVersion req) (dp_Kind req) (dp_Spec req)) w = Inr g")
  case False
  have "confined req w w" by (simp add: confined_def)
  then show ?thesis using False assms(1,2)
    by (auto simp: outcome_ok_def deployGitOps_def Let_def split: option.splits sum.splits)
next
  case True
  let ?o = "BuildUnstructuredSuspended req (dp_APIVersion req) (dp_Kind req) (dp_Spec req)"
  obtain repo g where r: "dp_Repository req = Some repo" "repo_Validate (Some repo) = None"
      and g: "getGVRFromUnstructured env ?o w = Inr g" using True by blast
  obtain e w1 where a: "applyObjectToCluster env ?o req w = (e, w1)" by fastforce
  note ac = apply_confined [OF a object_names(2)]
  show ?thesis
  proof (cases e)
    case (Some x)
    then show ?thesis using assms(1,2) a r g ac by (auto simp: outcome_ok_def deployGitOps_def Let_def)
  next
    case None
    have pr: "present req w1" using apply_present a None by simp
    obtain x w2 where p: "pushToGit env req w1 = (x, w2)" by fastforce
    note pc = confined_trans [OF ac push_confined [OF r assms(3) p]]
    show ?thesis
    proof (cases x)
      case (Inl e')
      obtain d w3 where d: "deleteFromClusterByGVR env g ?o req w2 = (d, w3)" by fastforce
      note dc = confined_trans [OF pc remove_confined [OF d object_names(2)]]
      show ?thesis using assms(1,2) a None r g p Inl d dc by (auto simp: outcome_ok_def deployGitOps_def Let_def)
    next
      case (Inr y)
      have "present req w2" using present_cong [OF _ pr] push_effect [OF r assms(3) p] by blast
      then show ?thesis using assms(1,2) a None r g p Inr pc push_in_git [OF r assms(3), of w1 "fst y" "snd y"]
        by (cases y) (auto simp: outcome_ok_def deployGitOps_def Let_def)
    qed
  qed
qed

end

context deploy_world begin

lemma no_second_push:
  assumes "dp_Repository req = Some repo" "repo_Validate (Some repo) = None" "url_safe (GetEffectiveBranch req)"
    and "GenerateManifestPath req (rp_BasePath repo) = Inr p" "files w (manifest_file req repo p) = Some (c, sha)" "sha \<noteq> []"
    and "pushToGit env req w = (r, w')"
  shows "isl r \<and> files w' = files w \<and> objs w' = objs w"
  using push_effect [OF assms(1,2,3,7)] assms(4-6) by (auto simp: pushed_def)

lemma gitops_again:
  assumes there: "dp_Repository req = Some repo" "url_safe (GetEffectiveBranch req)"
    "GenerateManifestPath req (rp_BasePath repo) = Inr p" "files w (manifest_file req repo p) = Some (c, sha)" "sha \<noteq> []"
    and run: "deployGitOps env req res0 w = (res, err, w')" "re_ClusterError res0 = None"
  shows "err \<noteq> None \<and> files w' = files w \<and>
    (repo_Validate (Some repo) = None \<and> re_ClusterError res = None \<and> \<not> re_ClusterDeployed res \<longrightarrow>
      (\<exists>g. getGVRFromUnstructured env (BuildUnstructuredSuspended req (dp_APIVersion req) (dp_Kind req) (dp_Spec req)) w = Inr g \<and>
        objs w' (g, scope req, dp_Name req) = None))"
proof (cases "repo_Validate (Some repo)")
  case (Some e)
  then show ?thesis using there(1) run by (auto simp: deployGitOps_def)
next
  case None
  let ?o = "BuildUnstructuredSuspended req (dp_APIVersion req) (dp_Kind req) (dp_Spec req)"
  show ?thesis
  proof (cases "getGVRFromUnstructured env ?o w")
    case (Inl e)
    then show ?thesis using there(1) None run by (auto simp: deployGitOps_def)
  next
    case (Inr g)
    obtain e w1 where a: "applyObjectToCluster env ?o req w = (e, w1)" by fastforce
    have f1: "files w1 = files w" using apply_effect [OF a] by blast
    show ?thesis
    proof (cases e)
      case (Some x)
      then show ?thesis using there(1) None Inr a f1 run by (auto simp: deployGitOps_def Let_def)
    next
      case e: None
      obtain x w2 where p: "pushToGit env req w1 = (x, w2)" by fastforce
      have n: "isl x" "files w2 = files w" using no_second_push [OF there(1) None there(2,3) _ there(5) p] there(4) f1 by auto
      obtain d w3 where d: "deleteFromClusterByGVR env g ?o req w2 = (d, w3)" by fastforce
      have r: "files w3 = files w" "d = None \<Longrightarrow> objs w3 (g, scope req, dp_Name req) = None"
        using remove_effect [OF d] n(2) by auto
      show ?thesis using there(1) None Inr a e p n(1) d r run by (cases x) (auto simp: deployGitOps_def Let_def)
    qed
  qed
qed

end

subsection \<open>An in-memory world\<close>

type_synonym mem_world = "(object_key \<rightharpoonup> kube_object) gh_mem"

definition mem_error :: "api_reason \<Rightarrow> api_error option" where
  "mem_error r = Some \<lparr>ae_Reason = r, ae_IsNetErr = False, ae_Text = ''refused''\<rparr>"

definition mem_env :: "mem_world deploy_env" where
  "mem_env =
     \<lparr>de_discovery = Some (\<lambda>g v k w. Inr \<lparr>gvr_Group = g, gvr_Version = v, gvr_Resource = to_lower k @ ''s''\<rparr>),
      de_Create = (\<lambda>g ns obj w. if gm_other w (g, ns, ob_Name obj) \<noteq> None then (mem_error ReasonAlreadyExists, w)
        else (None, w\<lparr>gm_other := (gm_other w)((g, ns, ob_Name obj) \<mapsto> obj)\<rparr>)),
      de_Patch = (\<lambda>g ns obj w. case gm_other w (g, ns, ob_Name obj) of None \<Rightarrow> (mem_error ReasonNotFound, w)
        | Some old \<Rightarrow> (None, w\<lparr>gm_other := (gm_other w)((g, ns, ob_Name obj) \<mapsto> merge_object old obj)\<rparr>)),
      de_Delete = (\<lambda>g ns name w. case gm_other w (g, ns, name) of None \<Rightarrow> (mem_error ReasonNotFound, w)
        | Some old \<Rightarrow> (None, w\<lparr>gm_other := (gm_other w)((g, ns, name) := None)\<rparr>)),
      de_GetSecret = (\<lambda>ns name w. Inr [''token'' \<mapsto> ''t'']), de_toYAML = (\<lambda>obj. Inr (ob_Name obj)),
      de_now = (\<lambda>w. ''now''), de_retry = quiet_env, de_retryConfig = controllerRetryConfig, de_github = gh_mem_api\<rparr>"

interpretation mem_world: deploy_world mem_env gm_files gm_other
proof -
  have "github_server (de_github mem_env) gm_files gm_other" by (simp add: mem_env_def gh_mem.github_server_axioms)
  then show "deploy_world mem_env gm_files gm_other"
    by (rule deploy_world.intro, unfold_locales)
      (auto simp: mem_env_def mem_error_def quiet_env_def split: if_splits option.splits)
qed

definition demo_repo :: RepositoryConfig where
  "demo_repo =
     \<lparr>rp_ID = ''r1'', rp_Name = ''infra'', rp_ProjectID = ''alpha'', rp_Provider = ''github'', rp_BaseURL = [],
      rp_Owner = ''acme'', rp_Repo = ''infra'', rp_Branch = ''main'', rp_DefaultBranch = ''main'', rp_BasePath = ''manifests'',
      rp_SecretRef = \<lparr>sr_Name = ''git'', sr_Namespace = ''knodex'', sr_Key = ''token''\<rparr>, rp_SecretName = [],
      rp_SecretNamespace = [], rp_SecretKey = [], rp_CreatedAt = [], rp_UpdatedAt = []\<rparr>"

definition demo_request :: "string \<Rightarrow> DeployRequest" where
  "demo_request sz =
     \<lparr>dp_InstanceID = ''i1'', dp_Name = ''db'', dp_Namespace = ''team-a'', dp_RGDName = ''postgres'', dp_RGDNamespace = ''kro'',
      dp_APIVersion = ''kro.run/v1alpha1'', dp_Kind = ''Postgres'', dp_Spec = JObj [(''size'', JStr sz)],
      dp_IsClusterScoped = False, dp_DeploymentMode = ModeGitOps, dp_ProjectID = ''alpha'', dp_ClusterRef = [],
      dp_Repository = Some demo_repo, dp_GitBranch = [], dp_GitPath = [], dp_CreatedBy = ''dev@acme'', dp_CreatedAt = ''t''\<rparr>"

definition demo_empty :: mem_world where
  "demo_empty = \<lparr>gm_files = Map.empty, gm_other = Map.empty\<rparr>"

definition demo_deployed :: mem_world where
  "demo_deployed = snd (snd (Deploy mem_env (Some (demo_request ''S'')) demo_empty))"

definition demo_key :: object_key where
  "demo_key = (\<lparr>gvr_Group = ''kro.run'', gvr_Version = ''v1alpha1'', gvr_Resource = ''postgress''\<rparr>, ''team-a'', ''db'')"

lemma demo_safe: "url_safe (GetEffectiveBranch (demo_request sz))"
  unfolding demo_request_def demo_repo_def by code_simp

lemma demo_deployed_facts:
  "gm_other demo_deployed demo_key \<noteq> None"
  "gm_files demo_deployed (''acme'', ''infra'', ''main'', ''manifests/team-a/Postgres/db.yaml'') \<noteq> None"
  by code_simp+


lemma demo_first:
  "case Deploy mem_env (Some (demo_request ''S'')) demo_empty of
     (Some res, err, w') \<Rightarrow> err = None \<and> re_Status res = StatusPushedToGit \<and> re_GitPushed res | _ \<Rightarrow> False"
  by code_simp

lemma demo_second:
  "case Deploy mem_env (Some (demo_request ''L'')) demo_deployed of
     (Some res, err, w') \<Rightarrow> re_ClusterError res = None \<and> \<not> re_ClusterDeployed res | _ \<Rightarrow> False"
  by code_simp

lemma demo_manifest:
  "GenerateManifestPath (demo_request sz) (rp_BasePath demo_repo) = Inr ''manifests/team-a/Postgres/db.yaml''"
  "manifest_file (demo_request sz) demo_repo p = (''acme'', ''infra'', ''main'', p)"
  "repo_Validate (Some demo_repo) = None" "dp_Repository (demo_request sz) = Some demo_repo"
  "dp_DeploymentMode (demo_request sz) = ModeGitOps" "scope (demo_request sz) = ''team-a''" "dp_Name (demo_request sz) = ''db''"
proof -
  show "GenerateManifestPath (demo_request sz) (rp_BasePath demo_repo) = Inr ''manifests/team-a/Postgres/db.yaml''"
    unfolding demo_request_def by code_simp
  show "repo_Validate (Some demo_repo) = None" by code_simp
qed (simp_all add: manifest_file_def demo_request_def demo_repo_def scope_def GetEffectiveBranch_def GetBranch_def)

lemma demo_gvr:
  "getGVRFromUnstructured mem_env (BuildUnstructuredSuspended (demo_request ''L'') (dp_APIVersion (demo_request ''L''))
     (dp_Kind (demo_request ''L'')) (dp_Spec (demo_request ''L''))) demo_deployed = Inr (fst demo_key)"
  by code_simp

lemma demo_hash: "\<exists>m sha. gm_files demo_deployed (''acme'', ''infra'', ''main'', ''manifests/team-a/Postgres/db.yaml'') = Some (m, sha) \<and> sha \<noteq> []"
proof -
  have "case gm_files demo_deployed (''acme'', ''infra'', ''main'', ''manifests/team-a/Postgres/db.yaml'') of
      Some (m, sha) \<Rightarrow> sha \<noteq> [] | None \<Rightarrow> False" by code_simp
  then show ?thesis by (auto split: option.splits)
qed

subsection \<open>Properties\<close>



text \<open>
  C17: a GitOps deployment of an instance whose manifest is already in the repository never succeeds, and it
  takes the running instance down. The commit carries no hash of the file it replaces, so the server refuses
  it; the files stay as they are. The compensation then deletes the object that was applied, which is the
  live one: unless the cluster failed or the deletion did, the object is gone.
\<close>

theorem gitops_redeploy_never_succeeds:
  assumes "deploy_world env files objs" "dp_DeploymentMode req = ModeGitOps" "url_safe (GetEffectiveBranch req)"
    and "dp_Repository req = Some repo" "GenerateManifestPath req (rp_BasePath repo) = Inr p"
    and "files w (manifest_file req repo p) = Some (c, sha)" "sha \<noteq> []"
    and "Deploy env (Some req) w = (Some res, err, w')"
  shows "err \<noteq> None \<and> files w' = files w \<and>
    (repo_Validate (Some repo) = None \<and> re_ClusterError res = None \<and> \<not> re_ClusterDeployed res \<longrightarrow>
      (\<exists>g. getGVRFromUnstructured env (BuildUnstructuredSuspended req (dp_APIVersion req) (dp_Kind req) (dp_Spec req)) w = Inr g \<and>
        objs w' (g, scope req, dp_Name req) = None))"
proof -
  have "deployGitOps env req (start_result req) w = (res, err, w')"
    using assms(2,8) by (auto simp: Deploy_def split: prod.splits)
  then show ?thesis
    using deploy_world.gitops_again [OF assms(1,4,3,5-7)] by (simp add: start_result_def)
qed

theorem gitops_redeploy_never_succeeds_witness:
  "gm_other demo_deployed demo_key \<noteq> None \<and>
   (case Deploy mem_env (Some (demo_request ''L'')) demo_deployed of
      (Some res, err, w') \<Rightarrow> err \<noteq> None \<and> gm_files w' = gm_files demo_deployed \<and> gm_other w' demo_key = None
    | _ \<Rightarrow> False)"
proof -
  obtain res err w' where d: "Deploy mem_env (Some (demo_request ''L'')) demo_deployed = (Some res, err, w')"
      "re_ClusterError res = None" "\<not> re_ClusterDeployed res"
    using demo_second by (auto split: prod.splits option.splits)
  obtain m sha where h: "gm_files demo_deployed (manifest_file (demo_request ''L'') demo_repo ''manifests/team-a/Postgres/db.yaml'') = Some (m, sha)"
      "sha \<noteq> []" using demo_hash by (auto simp: demo_manifest(2))
  have k: "demo_key = (fst demo_key, ''team-a'', ''db'')" by (simp add: demo_key_def)
  have "err \<noteq> None" "gm_files w' = gm_files demo_deployed" "gm_other w' demo_key = None"
    using gitops_redeploy_never_succeeds [OF mem_world.deploy_world_axioms demo_manifest(5) demo_safe demo_manifest(4,1) h d(1)]
      d(2,3) demo_gvr demo_manifest(3,6,7) k by auto
  then show ?thesis using d(1) demo_deployed_facts(1) by simp
qed

text \<open>
  Deleting an instance that was deployed to a branch of its own reports success and leaves the manifest:
  \<open>Delete\<close> looks on the branch of the repository.
\<close>

definition demo_branch_request :: DeployRequest where
  "demo_branch_request = (demo_request ''S'')\<lparr>dp_GitBranch := ''staging''\<rparr>"

lemma delete_misses_own_branch:
  "case Delete mem_env ''team-a'' ''db'' ''Postgres'' ''postgres'' ''dev@acme'' False (Some demo_repo) ModeGitOps
      (snd (snd (Deploy mem_env (Some demo_branch_request) demo_empty))) of
     (err, w') \<Rightarrow> err = None \<and> gm_files w' (''acme'', ''infra'', ''staging'', ''manifests/team-a/Postgres/db.yaml'') \<noteq> None"
  by code_simp

text \<open>
  An instance that is suspended stays suspended when it is deployed again in direct mode: the merge patch
  has no entry for the annotation, so the old one is kept.
\<close>

lemma suspension_survives_merge:
  assumes "ob_Annotations old ''kro.run/reconcile'' = Some ''suspended''" "ob_Annotations new ''kro.run/reconcile'' = None"
  shows "ob_Annotations (merge_object old new) ''kro.run/reconcile'' = Some ''suspended''"
  using assms by (simp add: merge_object_def map_add_def)

end
