(* ===== verification/Net_Util.thy ===== *)
theory Net_Util
  imports Knodex_Prelude "HOL-Library.Word"
begin

unbundle bit_operations_syntax

text \<open>
  \<open>netutil/private_host.go\<close> and \<open>ssrf_dialer.go\<close>: which addresses the server may connect to. An IP address
  is Go's 16-byte form, a 128-bit word; an IPv4 address sits in the last 32 bits behind \<open>::ffff\<close>. Of the
  standard library, \<open>net.ParseIP\<close>, \<open>net.SplitHostPort\<close> and \<open>IPNet.Contains\<close> are written out; resolving a
  name and opening a connection are operations on a state \<open>'w\<close>.
\<close>

subsection \<open>Addresses\<close>

type_synonym ip = "128 word"

definition To4 :: "ip \<Rightarrow> 32 word option" where
  "To4 a = (if drop_bit 32 a = 0xFFFF then Some (ucast a) else None)"

definition IPv4 :: "32 word \<Rightarrow> ip" where
  "IPv4 v = push_bit 32 0xFFFF OR ucast v"

definition be_value :: "int list \<Rightarrow> int" where
  "be_value bs = foldl (\<lambda>a b. a * 256 + b) 0 bs"

text \<open>An octet of an IPv4 address: decimal, without leading zeros, at most 255.\<close>

definition digit_value :: "char \<Rightarrow> int" where
  "digit_value c = of_char c - 48"

definition parse_octet :: "string \<Rightarrow> int option" where
  "parse_octet s =
     (if s = [] \<or> \<not> list_all is_digit s \<or> (length s > 1 \<and> hd s = CHR ''0'') then None
      else (let v = foldl (\<lambda>a c. a * 10 + digit_value c) 0 s in if v \<le> 255 then Some v else None))"

definition parseIPv4Fields :: "string \<Rightarrow> int list option" where
  "parseIPv4Fields s =
     (let fs = map parse_octet (split_on (CHR ''.'') s)
      in if length fs = 4 \<and> None \<notin> set fs then Some (map the fs) else None)"

definition is_hex :: "char \<Rightarrow> bool" where
  "is_hex c \<longleftrightarrow> is_digit c \<or> c \<in> set ''abcdefABCDEF''"

definition hex_value :: "char \<Rightarrow> int" where
  "hex_value c = (if is_digit c then of_char c - 48 else of_char (lower_char c) - 87)"

text \<open>
  The fields of an IPv6 address: \<open>bs\<close> are the bytes so far, \<open>ell\<close> the number of bytes before \<open>::\<close>. A
  group has one to four hexadecimal digits; an IPv4 address may stand for the last four bytes.
\<close>

lemma rest_shorter: "takeWhile P s \<noteq> [] \<and> R \<Longrightarrow> length (dropWhile P s) - Suc n < length s"
  using length_dropWhile_le [of P s] by (cases s) auto

function v6_fields :: "int list \<Rightarrow> nat option \<Rightarrow> string \<Rightarrow> (int list \<times> nat option) option" where
  "v6_fields bs ell s =
     (if length bs \<ge> 16 then (if s = [] then Some (bs, ell) else None)
      else (let h = takeWhile is_hex s; rest = dropWhile is_hex s;
                acc = foldl (\<lambda>a c. a * 16 + hex_value c) 0 h; bs' = bs @ [acc div 256, acc mod 256]
            in if h = [] \<or> length h > 4 then None
               else if rest = [] then Some (bs', ell)
               else if hd rest = CHR ''.''
                 then (if (ell = None \<and> length bs \<noteq> 12) \<or> length bs > 12 then None
                       else map_option (\<lambda>q. (bs @ q, ell)) (parseIPv4Fields s))
               else if hd rest \<noteq> CHR '':'' \<or> tl rest = [] then None
               else if hd (tl rest) = CHR '':''
                 then (if ell \<noteq> None then None
                       else if tl (tl rest) = [] then Some (bs', Some (length bs'))
                       else v6_fields bs' (Some (length bs')) (tl (tl rest)))
               else v6_fields bs' ell (tl rest)))"
  by pat_completeness auto
termination
  by (relation "measure (\<lambda>(bs, ell, s). length s)") (simp_all add: rest_shorter)

declare v6_fields.simps [simp del]

definition parseIPv6 :: "string \<Rightarrow> int list option" where
  "parseIPv6 s =
     (if CHR ''%'' \<in> set s then None
      else (case (if prefix ''::'' s then (if drop 2 s = [] then Some ([], Some 0) else v6_fields [] (Some 0) (drop 2 s))
                  else v6_fields [] None s) of
              None \<Rightarrow> None
            | Some (bs, None) \<Rightarrow> if length bs = 16 then Some bs else None
            | Some (bs, Some e) \<Rightarrow>
                if length bs < 16 then Some (take e bs @ replicate (16 - length bs) 0 @ drop e bs) else None))"

definition ParseIP :: "string \<Rightarrow> ip option" where
  "ParseIP s =
     (case find (\<lambda>c. c \<in> set ''.:%'') s of
        None \<Rightarrow> None
      | Some c \<Rightarrow>
          if c = CHR ''.'' then map_option (\<lambda>q. IPv4 (word_of_int (be_value q))) (parseIPv4Fields s)
          else if c = CHR '':'' then map_option (\<lambda>bs. word_of_int (be_value bs)) (parseIPv6 s)
          else None)"

subsection \<open>Private networks\<close>

datatype ip_net = Net4 "32 word" nat | Net6 "128 word" nat

definition Contains :: "ip_net \<Rightarrow> ip \<Rightarrow> bool" where
  "Contains n a =
     (case To4 a of
        Some v \<Rightarrow> (case n of Net4 b l \<Rightarrow> v AND NOT (mask (32 - l)) = b | Net6 _ _ \<Rightarrow> False)
      | None \<Rightarrow> (case n of Net4 _ _ \<Rightarrow> False | Net6 b l \<Rightarrow> a AND NOT (mask (128 - l)) = b))"

definition dotted :: "int \<Rightarrow> int \<Rightarrow> int \<Rightarrow> int \<Rightarrow> 32 word" where
  "dotted a b c d = word_of_int (be_value [a, b, c, d])"

definition privateIPNets :: "ip_net list" where
  "privateIPNets =
     [Net4 (dotted 0 0 0 0) 8, Net4 (dotted 127 0 0 0) 8, Net4 (dotted 10 0 0 0) 8, Net4 (dotted 100 64 0 0) 10,
      Net4 (dotted 172 16 0 0) 12, Net4 (dotted 192 0 0 0) 24, Net4 (dotted 192 0 2 0) 24,
      Net4 (dotted 192 168 0 0) 16, Net4 (dotted 169 254 0 0) 16, Net4 (dotted 198 18 0 0) 15,
      Net4 (dotted 198 51 100 0) 24, Net4 (dotted 203 0 113 0) 24, Net4 (dotted 224 0 0 0) 4, Net4 (dotted 240 0 0 0) 4,
      Net6 1 128, Net6 (push_bit 112 0xFE80) 10, Net6 (push_bit 112 0xFC00) 7]"

definition isPrivateIP :: "ip \<Rightarrow> bool" where
  "isPrivateIP a \<longleftrightarrow> list_ex (\<lambda>n. Contains n a) privateIPNets"

text \<open>The result of a lookup is a list of addresses, each a string.\<close>

definition IsPrivateHost :: "(string \<Rightarrow> 'w \<Rightarrow> (gerror + string list) \<times> 'w) \<Rightarrow> string \<Rightarrow> 'w \<Rightarrow> bool \<times> 'w" where
  "IsPrivateHost LookupHost hostname w =
     (case ParseIP hostname of
        Some a \<Rightarrow> (isPrivateIP a, w)
      | None \<Rightarrow>
          (case LookupHost hostname w of
             (Inl _, w1) \<Rightarrow> (True, w1)
           | (Inr addrs, w1) \<Rightarrow>
               (list_ex (\<lambda>x. case ParseIP x of None \<Rightarrow> False | Some a \<Rightarrow> isPrivateIP a) addrs, w1)))"

subsection \<open>The dialer\<close>

definition last_index :: "char \<Rightarrow> string \<Rightarrow> nat option" where
  "last_index c s = (if c \<in> set s then Some (length s - 1 - length (takeWhile (\<lambda>x. x \<noteq> c) (rev s))) else None)"

definition first_index :: "char \<Rightarrow> string \<Rightarrow> nat option" where
  "first_index c s = (if c \<in> set s then Some (length (takeWhile (\<lambda>x. x \<noteq> c) s)) else None)"

definition SplitHostPort :: "string \<Rightarrow> gerror + string \<times> string" where
  "SplitHostPort hostport =
     (case last_index (CHR '':'') hostport of
        None \<Rightarrow> Inl (Err ''missing port in address'')
      | Some i \<Rightarrow>
          (let finish = (\<lambda>host j k.
                 if CHR ''['' \<in> set (drop j hostport) then Inl (Err ''unexpected opening bracket in address'')
                 else if CHR '']'' \<in> set (drop k hostport) then Inl (Err ''unexpected closing bracket in address'')
                 else Inr (host, drop (Suc i) hostport))
           in if hd hostport = CHR ''[''
              then (case first_index (CHR '']'') hostport of
                      None \<Rightarrow> Inl (Err ''missing closing bracket in address'')
                    | Some e \<Rightarrow>
                        if Suc e = length hostport then Inl (Err ''missing port in address'')
                        else if Suc e = i then finish (drop 1 (take e hostport)) 1 (Suc e)
                        else if hostport ! Suc e = CHR '':'' then Inl (Err ''too many colons in address'')
                        else Inl (Err ''missing port in address''))
              else (let host = take i hostport
                    in if CHR '':'' \<in> set host then Inl (Err ''too many colons in address'') else finish host 0 0)))"

text \<open>The addresses of a host, in the order of the lookup.\<close>

fun parse_addrs :: "string list \<Rightarrow> gerror + ip list" where
  "parse_addrs [] = Inr []"
| "parse_addrs (a # as) =
     (case ParseIP a of
        None \<Rightarrow> Inl (Err ''ssrf dialer: invalid resolved IP'')
      | Some x \<Rightarrow> (case parse_addrs as of Inl e \<Rightarrow> Inl e | Inr xs \<Rightarrow> Inr (x # xs)))"

definition resolve_host :: "(string \<Rightarrow> 'w \<Rightarrow> (gerror + string list) \<times> 'w) \<Rightarrow> string \<Rightarrow> 'w \<Rightarrow> (gerror + ip list) \<times> 'w" where
  "resolve_host LookupHost host w =
     (case ParseIP host of
        Some a \<Rightarrow> (Inr [a], w)
      | None \<Rightarrow>
          (case LookupHost host w of
             (Inl e, w1) \<Rightarrow> (Inl (Wrap ''ssrf dialer: DNS resolution failed'' e), w1)
           | (Inr addrs, w1) \<Rightarrow>
               (if addrs = [] then Inl (Err ''ssrf dialer: no addresses found'') else parse_addrs addrs, w1)))"

definition NewSSRFSafeDialer ::
  "(string \<Rightarrow> 'w \<Rightarrow> (gerror + string list) \<times> 'w) \<Rightarrow> (ip \<Rightarrow> string \<Rightarrow> 'w \<Rightarrow> (gerror + 'c) \<times> 'w) \<Rightarrow>
   string \<Rightarrow> 'w \<Rightarrow> (gerror + 'c) \<times> 'w" where
  "NewSSRFSafeDialer LookupHost Dial addr w =
     (case SplitHostPort addr of
        Inl e \<Rightarrow> (Inl (Wrap ''ssrf dialer: invalid address'' e), w)
      | Inr (host, port) \<Rightarrow>
          (case resolve_host LookupHost host w of
             (Inl e, w1) \<Rightarrow> (Inl e, w1)
           | (Inr ips, w1) \<Rightarrow>
               if list_ex isPrivateIP ips then (Inl (Err ''ssrf dialer: connection to private/reserved address blocked''), w1)
               else Dial (ips ! 0) port w1))"


subsection \<open>The networks as ranges\<close>

lemma low_half: "ucast (push_bit 32 p OR ucast v :: ip) = (v :: 32 word)"
  by (rule bit_word_eqI) (auto simp: bit_simps)

lemma high_half: "drop_bit 32 (ucast (v :: 32 word) :: ip) = 0"
  by (rule bit_word_eqI) (auto simp: bit_simps dest: bit_imp_le_length)

lemma halves: "push_bit 32 (drop_bit 32 a) OR ucast (ucast a :: 32 word) = (a :: ip)"
  by (rule bit_word_eqI) (auto simp: bit_simps)

lemma To4_iff: "To4 a = Some v \<longleftrightarrow> a = IPv4 v"
proof
  show "To4 a = Some v" if "a = IPv4 v"
  proof -
    have "drop_bit 32 (IPv4 v) = 0xFFFF" unfolding IPv4_def drop_bit_or high_half by simp
    then show ?thesis using that low_half [of "0xFFFF" v] by (simp add: To4_def IPv4_def)
  qed
  show "a = IPv4 v" if "To4 a = Some v"
  proof -
    have "drop_bit 32 a = 0xFFFF" "ucast a = v" using that by (simp_all add: To4_def split: if_splits)
    then show ?thesis using halves [of a] by (simp add: IPv4_def)
  qed
qed

lemma uint_drop_bit: "uint (drop_bit k v) = uint (v :: 'a::len word) div 2 ^ k"
  by (subst unsigned_drop_bit_eq) (simp add: drop_bit_eq_div take_bit_int_eq_self uint_lt2p)

lemma aligned_range:
  fixes v b :: "'a::len word"
  assumes "b = push_bit k (drop_bit k b)"
  shows "v AND NOT (mask k) = b \<longleftrightarrow> uint v div 2 ^ k = uint b div 2 ^ k"
proof -
  have m: "x AND NOT (mask k) = push_bit k (drop_bit k x)" for x :: "'a word"
    by (rule bit_word_eqI) (auto simp: bit_simps)
  have "v AND NOT (mask k) = b \<longleftrightarrow> drop_bit k v = drop_bit k b"
  proof
    assume "v AND NOT (mask k) = b"
    then have "drop_bit k b = drop_bit k (push_bit k (drop_bit k v))" by (simp add: m)
    then show "drop_bit k v = drop_bit k b" using m [of v] by (auto intro!: bit_word_eqI simp: bit_simps dest: bit_imp_le_length)
  next
    assume "drop_bit k v = drop_bit k b"
    then show "v AND NOT (mask k) = b" using assms by (simp add: m)
  qed
  also have "\<dots> \<longleftrightarrow> uint (drop_bit k v) = uint (drop_bit k b)" by (simp add: word_uint_eq_iff)
  finally show ?thesis unfolding uint_drop_bit .
qed


text \<open>The private networks, as ranges of numbers; the upper end is the first address after the network.\<close>

definition private4 :: "int \<Rightarrow> bool" where
  "private4 v \<longleftrightarrow>
     list_ex (\<lambda>(lo, hi). be_value lo \<le> v \<and> v < be_value hi)
       [([0,0,0,0], [1,0,0,0]), ([127,0,0,0], [128,0,0,0]), ([10,0,0,0], [11,0,0,0]), ([100,64,0,0], [100,128,0,0]),
        ([172,16,0,0], [172,32,0,0]), ([192,0,0,0], [192,0,1,0]), ([192,0,2,0], [192,0,3,0]),
        ([192,168,0,0], [192,169,0,0]), ([169,254,0,0], [169,255,0,0]), ([198,18,0,0], [198,20,0,0]),
        ([198,51,100,0], [198,51,101,0]), ([203,0,113,0], [203,0,114,0]), ([224,0,0,0], [256,0,0,0])]"

definition private6 :: "int \<Rightarrow> bool" where
  "private6 v \<longleftrightarrow> v = 1 \<or> (0xFE80 * 2 ^ 112 \<le> v \<and> v < 0xFEC0 * 2 ^ 112) \<or> (0xFC00 * 2 ^ 112 \<le> v \<and> v < 0xFE00 * 2 ^ 112)"

lemma Contains4: "Contains (Net4 b l) (IPv4 v) \<longleftrightarrow> v AND NOT (mask (32 - l)) = b" "\<not> Contains (Net6 c l) (IPv4 v)"
  using To4_iff [of "IPv4 v" v] by (simp_all add: Contains_def)

lemma div_eq_range:
  assumes "0 < d"
  shows "(v :: int) div d = q \<longleftrightarrow> q * d \<le> v \<and> v < q * d + d"
proof
  assume q: "v div d = q"
  have "v = v div d * d + v mod d" "0 \<le> v mod d" "v mod d < d" using assms by simp_all
  then show "q * d \<le> v \<and> v < q * d + d" unfolding q by linarith
next
  assume "q * d \<le> v \<and> v < q * d + d"
  then show "v div d = q" by (intro int_div_pos_eq [of v d q "v - q * d"]) (auto simp: mult.commute)
qed

lemma network_range:
  fixes v :: "'a::len word"
  assumes "0 \<le> n" "n < 2 ^ LENGTH('a)" "n mod 2 ^ k = 0"
  shows "v AND NOT (mask k) = word_of_int n \<longleftrightarrow> n \<le> uint v \<and> uint v < n + 2 ^ k"
proof -
  have b: "uint (word_of_int n :: 'a word) = n" using assms(1,2) by (simp add: uint_word_of_int)
  obtain m where m: "n = 2 ^ k * m" using assms(3) by (metis dvd_def mod_eq_0_iff_dvd)
  have m0: "0 \<le> m" using m assms(1) by (simp add: zero_le_mult_iff)
  have "m \<le> n" unfolding m using mult_right_mono [of 1 "2 ^ k" m] m0 by simp
  then have mm: "m < 2 ^ LENGTH('a)" using assms(2) by (rule le_less_trans)
  have "(word_of_int n :: 'a word) = push_bit k (word_of_int m)" by (simp add: m push_bit_eq_mult mult.commute)
  moreover have "drop_bit k (word_of_int n :: 'a word) = word_of_int m"
    using b m m0 mm by (intro word_uint_eq_iff [THEN iffD2]) (simp add: uint_drop_bit uint_word_of_int)
  ultimately have "(word_of_int n :: 'a word) = push_bit k (drop_bit k (word_of_int n))" by simp
  from aligned_range [OF this, of v] show ?thesis
    unfolding b using div_eq_range [of "2 ^ k" "uint v" m] m by (auto simp: mult.commute)
qed

lemma Contains_dotted:
  "0 \<le> be_value [a, b, c, d] \<Longrightarrow> be_value [a, b, c, d] < 2 ^ 32 \<Longrightarrow> be_value [a, b, c, d] mod 2 ^ (32 - l) = 0 \<Longrightarrow>
   Contains (Net4 (dotted a b c d) l) (IPv4 v) \<longleftrightarrow>
     be_value [a, b, c, d] \<le> uint v \<and> uint v < be_value [a, b, c, d] + 2 ^ (32 - l)"
  using network_range [of "be_value [a, b, c, d]" "32 - l" v] by (simp add: Contains4 dotted_def)

lemma Contains6:
  "To4 x = None \<Longrightarrow> 0 \<le> n \<Longrightarrow> n < 2 ^ 128 \<Longrightarrow> n mod 2 ^ (128 - l) = 0 \<Longrightarrow>
   Contains (Net6 (word_of_int n) l) x \<longleftrightarrow> n \<le> uint x \<and> uint x < n + 2 ^ (128 - l)"
  "To4 x = None \<Longrightarrow> \<not> Contains (Net4 b l) x"
  using network_range [of n "128 - l" x] by (simp_all add: Contains_def)

lemma private_networks:
  "isPrivateIP (IPv4 v) \<longleftrightarrow> private4 (uint v)" "To4 a = None \<Longrightarrow> isPrivateIP a \<longleftrightarrow> private6 (uint a)"
proof -
  have v: "0 \<le> uint v" "uint v < 2 ^ 32" using uint_lt2p [of v] by simp_all
  have top: "3758096384 \<le> n \<and> n < 4294967296 \<longleftrightarrow> 3758096384 \<le> n \<and> n < 4026531840 \<or> 4026531840 \<le> n \<and> n < 4294967296" for n :: int
    by arith
  show "isPrivateIP (IPv4 v) \<longleftrightarrow> private4 (uint v)"
    by (simp add: isPrivateIP_def privateIPNets_def Contains_dotted Contains4(2) be_value_def private4_def top)
next
  assume n: "To4 a = None"
  have w: "(1 :: ip) = word_of_int 1" "push_bit 112 0xFE80 = (word_of_int (0xFE80 * 2 ^ 112) :: ip)"
    "push_bit 112 0xFC00 = (word_of_int (0xFC00 * 2 ^ 112) :: ip)" by (simp_all add: push_bit_eq_mult)
  have "Contains (Net6 1 128) a \<longleftrightarrow> uint a = 1" unfolding w(1) using Contains6(1) [OF n, of 1 128] by auto
  moreover have "Contains (Net6 (push_bit 112 0xFE80) 10) a \<longleftrightarrow> 0xFE80 * 2 ^ 112 \<le> uint a \<and> uint a < 0xFEC0 * 2 ^ 112"
    unfolding w(2) by (subst Contains6(1) [OF n]) simp_all
  moreover have "Contains (Net6 (push_bit 112 0xFC00) 7) a \<longleftrightarrow> 0xFC00 * 2 ^ 112 \<le> uint a \<and> uint a < 0xFE00 * 2 ^ 112"
    unfolding w(3) by (subst Contains6(1) [OF n]) simp_all
  ultimately show "isPrivateIP a \<longleftrightarrow> private6 (uint a)"
    using Contains6(2) [OF n] by (simp add: isPrivateIP_def privateIPNets_def private6_def)
qed

text \<open>
  C39: \<open>isPrivateIP\<close> is exact. An IPv4 address, also in its IPv6 form, is private exactly when its value lies
  in one of the listed ranges, and another IPv6 address exactly when it is the loopback address, link-local
  or unique local: the masks and comparisons of 32-bit and 128-bit words are comparisons of numbers, at
  every edge of a network.
\<close>

theorem private_networks_exact:
  "isPrivateIP a \<longleftrightarrow> (case To4 a of Some v \<Rightarrow> private4 (uint v) | None \<Rightarrow> private6 (uint a))"
proof (cases "To4 a")
  case (Some v)
  then show ?thesis using To4_iff [of a v] private_networks(1) by simp
qed (simp add: private_networks(2))

text \<open>
  The unspecified address \<open>::\<close> is in no network of the list, although it reaches the local host as
  \<open>0.0.0.0\<close> does.
\<close>

lemma unspecified_address_is_not_private:
  "ParseIP ''::'' = Some 0 \<and> \<not> isPrivateIP 0 \<and> (\<exists>a. ParseIP ''0.0.0.0'' = Some a \<and> isPrivateIP a)"
proof -
  have "ParseIP ''::'' = Some 0" "ParseIP ''0.0.0.0'' = Some (IPv4 0)" by code_simp+
  moreover have "\<not> isPrivateIP 0" "isPrivateIP (IPv4 0)"
    using private_networks(1) [of 0] private_networks(2) [of 0] by (simp_all add: To4_def private6_def private4_def be_value_def)
  ultimately show ?thesis by blast
qed

lemma parse_examples:
  "ParseIP ''169.254.169.254'' = Some (IPv4 (dotted 169 254 169 254))" "ParseIP ''::ffff:10.0.0.1'' = Some (IPv4 (dotted 10 0 0 1))"
  "ParseIP ''fe80::1'' = Some (push_bit 112 0xFE80 + 1)" "ParseIP ''127.0.0.01'' = None" "ParseIP ''1.2.3'' = None"
  "ParseIP ''fe80::1%eth0'' = None" "ParseIP ''localhost'' = None" "ParseIP '':1'' = None" "ParseIP ''1::2::3'' = None"
  by code_simp+

subsection \<open>The dialer\<close>

lemma parse_addrs_Inr: "parse_addrs as = Inr xs \<longleftrightarrow> map ParseIP as = map Some xs"
proof (induction as arbitrary: xs)
  case (Cons a as)
  show ?case by (cases xs) (auto simp: Cons.IH [symmetric] split: option.split sum.split)
qed auto

text \<open>
  C40: the dialer connects to public addresses only, and to the address it has checked. It either fails
  without connecting, or it connects once, to the first address of the one lookup it has made (or to the
  address given), and no address of that lookup is private: a name that resolves to something else
  afterwards changes nothing.
\<close>

theorem dialer_pins_public_address:
  "(\<exists>e w1. \<forall>Dial. NewSSRFSafeDialer LookupHost Dial addr w = (Inl e, w1)) \<or>
   (\<exists>host port a as w1. SplitHostPort addr = Inr (host, port) \<and> list_all (\<lambda>x. \<not> isPrivateIP x) (a # as) \<and>
      (ParseIP host = Some a \<and> as = [] \<and> w1 = w \<or>
       (\<exists>addrs. ParseIP host = None \<and> LookupHost host w = (Inr addrs, w1) \<and> map ParseIP addrs = map Some (a # as))) \<and>
      (\<forall>Dial. NewSSRFSafeDialer LookupHost Dial addr w = Dial a port w1))"
proof (cases "SplitHostPort addr")
  case (Inr hp)
  obtain host port where hp: "SplitHostPort addr = Inr (host, port)" using Inr by (cases hp) auto
  obtain r w1 where r: "resolve_host LookupHost host w = (r, w1)" by fastforce
  show ?thesis
  proof (cases "\<exists>ips. r = Inr ips \<and> \<not> list_ex isPrivateIP ips")
    case False
    then have "\<exists>e. \<forall>Dial. NewSSRFSafeDialer LookupHost Dial addr w = (Inl e, w1)"
      using hp r by (cases r) (auto simp: NewSSRFSafeDialer_def)
    then show ?thesis by blast
  next
    case True
    then obtain ips where ips: "r = Inr ips" "\<not> list_ex isPrivateIP ips" by blast
    have k: "ParseIP host = Some (hd ips) \<and> ips = [hd ips] \<and> w1 = w \<or>
        (\<exists>addrs. ParseIP host = None \<and> LookupHost host w = (Inr addrs, w1) \<and> map ParseIP addrs = map Some ips \<and> addrs \<noteq> [])"
      using r ips(1) by (auto simp: resolve_host_def parse_addrs_Inr split: option.splits sum.splits prod.splits if_splits)
    then obtain a as where c: "ips = a # as" by (cases ips) auto
    have "\<forall>Dial. NewSSRFSafeDialer LookupHost Dial addr w = Dial a port w1"
      using hp r ips c by (simp add: NewSSRFSafeDialer_def)
    moreover have "list_all (\<lambda>x. \<not> isPrivateIP x) (a # as)" using ips(2) c by (auto simp: list_ex_iff list_all_iff)
    moreover have "ParseIP host = Some a \<and> as = [] \<and> w1 = w \<or>
       (\<exists>addrs. ParseIP host = None \<and> LookupHost host w = (Inr addrs, w1) \<and> map ParseIP addrs = map Some (a # as))"
      using k c by auto
    ultimately show ?thesis using hp by blast
  qed
qed (auto simp: NewSSRFSafeDialer_def)

end
