(* ===== verification/Spec2Isabelle.thy ===== *)
theory Spec2Isabelle
  imports Tenant_Isolation Policy_Enforce Authz_Cache Project_Service Cache_Race Catalog_Cache
    Role_Store Redis_Cache Authz_Middleware Retry Policy_Sync Deployment_Controller
    Net_Util
begin

text \<open>
  Verification of the server of knodex, a self-service portal over Kubernetes and the kro operator. The
  server (Go, \<open>src/server\<close>) shows ResourceGraphDefinitions (RGDs) as a catalog, deploys instances of
  them, and decides for every request who may do what. Tenants are Projects, cluster resources with
  destinations (namespaces), roles, policies and groups. The development covers the path of a request
  from the HTTP gate through the authorization engine to the catalog, and the machinery that keeps the
  engine in step with the cluster and with Redis, and the deployment of an instance to the cluster and to Git.

  \<^bold>\<open>The parts and how they work together.\<close> A project is validated and stored by the project service
  (\<open>Project_Model\<close>, \<open>Project_Service\<close>). Loading it turns its roles into rules of the Casbin engine
  (\<open>Policy_Parser\<close>, \<open>Policy_Load\<close>, over \<open>Casbin_Enforcer\<close>), with names and objects in the formats of
  \<open>Subject_Format\<close>. A request passes the gate (\<open>Authz_Middleware\<close>), which asks the policy enforcer
  (\<open>Policy_Enforce\<close>); the enforcer keeps decisions in a cache, local (\<open>Authz_Cache\<close>) or shared by the
  replicas (\<open>Redis_Cache\<close>), and user roles in Redis (\<open>Role_Store\<close>). The services compute from the enforcer
  what a user sees (\<open>Authorization_Service\<close>, \<open>Catalog_Service\<close>), out of the index of RGDs (\<open>Rgd_Cache\<close>),
  with a list cache in Redis (\<open>Catalog_Cache\<close>).

  \<^bold>\<open>Theories, in the order of their imports.\<close>
  \<^item> \<open>Knodex_Prelude\<close>: Go strings (bytes), the functions of the package \<open>strings\<close> the program calls,
    errors as values with wrapping, loops that stop at the first error, and the collections \<open>go_simps\<close> and
    \<open>frame_simps\<close>.
  \<^item> \<open>Subject_Format\<close>: identifiers, subjects and objects of policies, \<open>rbac/casbin.go\<close> and \<open>util/sanitize\<close>.
    Lemmas: which identifiers are accepted, unambiguous names of roles.
  \<^item> \<open>Casbin_Enforcer\<close>: the wrapper \<open>CasbinEnforcer\<close> and the model file. Casbin is third-party: a record
    of its operations, and the laws it is relied on for as locale \<open>casbin_engine\<close> (rules and links as sets,
    reachability of roles, the matcher of the model), interpreted on an executable store (\<open>mem\<close>).
  \<^item> \<open>Project_Model\<close>: the Project resource and its validation, \<open>rbac/types.go\<close>, \<open>rbac/validation.go\<close>.
    The validator is equivalent to a declarative well-formedness predicate; \<open>MatchGlob\<close> is equivalent to a
    recursive definition of globs; the namespace matchers agree on validated patterns.
  \<^item> \<open>Policy_Parser\<close>: \<open>rbac/policy_parser.go\<close>. Print/parse round trip, validity of what is parsed.
  \<^item> \<open>Authz_Cache\<close>: \<open>rbac/cache.go\<close> against the locale \<open>authz_cache\<close>, the contract of a decision cache.
  \<^item> \<open>Policy_Load\<close>: loading, removing and synchronising projects, \<open>rbac/policy_enforcer.go\<close>. A load touches
    only its own project, a successful one is exact and idempotent, a synchronisation leaves no stale rules.
  \<^item> \<open>Tenant_Isolation\<close>: what the rules of a project can grant, and three ways out of the project.
  \<^item> \<open>Policy_Enforce\<close>: decisions and user roles, same file. The locale \<open>policy_enforcer\<close> puts the engine
    and the cache together; answers refine the engine's decision, every operation keeps the cache coherent.
  \<^item> \<open>Project_Service\<close>: \<open>rbac/project_service.go\<close> over a Kubernetes client (locale \<open>project_client\<close>,
    interpreted on an in-memory API server).
  \<^item> \<open>Cache_Race\<close>: requests and loads of several goroutines as a step relation over the critical sections
    of \<open>policy_enforcer.go\<close>; which answers an interleaving can give, and the stale grant it can leave.
  \<^item> \<open>Authorization_Service\<close>: \<open>services/authorization_service.go\<close>; the locale \<open>authorizer\<close> is what a client
    relies on when it asks the enforcer, interpreted on \<open>CanAccessWithGroups\<close> (\<open>acc\<close>).
  \<^item> \<open>Rgd_Cache\<close>: \<open>kro/watcher/cache.go\<close> with its inverted indexes (locale \<open>term_index\<close>), 64-bit paging.
  \<^item> \<open>Catalog_Service\<close>, \<open>Catalog_Cache\<close>: \<open>services/catalog_service.go\<close>; a listing shows exactly the
    permitted definitions, and the list cache (locale \<open>list_store\<close>) is invisible where keys are unambiguous.
  \<^item> \<open>Redis_Client\<close>: the client of Redis as a record of operations and the locale \<open>redis_server\<close> of the
    promises of the server, interpreted on an in-memory server with expiry, cursors and outages.
  \<^item> \<open>Role_Store\<close>, \<open>Redis_Cache\<close>: \<open>rbac/redis_role_store.go\<close> and \<open>rbac/redis_cache.go\<close> over it.
  \<^item> \<open>Http_Request\<close>, \<open>Authz_Middleware\<close>: requests, responses, authentication and the gate of
    \<open>api/middleware\<close>. The gate fails closed; it admits exactly the open endpoints and what is granted.
  \<^item> \<open>Policy_Sync\<close>: the project watcher, the periodic synchronisation and the enforcer over a changing set
    of projects, as step relations. Events alone keep the engine in step, an undisturbed synchronisation
    repairs it from any state, one that overlaps a deletion brings the deleted project back.
  \<^item> \<open>Retry\<close>: \<open>util/retry\<close> and \<open>rbac/concurrency.go\<close>; bounded, and an operation that recovers succeeds.
  \<^item> \<open>Sanitize\<close>: \<open>util/sanitize\<close>; what a path component, a file name or a key can still hold.
  \<^item> \<open>Deployment_Model\<close>: \<open>deployment/types.go\<close>, \<open>metadata.go\<close>, \<open>generator.go\<close> and \<open>validation.go\<close>: repositories,
    requests, manifests and their paths, the check of a specification. A manifest stays below the base path of
    its repository, different instances have different paths except where the path does not tell them apart.
  \<^item> \<open>Github_Client\<close>: \<open>deployment/vcs/github.go\<close> and \<open>retry.go\<close> over the contents API, which is the locale
    \<open>github_server\<close>, interpreted on an in-memory server. Commits and deletions do what they report.
  \<^item> \<open>Deployment_Controller\<close>: \<open>deployment/controller.go\<close> over the locale \<open>deploy_world\<close>, an API server beside the
    Git server, which extends \<open>github_server\<close>. What a deployment reports is what it has left in the cluster
    and in the repository; a second GitOps deployment fails and removes the instance.
  \<^item> \<open>Net_Util\<close>: \<open>netutil/private_host.go\<close> and \<open>ssrf_dialer.go\<close>; addresses are 128-bit words. The masks of the
    private networks are ranges of numbers, and the dialer connects to the address it has checked.

  \<^bold>\<open>Bounds and fuel.\<close> No definition is cut off by fuel. Loops over slices are structural; scanning loops
  have a length measure; the \<open>SCAN\<close> loop of \<open>Role_Store\<close>, which the code does not bound, is a
  \<open>partial_function\<close> with a separate theorem that it returns; in \<open>Redis_Cache\<close> the code's timeout is the
  argument \<open>calls\<close>, the number of round trips that fit into it, and running out of them is the client's
  error. Counters, page numbers and sizes are 64-bit words; times are integers, given to every operation.
  An operation under a mutex is one step; where the code leaves the lock (\<open>Cache_Race\<close>) the steps are apart.

  \<^bold>\<open>Not modelled.\<close> Logging, metrics and traces; background goroutines beyond the steps they take; the text
  of JSON and YAML (values are modelled, not their parsers); TLS, cookies, OIDC and password hashing, which
  are third-party cryptography; Kubernetes informers; the resource and CEL parser, the WebSocket
  hub, history and drift records, repository configurations, and the HTTP handlers behind the gate, which
  decode a request and call the services; the web front end. PROJECT.json lists every package
  of the server with its status.
\<close>

end
